(* ===== verification/Prelude.thy ===== *)
theory Prelude
  imports Main "HOL-Library.Word"
begin

text \<open>
  Shared vocabulary of the development: the domain identities of
  \<^verbatim>\<open>src/crates/domain/src/lib.rs\<close>, fallible results, checked 64-bit ordinals, and the
  generic machine interface that every lifecycle of the domain crate satisfies (a transition
  is a function into \<open>'err + 'state\<close>, a rejection keeps the old state).
\<close>

named_theorems domain_simps \<open>unfolding rules of the small record and datatype operations\<close>

named_theorems inv_intros \<open>introduction rules for the component invariants\<close>

section \<open>Identities\<close>

text \<open>
  The macro \<^verbatim>\<open>define_identity!\<close> makes one newtype over \<^verbatim>\<open>uuid::Uuid\<close> per identity.
  A UUID is 16 bytes compared lexicographically, which is the unsigned order of the 128-bit
  big-endian number; the tag type keeps the identities apart as the newtypes do.
\<close>

datatype (dead 'tag) ident = Ident (as_uuid: "128 word")

instantiation ident :: (type) linorder
begin

definition less_eq_ident :: "'a ident \<Rightarrow> 'a ident \<Rightarrow> bool" where
  "less_eq_ident a b \<longleftrightarrow> as_uuid a \<le> as_uuid b"

definition less_ident :: "'a ident \<Rightarrow> 'a ident \<Rightarrow> bool" where
  "less_ident a b \<longleftrightarrow> as_uuid a < as_uuid b"

instance
  by standard (auto simp: less_eq_ident_def less_ident_def ident.expand)

end

lemma ident_le [simp]: "Ident a \<le> Ident b \<longleftrightarrow> a \<le> b"
  by (simp add: less_eq_ident_def)

lemma ident_less [simp]: "Ident a < Ident b \<longleftrightarrow> a < b"
  by (simp add: less_ident_def)

instance ident :: (type) finite
proof
  have "(UNIV :: 'a ident set) \<subseteq> range Ident"
    by (metis ident.exhaust rangeI subsetI)
  moreover have "finite (range (Ident :: 128 word \<Rightarrow> 'a ident))"
    by (rule finite_imageI) simp
  ultimately show "finite (UNIV :: 'a ident set)"
    by (rule finite_subset)
qed

datatype session_tag = SessionTag
datatype accepted_input_tag = AcceptedInputTag
datatype turn_tag = TurnTag
datatype turn_attempt_tag = TurnAttemptTag
datatype model_call_tag = ModelCallTag
datatype tool_request_tag = ToolRequestTag
datatype tool_attempt_tag = ToolAttemptTag
datatype durable_command_tag = DurableCommandTag
datatype program_run_tag = ProgramRunTag
datatype repo_watch_dispatch_tag = RepoWatchDispatchTag
datatype commissioned_dispatch_tag = CommissionedDispatchTag
datatype context_frontier_tag = ContextFrontierTag
datatype semantic_transcript_entry_tag = SemanticTranscriptEntryTag

type_synonym session_id = "session_tag ident"
type_synonym accepted_input_id = "accepted_input_tag ident"
type_synonym turn_id = "turn_tag ident"
type_synonym turn_attempt_id = "turn_attempt_tag ident"
type_synonym model_call_id = "model_call_tag ident"
type_synonym tool_request_id = "tool_request_tag ident"
type_synonym tool_attempt_id = "tool_attempt_tag ident"
type_synonym durable_command_id = "durable_command_tag ident"
type_synonym program_run_id = "program_run_tag ident"
type_synonym repo_watch_dispatch_id = "repo_watch_dispatch_tag ident"
type_synonym commissioned_dispatch_id = "commissioned_dispatch_tag ident"
type_synonym context_frontier_id = "context_frontier_tag ident"
type_synonym semantic_transcript_entry_id = "semantic_transcript_entry_tag ident"

text \<open>A Rust \<^verbatim>\<open>String\<close> is its UTF-8 bytes; \<^verbatim>\<open>len()\<close> is their number.\<close>

type_synonym utf8 = "8 word list"

section \<open>Checked 64-bit ordinals\<close>

type_synonym u64 = "64 word"

text \<open>\<^verbatim>\<open>u64::checked_add(1)\<close> and \<^verbatim>\<open>NonZeroU64::checked_add(1)\<close>.\<close>

definition checked_succ :: "u64 \<Rightarrow> u64 option" where
  "checked_succ n = (if n = - 1 then None else Some (n + 1))"

lemma checked_succ_Some_iff: "checked_succ n = Some m \<longleftrightarrow> n \<noteq> - 1 \<and> m = n + 1"
  by (auto simp: checked_succ_def)

lemma unat_checked_succ: "checked_succ n = Some m \<Longrightarrow> unat m = Suc (unat n)"
  by (auto simp: checked_succ_def split: if_splits) (metis add.commute eq_neg_iff_add_eq_0 unatSuc)

lemma checked_succ_neq_0: "checked_succ n = Some m \<Longrightarrow> m \<noteq> 0"
  by (auto simp: checked_succ_def split: if_splits) (metis eq_neg_iff_add_eq_0)

lemma checked_succ_iff: "checked_succ n = Some m \<longleftrightarrow> unat n < 2 ^ 64 - 1 \<and> unat m = Suc (unat n)"
proof -
  have "unat (- 1 :: u64) = 2 ^ 64 - 1"
    by (simp add: unsigned_minus_1_eq_mask mask_eq_exp_minus_1)
  then have "n \<noteq> - 1 \<longleftrightarrow> unat n \<noteq> 2 ^ 64 - 1"
    by (metis word_unat_eq_iff)
  moreover have "unat n < 2 ^ 64" using unsigned_less [of n] by simp
  ultimately have lt: "n \<noteq> - 1 \<longleftrightarrow> unat n < 2 ^ 64 - 1" by linarith
  show ?thesis
  proof (cases "n = - 1")
    case True
    with lt show ?thesis by (simp add: checked_succ_def)
  next
    case False
    then have "unat (n + 1) = Suc (unat n)" using unat_checked_succ by (simp add: checked_succ_def)
    with False lt show ?thesis by (auto simp: checked_succ_def word_unat_eq_iff)
  qed
qed

lemma checked_succ_bounded:
  "unat n < 2 ^ 64 - 1 \<Longrightarrow> \<exists>m. checked_succ n = Some m \<and> unat m = Suc (unat n)"
  by (cases "checked_succ n") (auto simp: checked_succ_def unsigned_minus_1_eq_mask
    mask_eq_exp_minus_1 unat_checked_succ split: if_splits)

section \<open>Order of elements in a list\<close>

definition precedes :: "'a list \<Rightarrow> 'a \<Rightarrow> 'a \<Rightarrow> bool" where
  "precedes xs a b \<longleftrightarrow> (\<exists>i j. i < j \<and> j < length xs \<and> xs ! i = a \<and> xs ! j = b)"

definition adjacent :: "'a list \<Rightarrow> 'a \<Rightarrow> 'a \<Rightarrow> bool" where
  "adjacent xs a b \<longleftrightarrow> (\<exists>i. Suc i < length xs \<and> xs ! i = a \<and> xs ! Suc i = b)"

lemma precedes_nth:
  "distinct xs \<Longrightarrow> i < length xs \<Longrightarrow> j < length xs \<Longrightarrow> precedes xs (xs ! i) (xs ! j) \<longleftrightarrow> i < j"
  unfolding precedes_def by (metis nth_eq_iff_index_eq order.strict_trans)

lemma adjacent_nth:
  "distinct xs \<Longrightarrow> i < length xs \<Longrightarrow> j < length xs \<Longrightarrow> adjacent xs (xs ! i) (xs ! j) \<longleftrightarrow> j = Suc i"
  unfolding adjacent_def by (metis nth_eq_iff_index_eq Suc_lessD)

lemma precedes_asym: "distinct xs \<Longrightarrow> precedes xs a b \<Longrightarrow> \<not> precedes xs b a"
  unfolding precedes_def by (metis nth_eq_iff_index_eq not_less_iff_gr_or_eq order.strict_trans)

lemma precedes_trans: "distinct xs \<Longrightarrow> precedes xs a b \<Longrightarrow> precedes xs b c \<Longrightarrow> precedes xs a c"
  unfolding precedes_def by (metis nth_eq_iff_index_eq order.strict_trans)

lemma precedes_total:
  "a \<in> set xs \<Longrightarrow> b \<in> set xs \<Longrightarrow> a \<noteq> b \<Longrightarrow> precedes xs a b \<or> precedes xs b a"
  unfolding precedes_def by (metis in_set_conv_nth linorder_neq_iff)

lemma precedes_append1: "precedes xs a b \<Longrightarrow> precedes (xs @ ys) a b"
  unfolding precedes_def by (metis length_append nth_append order.strict_trans trans_less_add1)

lemma precedes_append2: "precedes ys a b \<Longrightarrow> precedes (xs @ ys) a b"
  unfolding precedes_def by (metis length_append nth_append_length_plus add_less_cancel_left)

lemma precedes_append_cross: "a \<in> set xs \<Longrightarrow> b \<in> set ys \<Longrightarrow> precedes (xs @ ys) a b"
  unfolding precedes_def
  by (metis in_set_conv_nth length_append nth_append nth_append_length_plus trans_less_add1
      add_less_cancel_left)

lemma precedes_Cons: "precedes (x # xs) a b \<longleftrightarrow> a = x \<and> b \<in> set xs \<or> precedes xs a b"
proof
  assume "precedes (x # xs) a b"
  then obtain i j where "i < j" "j < Suc (length xs)" "(x # xs) ! i = a" "(x # xs) ! j = b"
    by (auto simp: precedes_def)
  then show "a = x \<and> b \<in> set xs \<or> precedes xs a b"
    by (cases i; cases j) (auto simp: precedes_def)
next
  assume "a = x \<and> b \<in> set xs \<or> precedes xs a b"
  then show "precedes (x # xs) a b"
    using precedes_append_cross [of a "[x]" b xs] precedes_append2 [of xs a b "[x]"] by auto
qed

lemma adjacent_append1: "adjacent xs a b \<Longrightarrow> adjacent (xs @ ys) a b"
  unfolding adjacent_def by (metis Suc_lessD length_append nth_append trans_less_add1)

lemma adjacent_append2: "adjacent ys a b \<Longrightarrow> adjacent (xs @ ys) a b"
  unfolding adjacent_def
  by (metis add_Suc_right length_append nth_append_length_plus add_less_cancel_left)

lemma adjacent_precedes: "adjacent xs a b \<Longrightarrow> precedes xs a b"
  unfolding adjacent_def precedes_def by blast

lemma adjacent_set: "adjacent xs a b \<Longrightarrow> a \<in> set xs \<and> b \<in> set xs"
  by (metis Suc_lessD adjacent_def nth_mem)

lemma precedes_concat:
  "\<forall>ch \<in> set chs. ch \<noteq> [] \<Longrightarrow> precedes (map hd chs) a b \<Longrightarrow> precedes (concat chs) a b"
proof (induction chs)
  case (Cons ch chs)
  have sub: "hd ` set chs \<subseteq> set (concat chs)" using Cons.prems by auto
  from Cons.prems consider "a = hd ch" "b \<in> hd ` set chs" | "precedes (map hd chs) a b"
    by (auto simp: precedes_Cons)
  then show ?case
  proof cases
    case 1
    then have "a \<in> set ch" "b \<in> set (concat chs)" using Cons.prems sub by auto
    then show ?thesis by (simp add: precedes_append_cross)
  next
    case 2
    then show ?thesis using Cons by (simp add: precedes_append2)
  qed
qed (simp add: precedes_def)

lemma adjacent_concat: "ch \<in> set chs \<Longrightarrow> adjacent ch a b \<Longrightarrow> adjacent (concat chs) a b"
  by (induction chs) (auto intro: adjacent_append1 adjacent_append2)

lemma in_set_map_filter: "b \<in> set (List.map_filter f xs) \<longleftrightarrow> (\<exists>x \<in> set xs. f x = Some b)"
  by (induction xs) (auto simp: List.map_filter_simps split: option.splits)

lemma sorted_wrt_map_filter:
  "sorted_wrt P (List.map_filter f xs) \<longleftrightarrow>
     sorted_wrt (\<lambda>x y. \<forall>a b. f x = Some a \<longrightarrow> f y = Some b \<longrightarrow> P a b) xs"
  by (induction xs) (auto simp: List.map_filter_simps in_set_map_filter split: option.splits)

lemma map_filter_append: "List.map_filter f (xs @ ys) = List.map_filter f xs @ List.map_filter f ys"
  by (induction xs) (auto simp: List.map_filter_simps split: option.splits)

lemma ex_nat_split: "(\<exists>i. P i) \<longleftrightarrow> P 0 \<or> (\<exists>i. P (Suc i))"
  by (metis not0_implies_Suc)

lemma find_upt_first: "find P [a..<b] = Some g \<Longrightarrow> a \<le> j \<Longrightarrow> j < g \<Longrightarrow> \<not> P j"
proof -
  assume g: "find P [a..<b] = Some g" and j: "a \<le> j" "j < g"
  then obtain i where "i < b - a" "g = a + i" "\<forall>k < i. \<not> P (a + k)"
    by (auto simp: find_Some_iff)
  moreover from this j have "j - a < i" "a + (j - a) = j" by auto
  ultimately show ?thesis by metis
qed

lemma contiguous_last: "map f xs = [1..<Suc (length xs)] \<Longrightarrow> xs \<noteq> [] \<Longrightarrow> f (last xs) = length xs"
proof -
  assume eq: "map f xs = [1..<Suc (length xs)]" and ne: "xs \<noteq> []"
  have "f (last xs) = last (map f xs)" using ne by (simp add: last_map)
  also have "\<dots> = length xs" unfolding eq using ne by (cases xs) simp_all
  finally show ?thesis .
qed

section \<open>Results and guarded transitions\<close>

text \<open>Rust's \<^verbatim>\<open>Result<T, E>\<close> is the sum \<open>'e + 't\<close>.\<close>

abbreviation Ok :: "'t \<Rightarrow> 'e + 't" where
  "Ok \<equiv> Inr"

abbreviation Err :: "'e \<Rightarrow> 'e + 't" where
  "Err \<equiv> Inl"

text \<open>The \<^verbatim>\<open>?\<close> operator: an accepted result went through every earlier stage.\<close>

lemma case_error_Ok_iff:
  "(case r of Some e \<Rightarrow> Err (h e) | None \<Rightarrow> q) = Ok x \<longleftrightarrow> r = None \<and> q = Ok x"
  by (auto split: option.splits)

lemma case_result_Ok_iff:
  "(case r of Err e \<Rightarrow> Err e | Ok y \<Rightarrow> g y) = Ok x \<longleftrightarrow> (\<exists>y. r = Ok y \<and> g y = Ok x)"
  by (auto split: sum.splits)

text \<open>
  A lifecycle of the domain crate is a family of consuming transitions
  \<^verbatim>\<open>fn op(self, ..) -> Result<Self, E>\<close>. \<open>run_ops\<close> is a caller that submits a sequence of
  operations and keeps its old value when one is rejected; \<open>steps_to\<close> collects the accepted
  transitions only.
\<close>

primrec run_ops :: "('op \<Rightarrow> 's \<Rightarrow> 'err + 's) \<Rightarrow> 'op list \<Rightarrow> 's \<Rightarrow> 's" where
  "run_ops step [] s = s"
| "run_ops step (x # xs) s =
     (case step x s of Ok t \<Rightarrow> run_ops step xs t | Err _ \<Rightarrow> run_ops step xs s)"

inductive steps_to :: "('op \<Rightarrow> 's \<Rightarrow> 'err + 's) \<Rightarrow> 's \<Rightarrow> 's \<Rightarrow> bool" for step where
  steps_refl: "steps_to step s s"
| steps_next: "steps_to step s t \<Longrightarrow> step x t = Ok u \<Longrightarrow> steps_to step s u"

lemma steps_to_trans: "steps_to step t u \<Longrightarrow> steps_to step s t \<Longrightarrow> steps_to step s u"
  by (induction rule: steps_to.induct) (auto intro: steps_to.intros)

lemma run_ops_steps_to: "steps_to step s (run_ops step xs s)"
proof (induction xs arbitrary: s)
  case Nil
  show ?case by (simp add: steps_refl)
next
  case (Cons x xs)
  show ?case
  proof (cases "step x s")
    case (Inl e)
    with Cons show ?thesis by simp
  next
    case (Inr t)
    then have "steps_to step s t" by (blast intro: steps_to.intros)
    with Cons Inr show ?thesis by (auto intro: steps_to_trans)
  qed
qed

text \<open>The contract of a lifecycle: accepted transitions keep the invariant.\<close>

locale guarded_machine =
  fixes step :: "'op \<Rightarrow> 's \<Rightarrow> 'err + 's"
    and inv :: "'s \<Rightarrow> bool"
  assumes step_inv: "inv s \<Longrightarrow> step x s = Ok t \<Longrightarrow> inv t"
begin

lemma steps_to_inv: "steps_to step s t \<Longrightarrow> inv s \<Longrightarrow> inv t"
  by (induction rule: steps_to.induct) (simp, rule step_inv)

lemma run_ops_inv: "inv s \<Longrightarrow> inv (run_ops step xs s)"
  by (rule steps_to_inv [OF run_ops_steps_to])

end

text \<open>
  A transition error that hands the rejected value back: a caller that continues with the
  value carried by the error behaves exactly as one that kept its own copy.
\<close>

definition continue_with :: "('err \<Rightarrow> 's) \<Rightarrow> ('op \<Rightarrow> 's \<Rightarrow> 'err + 's) \<Rightarrow> 'op \<Rightarrow> 's \<Rightarrow> 's" where
  "continue_with carried step x s = (case step x s of Ok t \<Rightarrow> t | Err e \<Rightarrow> carried e)"

locale retaining_machine = guarded_machine +
  fixes carried :: "'err \<Rightarrow> 's"
  assumes err_carries: "step x s = Err e \<Longrightarrow> carried e = s"
begin

lemma continue_with_run_ops: "fold (continue_with carried step) xs s = run_ops step xs s"
  by (induction xs arbitrary: s)
    (auto simp: continue_with_def dest: err_carries split: sum.splits)

end

text \<open>States that reject every operation are never left.\<close>

locale closing_machine = guarded_machine +
  fixes closed :: "'s \<Rightarrow> bool"
  assumes closed_rejects: "closed s \<Longrightarrow> \<exists>e. step x s = Err e"
begin

lemma closed_stays: "closed s \<Longrightarrow> run_ops step xs s = s"
proof (induction xs)
  case Nil
  then show ?case by simp
next
  case (Cons x xs)
  then obtain e where "step x s = Err e" using closed_rejects by blast
  with Cons show ?case by simp
qed

lemma closed_steps_to: "steps_to step s t \<Longrightarrow> closed s \<Longrightarrow> t = s"
proof (induction rule: steps_to.induct)
  case (steps_refl s)
  show ?case by simp
next
  case (steps_next s t x u)
  with closed_rejects [of s x] show ?case by auto
qed

end

end
