(* ===== verification/Std_Collections.thy ===== *)
theory Std_Collections
  imports Prelude
begin

text \<open>
  The ordered collections of Rust's standard library that the domain crate uses, as
  executable definitions: \<^verbatim>\<open>BTreeMap\<close> is an association list in strictly increasing key order
  and \<^verbatim>\<open>BTreeSet\<close> a strictly increasing list, so that iteration, which visits the keys in
  order, is list traversal. The interface each client relies on is a locale, interpreted
  on these definitions.
\<close>

section \<open>Ordered maps\<close>

primrec bt_insert :: "'k::linorder \<Rightarrow> 'v \<Rightarrow> ('k \<times> 'v) list \<Rightarrow> ('k \<times> 'v) list" where
  "bt_insert k v [] = [(k, v)]"
| "bt_insert k v (p # ps) =
     (if k < fst p then (k, v) # p # ps
      else if k = fst p then (k, v) # ps
      else p # bt_insert k v ps)"

definition bt_remove :: "'k::linorder \<Rightarrow> ('k \<times> 'v) list \<Rightarrow> ('k \<times> 'v) list" where
  "bt_remove k m = filter (\<lambda>p. fst p \<noteq> k) m"

abbreviation bt_get :: "('k \<times> 'v) list \<Rightarrow> 'k \<Rightarrow> 'v option" where
  "bt_get \<equiv> map_of"

definition bt_contains :: "('k \<times> 'v) list \<Rightarrow> 'k \<Rightarrow> bool" where
  "bt_contains m k \<longleftrightarrow> k \<in> set (map fst m)"

definition bt_ok :: "('k::linorder \<times> 'v) list \<Rightarrow> bool" where
  "bt_ok m \<longleftrightarrow> sorted_wrt (<) (map fst m)"

lemma set_keys_bt_insert: "fst ` set (bt_insert k v m) = insert k (fst ` set m)"
  by (induction m) auto

lemma set_bt_insert_subset: "set (bt_insert k v m) \<subseteq> insert (k, v) (set m)"
  by (induction m) auto

lemma bt_get_insert: "bt_get (bt_insert k v m) = (bt_get m)(k \<mapsto> v)"
  by (induction m) (auto simp: fun_eq_iff)

lemma bt_ok_insert: "bt_ok m \<Longrightarrow> bt_ok (bt_insert k v m)"
  unfolding bt_ok_def
proof (induction m)
  case Nil
  then show ?case by simp
next
  case (Cons p ps)
  have keys: "set (map fst (bt_insert k v ps)) = insert k (set (map fst ps))"
    by (simp add: set_keys_bt_insert)
  show ?case
  proof (cases "k < fst p \<or> k = fst p")
    case True
    with Cons.prems show ?thesis by auto
  next
    case False
    with Cons keys show ?thesis by auto
  qed
qed

lemma bt_ok_distinct: "bt_ok m \<Longrightarrow> distinct (map fst m)"
  unfolding bt_ok_def by (simp add: strict_sorted_iff)

lemma bt_ok_remove: "bt_ok m \<Longrightarrow> bt_ok (bt_remove k m)"
  unfolding bt_ok_def bt_remove_def
  by (induction m) auto

lemma bt_get_remove: "bt_get (bt_remove k m) = (bt_get m)(k := None)"
  unfolding bt_remove_def by (induction m) (auto simp: fun_eq_iff)

lemma bt_contains_iff: "bt_contains m k \<longleftrightarrow> k \<in> dom (bt_get m)"
  by (simp add: bt_contains_def dom_map_of_conv_image_fst)

lemma map_of_entries:
  "distinct (map fst xs) \<Longrightarrow> map (\<lambda>k. (k, the (map_of xs k))) (map fst xs) = xs"
proof (induction xs)
  case Nil
  show ?case by simp
next
  case (Cons x xs)
  obtain k v where x: "x = (k, v)" by (cases x)
  have "map (\<lambda>k'. (k', the (map_of ((k, v) # xs) k'))) (map fst xs)
      = map (\<lambda>k'. (k', the (map_of xs k'))) (map fst xs)"
    using Cons.prems x by (intro list.map_cong0) auto
  with Cons x show ?case by simp
qed

text \<open>What a client may rely on.\<close>

locale ordered_map =
  fixes empty :: "'m"
    and insert_map :: "'k::linorder \<Rightarrow> 'v \<Rightarrow> 'm \<Rightarrow> 'm"
    and remove_map :: "'k \<Rightarrow> 'm \<Rightarrow> 'm"
    and get :: "'m \<Rightarrow> 'k \<Rightarrow> 'v option"
    and entries :: "'m \<Rightarrow> ('k \<times> 'v) list"
    and ok :: "'m \<Rightarrow> bool"
  assumes ok_empty: "ok empty"
    and ok_insert: "ok m \<Longrightarrow> ok (insert_map k v m)"
    and ok_remove: "ok m \<Longrightarrow> ok (remove_map k m)"
    and get_empty: "get empty = Map.empty"
    and get_insert: "get (insert_map k v m) = (get m)(k \<mapsto> v)"
    and get_remove: "get (remove_map k m) = (get m)(k := None)"
    and get_entries: "get m = map_of (entries m)"
    and entries_sorted: "ok m \<Longrightarrow> sorted_wrt (<) (map fst (entries m))"
begin

lemma entries_distinct: "ok m \<Longrightarrow> distinct (map fst (entries m))"
  using entries_sorted by (simp add: strict_sorted_iff)

lemma get_iff_entry: "ok m \<Longrightarrow> get m k = Some v \<longleftrightarrow> (k, v) \<in> set (entries m)"
  by (simp add: get_entries entries_distinct)

lemma entries_determined:
  assumes "ok m" and "ok m'" and "get m = get m'"
  shows "entries m = entries m'"
proof -
  have maps: "map_of (entries m) = map_of (entries m')"
    using assms(3) by (simp only: get_entries)
  then have "set (map fst (entries m)) = set (map fst (entries m'))"
    by (metis dom_map_of_conv_image_fst list.set_map)
  then have "map fst (entries m) = map fst (entries m')"
    by (rule strict_sorted_equal [OF entries_sorted [OF assms(2)] entries_sorted [OF assms(1)]])
  with maps show ?thesis
    by (metis map_of_entries entries_distinct assms(1,2))
qed

end

interpretation btree: ordered_map "[]" bt_insert bt_remove bt_get "\<lambda>m. m" bt_ok
  by unfold_locales
    (auto simp: bt_ok_insert bt_ok_remove bt_get_insert bt_get_remove, auto simp: bt_ok_def)

text \<open>Collecting an iterator of pairs into a map: later pairs win.\<close>

definition bt_collect :: "('k::linorder \<times> 'v) list \<Rightarrow> ('k \<times> 'v) list" where
  "bt_collect xs = fold (\<lambda>(k, v). bt_insert k v) xs []"

lemma bt_insert_append:
  "\<forall>k' \<in> fst ` set m. k' < k \<Longrightarrow> bt_insert k v m = m @ [(k, v)]"
  by (induction m) auto

lemma bt_get_fold_insert:
  "bt_get (fold (\<lambda>(k, v). bt_insert k v) xs m) = bt_get m ++ map_of (rev xs)"
  by (induction xs arbitrary: m)
    (auto simp: bt_get_insert map_add_def fun_eq_iff split: option.splits)

lemma bt_ok_fold_insert: "bt_ok m \<Longrightarrow> bt_ok (fold (\<lambda>(k, v). bt_insert k v) xs m)"
  by (induction xs arbitrary: m) (auto simp: bt_ok_insert)

lemma map_of_rev: "distinct (map fst xs) \<Longrightarrow> map_of (rev xs) = map_of xs"
  by (metis distinct_map map_of_inject_set  distinct_rev rev_map set_rev)

lemma bt_get_collect: "distinct (map fst xs) \<Longrightarrow> bt_get (bt_collect xs) = map_of xs"
  by (simp add: bt_collect_def bt_get_fold_insert map_of_rev)

lemma bt_ok_collect: "bt_ok (bt_collect xs)"
  unfolding bt_collect_def by (rule bt_ok_fold_insert) (simp add: bt_ok_def)

lemma bt_entry_iff: "bt_ok m \<Longrightarrow> bt_get m k = Some v \<longleftrightarrow> (k, v) \<in> set m"
  by (simp add: bt_ok_distinct)

lemma set_bt_collect: "distinct (map fst xs) \<Longrightarrow> set (bt_collect xs) = set xs"
  using bt_get_collect [of xs] bt_entry_iff [OF bt_ok_collect [of xs]] by auto

lemma bt_ok_Nil [simp]: "bt_ok []"
  by (simp add: bt_ok_def)

lemma sorted_wrt_bt_iff:
  assumes "bt_ok m"
  shows "sorted_wrt Q m \<longleftrightarrow> (\<forall>x \<in> set m. \<forall>y \<in> set m. fst x < fst y \<longrightarrow> Q x y)"
  using assms unfolding bt_ok_def
proof (induction m)
  case (Cons p m)
  then have "\<forall>x \<in> set m. fst p < fst x" "sorted_wrt (<) (map fst m)" by auto
  then show ?case using Cons.IH by (auto dest: order.asym)
qed simp

lemma bt_precedes:
  "bt_ok m \<Longrightarrow> (k, a) \<in> set m \<Longrightarrow> (k', b) \<in> set m \<Longrightarrow> k < k' \<Longrightarrow> precedes (map snd m) a b"
proof (induction m)
  case (Cons p m)
  then have "\<forall>x \<in> set m. fst p < fst x" "bt_ok m" by (auto simp: bt_ok_def)
  with Cons show ?case by (auto simp: precedes_Cons image_iff dest: order.asym) force+
qed simp

section \<open>Ordered sets\<close>

primrec bs_insert :: "'k::linorder \<Rightarrow> 'k list \<Rightarrow> 'k list" where
  "bs_insert k [] = [k]"
| "bs_insert k (x # xs) =
     (if k < x then k # x # xs else if k = x then x # xs else x # bs_insert k xs)"

definition bs_of_list :: "'k::linorder list \<Rightarrow> 'k list" where
  "bs_of_list xs = fold bs_insert xs []"

abbreviation bs_ok :: "'k::linorder list \<Rightarrow> bool" where
  "bs_ok \<equiv> sorted_wrt (<)"

lemma set_bs_insert [simp]: "set (bs_insert k xs) = insert k (set xs)"
  by (induction xs) auto

lemma bs_ok_insert: "bs_ok xs \<Longrightarrow> bs_ok (bs_insert k xs)"
  by (induction xs) auto

definition bs_remove :: "'k::linorder \<Rightarrow> 'k list \<Rightarrow> 'k list" where
  "bs_remove k xs = filter (\<lambda>x. x \<noteq> k) xs"

lemma set_bs_remove [simp]: "set (bs_remove k xs) = set xs - {k}"
  by (auto simp: bs_remove_def)

lemma bs_ok_remove: "bs_ok xs \<Longrightarrow> bs_ok (bs_remove k xs)"
  by (simp add: bs_remove_def sorted_wrt_filter)

lemma length_bs_insert: "bs_ok xs \<Longrightarrow> length (bs_insert k xs) = (if k \<in> set xs then length xs else Suc (length xs))"
  by (induction xs) auto

lemma set_fold_bs_insert: "set (fold bs_insert xs s) = set xs \<union> set s"
  by (induction xs arbitrary: s) auto

lemma bs_ok_fold: "bs_ok s \<Longrightarrow> bs_ok (fold bs_insert xs s)"
  by (induction xs arbitrary: s) (auto simp: bs_ok_insert)

lemma set_bs_of_list [simp]: "set (bs_of_list xs) = set xs"
  by (simp add: bs_of_list_def set_fold_bs_insert)

lemma bs_ok_of_list: "bs_ok (bs_of_list xs)"
  by (simp add: bs_of_list_def bs_ok_fold)

lemma bs_determined: "bs_ok xs \<Longrightarrow> bs_ok ys \<Longrightarrow> set xs = set ys \<Longrightarrow> xs = ys"
  by (metis strict_sorted_equal)

lemma length_bs: "bs_ok xs \<Longrightarrow> length xs = card (set xs)"
  by (metis distinct_card strict_sorted_iff)

section \<open>Collecting what is already in order\<close>

lemma bt_collect_sorted: "bt_ok m \<Longrightarrow> bt_collect m = m"
proof -
  assume ok: "bt_ok m"
  have "bt_get (bt_collect m) = bt_get m" by (simp add: bt_get_collect bt_ok_distinct ok)
  then show ?thesis by (rule btree.entries_determined [OF bt_ok_collect ok])
qed

lemma bs_of_list_sorted: "bs_ok xs \<Longrightarrow> bs_of_list xs = xs"
  by (rule bs_determined) (simp_all add: bs_ok_of_list)

lemma keyed_sorted: "bt_ok m \<Longrightarrow> \<forall>(k, v) \<in> set m. f v = k \<Longrightarrow> map (\<lambda>x. (f x, x)) (map snd m) = m"
  by (auto intro!: map_idI)

end
