(* ===== verification/Accepted_Input.thy ===== *)
theory Accepted_Input
  imports Prelude
begin

text \<open>
  The accepted-input disposition lifecycle,
  \<^verbatim>\<open>src/crates/domain/src/accepted_input.rs\<close>. An accepted input is pending steering until
  exactly one of three transitions accounts for it; every other disposition is final. The
  two layers of the source, the crate-private transitions on a bare disposition and the
  public ones that carry the input's identity, are both modelled.
\<close>

section \<open>Dispositions\<close>

record steering_binding =
  source_turn :: turn_id

datatype steering_reclassification_reason = NoSafePointBeforeTerminal

datatype accepted_input_disposition =
    OriginOf turn_id
  | PendingSteering steering_binding
  | ConsumedAsSteering model_call_id
  | ReclassifiedAsTurnOrigin turn_id steering_reclassification_reason
  | ClosedNotDelivered

datatype disposition_transition_error =
    DispositionCannotConsume accepted_input_disposition
  | DispositionCannotReclassify accepted_input_disposition
  | DispositionCannotClose accepted_input_disposition

fun into_current :: "disposition_transition_error \<Rightarrow> accepted_input_disposition" where
  "into_current (DispositionCannotConsume d) = d"
| "into_current (DispositionCannotReclassify d) = d"
| "into_current (DispositionCannotClose d) = d"

fun disposition_consume_as_steering ::
  "accepted_input_disposition \<Rightarrow> model_call_id
     \<Rightarrow> disposition_transition_error + accepted_input_disposition" where
  "disposition_consume_as_steering (PendingSteering b) call = Ok (ConsumedAsSteering call)"
| "disposition_consume_as_steering current call = Err (DispositionCannotConsume current)"

fun disposition_reclassify_as_turn_origin ::
  "accepted_input_disposition \<Rightarrow> turn_id \<Rightarrow> steering_reclassification_reason
     \<Rightarrow> disposition_transition_error + accepted_input_disposition" where
  "disposition_reclassify_as_turn_origin (PendingSteering b) turn reason =
     Ok (ReclassifiedAsTurnOrigin turn reason)"
| "disposition_reclassify_as_turn_origin current turn reason =
     Err (DispositionCannotReclassify current)"

fun disposition_close_not_delivered ::
  "accepted_input_disposition \<Rightarrow> disposition_transition_error + accepted_input_disposition" where
  "disposition_close_not_delivered (PendingSteering b) = Ok ClosedNotDelivered"
| "disposition_close_not_delivered current = Err (DispositionCannotClose current)"

section \<open>The identity-preserving lifecycle\<close>

record accepted_input_lifecycle =
  ail_id :: accepted_input_id
  ail_disposition :: accepted_input_disposition

datatype accepted_input_lifecycle_transition_error =
    CannotConsumeAsSteering accepted_input_lifecycle
  | CannotReclassifyAsTurnOrigin accepted_input_lifecycle
  | CannotCloseNotDelivered accepted_input_lifecycle

fun into_lifecycle :: "accepted_input_lifecycle_transition_error \<Rightarrow> accepted_input_lifecycle" where
  "into_lifecycle (CannotConsumeAsSteering l) = l"
| "into_lifecycle (CannotReclassifyAsTurnOrigin l) = l"
| "into_lifecycle (CannotCloseNotDelivered l) = l"

definition consume_as_steering ::
  "accepted_input_lifecycle \<Rightarrow> model_call_id
     \<Rightarrow> accepted_input_lifecycle_transition_error + accepted_input_lifecycle" where
  "consume_as_steering l call =
     (case disposition_consume_as_steering (ail_disposition l) call of
        Ok d \<Rightarrow> Ok \<lparr>ail_id = ail_id l, ail_disposition = d\<rparr>
      | Err e \<Rightarrow>
          Err (CannotConsumeAsSteering \<lparr>ail_id = ail_id l, ail_disposition = into_current e\<rparr>))"

definition reclassify_as_turn_origin ::
  "accepted_input_lifecycle \<Rightarrow> turn_id \<Rightarrow> steering_reclassification_reason
     \<Rightarrow> accepted_input_lifecycle_transition_error + accepted_input_lifecycle" where
  "reclassify_as_turn_origin l turn reason =
     (case disposition_reclassify_as_turn_origin (ail_disposition l) turn reason of
        Ok d \<Rightarrow> Ok \<lparr>ail_id = ail_id l, ail_disposition = d\<rparr>
      | Err e \<Rightarrow>
          Err (CannotReclassifyAsTurnOrigin
                 \<lparr>ail_id = ail_id l, ail_disposition = into_current e\<rparr>))"

definition close_not_delivered ::
  "accepted_input_lifecycle
     \<Rightarrow> accepted_input_lifecycle_transition_error + accepted_input_lifecycle" where
  "close_not_delivered l =
     (case disposition_close_not_delivered (ail_disposition l) of
        Ok d \<Rightarrow> Ok \<lparr>ail_id = ail_id l, ail_disposition = d\<rparr>
      | Err e \<Rightarrow>
          Err (CannotCloseNotDelivered \<lparr>ail_id = ail_id l, ail_disposition = into_current e\<rparr>))"

text \<open>The three public transitions as one operation alphabet.\<close>

datatype accepted_input_op =
    Consume model_call_id
  | Reclassify turn_id steering_reclassification_reason
  | CloseUndelivered

fun accepted_input_step ::
  "accepted_input_op \<Rightarrow> accepted_input_lifecycle
     \<Rightarrow> accepted_input_lifecycle_transition_error + accepted_input_lifecycle" where
  "accepted_input_step (Consume call) l = consume_as_steering l call"
| "accepted_input_step (Reclassify turn reason) l = reclassify_as_turn_origin l turn reason"
| "accepted_input_step CloseUndelivered l = close_not_delivered l"

section \<open>Every input is accounted for once\<close>

text \<open>The disposition an operation leaves on pending steering.\<close>

fun resolved_disposition :: "accepted_input_op \<Rightarrow> accepted_input_disposition" where
  "resolved_disposition (Consume call) = ConsumedAsSteering call"
| "resolved_disposition (Reclassify turn reason) = ReclassifiedAsTurnOrigin turn reason"
| "resolved_disposition CloseUndelivered = ClosedNotDelivered"

fun is_pending :: "accepted_input_disposition \<Rightarrow> bool" where
  "is_pending (PendingSteering b) = True"
| "is_pending _ = False"

lemmas accepted_input_defs =
  consume_as_steering_def reclassify_as_turn_origin_def close_not_delivered_def

lemma accepted_input_step_pending:
  "is_pending (ail_disposition l) \<Longrightarrow>
     accepted_input_step x l =
       Ok \<lparr>ail_id = ail_id l, ail_disposition = resolved_disposition x\<rparr>"
  by (cases x; cases "ail_disposition l") (simp_all add: accepted_input_defs)

lemma accepted_input_step_settled:
  "\<not> is_pending (ail_disposition l) \<Longrightarrow>
     \<exists>e. accepted_input_step x l = Err e \<and> into_lifecycle e = l"
  by (cases x; cases "ail_disposition l") (simp_all add: accepted_input_defs)

lemma resolved_not_pending [simp]: "\<not> is_pending (resolved_disposition x)"
  by (cases x) simp_all

interpretation accepted_input:
  retaining_machine accepted_input_step "\<lambda>l. ail_id l = i" into_lifecycle for i
proof
  show "ail_id t = i" if "ail_id s = i" "accepted_input_step x s = Ok t" for s t x
    using that accepted_input_step_pending [of s x] accepted_input_step_settled [of s x]
    by (cases "is_pending (ail_disposition s)") auto
  show "into_lifecycle e = s" if "accepted_input_step x s = Err e" for s e x
    using that accepted_input_step_pending [of s x] accepted_input_step_settled [of s x]
    by (cases "is_pending (ail_disposition s)") auto
qed

interpretation accepted_input:
  closing_machine accepted_input_step "\<lambda>l. ail_id l = i" "\<lambda>l. \<not> is_pending (ail_disposition l)"
  for i
  by unfold_locales (use accepted_input_step_settled in blast)

text \<open>
  C11. However many transitions are attempted on an accepted input, each next one on the
  lifecycle the previous one returned (the new value, or the unchanged value carried by its
  error), the outcome is decided by the first: pending steering takes the disposition of the
  first operation and keeps it, any other disposition is never changed, and the input's
  identity is preserved throughout.
\<close>

theorem accepted_input_accounted_once:
  "fold (continue_with into_lifecycle accepted_input_step) xs l =
     (if is_pending (ail_disposition l) \<and> xs \<noteq> []
      then \<lparr>ail_id = ail_id l, ail_disposition = resolved_disposition (hd xs)\<rparr> else l)"
proof (cases xs)
  case Nil
  then show ?thesis by simp
next
  case (Cons x ys)
  show ?thesis
  proof (cases "is_pending (ail_disposition l)")
    case True
    with Cons show ?thesis
      by (simp only: accepted_input.continue_with_run_ops run_ops.simps)
        (simp add: accepted_input_step_pending accepted_input.closed_stays)
  next
    case False
    then show ?thesis
      by (simp add: accepted_input.continue_with_run_ops accepted_input.closed_stays)
  qed
qed

end
