(* ===== verification/Queue_Order.thy ===== *)
theory Queue_Order
  imports Std_Collections "HOL-Library.Multiset"
begin

text \<open>
  Durable accepted-input queue order, \<^verbatim>\<open>src/crates/domain/src/queue_order.rs\<close>: the facts each
  origin turn records when it is accepted, and the derivation of the session's total order
  from the complete set of facts. The derivation is translated loop by loop; it is proved to
  accept exactly the consistent fact sets and to return the one order they determine.
\<close>

section \<open>Facts\<close>

datatype session_input_position = SessionInputPosition (position_as_u64: u64)

instantiation session_input_position :: linorder
begin

definition less_eq_session_input_position ::
  "session_input_position \<Rightarrow> session_input_position \<Rightarrow> bool" where
  "less_eq_session_input_position a b \<longleftrightarrow> position_as_u64 a \<le> position_as_u64 b"

definition less_session_input_position ::
  "session_input_position \<Rightarrow> session_input_position \<Rightarrow> bool" where
  "less_session_input_position a b \<longleftrightarrow> position_as_u64 a < position_as_u64 b"

instance
  by standard
    (auto simp: less_eq_session_input_position_def less_session_input_position_def
      session_input_position.expand)

end

lemma position_le [simp]: "SessionInputPosition a \<le> SessionInputPosition b \<longleftrightarrow> a \<le> b"
  by (simp add: less_eq_session_input_position_def)

lemma position_less [simp]: "SessionInputPosition a < SessionInputPosition b \<longleftrightarrow> a < b"
  by (simp add: less_session_input_position_def)

definition position_try_from_u64 :: "u64 \<Rightarrow> session_input_position option" where
  "position_try_from_u64 value = (if value = 0 then None else Some (SessionInputPosition value))"

definition position_first :: session_input_position where
  "position_first = SessionInputPosition 1"

definition position_checked_next :: "session_input_position \<Rightarrow> session_input_position option" where
  "position_checked_next p = map_option SessionInputPosition (checked_succ (position_as_u64 p))"

datatype accepted_input_queue_priority =
    Ordinary
  | InterruptImmediatelyAfter turn_id

record accepted_input_queue_order =
  acceptance_position :: session_input_position
  priority :: accepted_input_queue_priority

definition ordinary_order :: "session_input_position \<Rightarrow> accepted_input_queue_order" where
  "ordinary_order p = \<lparr>acceptance_position = p, priority = Ordinary\<rparr>"

definition interrupt_immediately_after ::
  "session_input_position \<Rightarrow> turn_id \<Rightarrow> accepted_input_queue_order" where
  "interrupt_immediately_after p predecessor =
     \<lparr>acceptance_position = p, priority = InterruptImmediatelyAfter predecessor\<rparr>"

record accepted_input_queue_work =
  work_session :: session_id
  work_turn :: turn_id
  work_order :: accepted_input_queue_order

datatype accepted_input_queue_order_error =
    MixedSessions session_id session_id
  | DuplicateTurn turn_id
  | DuplicateAcceptancePosition session_input_position turn_id turn_id
  | MissingInterruptPredecessor turn_id turn_id
  | SelfInterruptPredecessor turn_id
  | MultipleInterruptSuccessors turn_id turn_id turn_id
  | InterruptCycle turn_id
  | InterruptPositionNotAfterPredecessor turn_id turn_id
      session_input_position session_input_position
  | InterruptPredecessorChronologyReversed turn_id turn_id turn_id turn_id

type_synonym work_map = "(turn_id \<times> accepted_input_queue_order) list"

section \<open>Derivation\<close>

definition canonical_pair :: "turn_id \<Rightarrow> turn_id \<Rightarrow> turn_id \<times> turn_id" where
  "canonical_pair first second = (if first \<le> second then (first, second) else (second, first))"

text \<open>
  \<^verbatim>\<open>windows(2).find(..)\<close> on the facts sorted by turn. The sort of the source is unstable; facts
  with equal turns are rejected here and only their common turn is reported.
\<close>

fun find_duplicate_turn :: "turn_id list \<Rightarrow> turn_id option" where
  "find_duplicate_turn (a # b # ts) = (if a = b then Some a else find_duplicate_turn (b # ts))"
| "find_duplicate_turn _ = None"

text \<open>The first loop: index the facts by turn and by acceptance position.\<close>

fun index_work ::
  "accepted_input_queue_work list \<Rightarrow> work_map \<Rightarrow> (session_input_position \<times> turn_id) list
     \<Rightarrow> accepted_input_queue_order_error + work_map \<times> (session_input_position \<times> turn_id) list"
where
  "index_work [] work_by_turn turn_by_position = Ok (work_by_turn, turn_by_position)"
| "index_work (work # ws) work_by_turn turn_by_position =
     (let turn = work_turn work; order = work_order work in
      case bt_get turn_by_position (acceptance_position order) of
        Some existing \<Rightarrow>
          (let (first, second) = canonical_pair existing turn
           in Err (DuplicateAcceptancePosition (acceptance_position order) first second))
      | None \<Rightarrow>
          index_work ws (bt_insert turn order work_by_turn)
            (bt_insert (acceptance_position order) turn turn_by_position))"

text \<open>The second loop: the unique interrupt successor of each interrupted turn.\<close>

fun link_successors ::
  "work_map \<Rightarrow> work_map \<Rightarrow> (turn_id \<times> turn_id) list
     \<Rightarrow> accepted_input_queue_order_error + (turn_id \<times> turn_id) list"
where
  "link_successors work_by_turn [] successors = Ok successors"
| "link_successors work_by_turn ((turn, order) # rest) successors =
     (case priority order of
        Ordinary \<Rightarrow> link_successors work_by_turn rest successors
      | InterruptImmediatelyAfter predecessor \<Rightarrow>
          if predecessor = turn then Err (SelfInterruptPredecessor turn)
          else if \<not> bt_contains work_by_turn predecessor
          then Err (MissingInterruptPredecessor turn predecessor)
          else (case bt_get successors predecessor of
                  Some existing \<Rightarrow>
                    (let (first, second) = canonical_pair existing turn
                     in Err (MultipleInterruptSuccessors predecessor first second))
                | None \<Rightarrow>
                    link_successors work_by_turn rest (bt_insert predecessor turn successors)))"

text \<open>The ordinary roots in acceptance order.\<close>

definition ordinary_roots :: "work_map \<Rightarrow> turn_id list" where
  "ordinary_roots work_by_turn =
     map snd (sort_key fst
       (map (\<lambda>(turn, order). (acceptance_position order, turn))
         (filter (\<lambda>(turn, order). priority order = Ordinary) work_by_turn)))"

text \<open>
  The inner loop: follow one root's interrupt chain. The loop may revisit a turn only to
  report a cycle, so the visited set grows on every iteration; there are finitely many turn
  identities.
\<close>

function follow_chain ::
  "(turn_id \<times> turn_id) list \<Rightarrow> turn_id \<Rightarrow> turn_id list \<Rightarrow> turn_id list
     \<Rightarrow> accepted_input_queue_order_error + turn_id list \<times> turn_id list"
where
  "follow_chain successors current visited ordered =
     (if current \<in> set visited then Err (InterruptCycle current)
      else case bt_get successors current of
             Some successor \<Rightarrow>
               follow_chain successors successor (bs_insert current visited) (ordered @ [current])
           | None \<Rightarrow> Ok (bs_insert current visited, ordered @ [current]))"
  by pat_completeness auto
termination
proof (relation "measure (\<lambda>(s, c, visited, out). card (UNIV - set visited))", simp)
  fix successors :: "(turn_id \<times> turn_id) list" and current :: turn_id
    and visited ordered :: "turn_id list" and successor :: turn_id
  assume "current \<notin> set visited"
  then have "UNIV - set (bs_insert current visited) \<subset> UNIV - set visited"
    by auto
  then show "((successors, successor, bs_insert current visited, ordered @ [current]),
      successors, current, visited, ordered)
      \<in> measure (\<lambda>(s, c, visited, out). card (UNIV - set visited))"
    by (simp add: psubset_card_mono)
qed

declare follow_chain.simps [simp del]

fun walk_roots ::
  "(turn_id \<times> turn_id) list \<Rightarrow> turn_id list \<Rightarrow> turn_id list \<Rightarrow> turn_id list
     \<Rightarrow> accepted_input_queue_order_error + turn_id list \<times> turn_id list"
where
  "walk_roots successors [] visited ordered = Ok (visited, ordered)"
| "walk_roots successors (root # roots) visited ordered =
     (case follow_chain successors root visited ordered of
        Err e \<Rightarrow> Err e
      | Ok (visited', ordered') \<Rightarrow> walk_roots successors roots visited' ordered')"

text \<open>The loop that checks each interrupt's position against its predecessor's.\<close>

fun check_positions ::
  "work_map \<Rightarrow> work_map \<Rightarrow> accepted_input_queue_order_error option"
where
  "check_positions work_by_turn [] = None"
| "check_positions work_by_turn ((turn, order) # rest) =
     (case priority order of
        Ordinary \<Rightarrow> check_positions work_by_turn rest
      | InterruptImmediatelyAfter predecessor \<Rightarrow>
          (case bt_get work_by_turn predecessor of
             None \<Rightarrow> Some (MissingInterruptPredecessor turn predecessor)
           | Some predecessor_order \<Rightarrow>
               if acceptance_position order \<le> acceptance_position predecessor_order
               then Some (InterruptPositionNotAfterPredecessor turn predecessor
                            (acceptance_position order) (acceptance_position predecessor_order))
               else check_positions work_by_turn rest))"

text \<open>The last loop: interrupt targets advance through the derived order.\<close>

fun check_chronology ::
  "work_map \<Rightarrow> (turn_id \<times> nat) list \<Rightarrow> turn_id list \<Rightarrow> (turn_id \<times> turn_id \<times> nat) option
     \<Rightarrow> accepted_input_queue_order_error option"
where
  "check_chronology work_by_turn order_index [] prior = None"
| "check_chronology work_by_turn order_index (turn # ts) prior =
     (case bt_get work_by_turn turn of
        None \<Rightarrow> check_chronology work_by_turn order_index ts prior
      | Some order \<Rightarrow>
          (case priority order of
             Ordinary \<Rightarrow> check_chronology work_by_turn order_index ts prior
           | InterruptImmediatelyAfter predecessor \<Rightarrow>
               (case bt_get order_index predecessor of
                  None \<Rightarrow> check_chronology work_by_turn order_index ts prior
                | Some predecessor_index \<Rightarrow>
                    (case prior of
                       Some (earlier_interrupt, earlier_predecessor, earlier_index) \<Rightarrow>
                         if predecessor_index \<le> earlier_index
                         then Some (InterruptPredecessorChronologyReversed earlier_interrupt
                                      earlier_predecessor turn predecessor)
                         else check_chronology work_by_turn order_index ts
                                (Some (turn, predecessor, predecessor_index))
                     | None \<Rightarrow>
                         check_chronology work_by_turn order_index ts
                           (Some (turn, predecessor, predecessor_index))))))"

definition order_index_by_turn :: "turn_id list \<Rightarrow> (turn_id \<times> nat) list" where
  "order_index_by_turn ordered = bt_collect (zip ordered [0..<length ordered])"

definition derive_accepted_input_total_order ::
  "accepted_input_queue_work list \<Rightarrow> accepted_input_queue_order_error + turn_id list" where
  "derive_accepted_input_total_order currently_known_work =
     (case bs_of_list (map work_session currently_known_work) of
        first_session # second_session # _ \<Rightarrow> Err (MixedSessions first_session second_session)
      | _ \<Rightarrow>
     (let sorted_work = sort_key work_turn currently_known_work in
      case find_duplicate_turn (map work_turn sorted_work) of
        Some turn \<Rightarrow> Err (DuplicateTurn turn)
      | None \<Rightarrow>
     (case index_work sorted_work [] [] of
        Err e \<Rightarrow> Err e
      | Ok (work_by_turn, turn_by_position) \<Rightarrow>
     (case link_successors work_by_turn work_by_turn [] of
        Err e \<Rightarrow> Err e
      | Ok successors \<Rightarrow>
     (case walk_roots successors (ordinary_roots work_by_turn) [] [] of
        Err e \<Rightarrow> Err e
      | Ok (visited, ordered) \<Rightarrow>
     (case (if length ordered \<noteq> length work_by_turn
            then find (\<lambda>turn. turn \<notin> set visited) (map fst work_by_turn) else None) of
        Some turn \<Rightarrow> Err (InterruptCycle turn)
      | None \<Rightarrow>
     (case check_positions work_by_turn work_by_turn of
        Some e \<Rightarrow> Err e
      | None \<Rightarrow>
     (case check_chronology work_by_turn (order_index_by_turn ordered)
             (map snd turn_by_position) None of
        Some e \<Rightarrow> Err e
      | None \<Rightarrow> Ok ordered))))))))"

section \<open>Specification\<close>

text \<open>
  Which fact sets are consistent, which order they determine, and the check that interrupt
  predecessors advance in acceptance order; none of these mentions the maps and loops of the
  derivation.
\<close>

abbreviation work_position :: "accepted_input_queue_work \<Rightarrow> session_input_position" where
  "work_position w \<equiv> acceptance_position (work_order w)"

abbreviation work_priority :: "accepted_input_queue_work \<Rightarrow> accepted_input_queue_priority" where
  "work_priority w \<equiv> priority (work_order w)"

definition queue_facts_ok :: "accepted_input_queue_work list \<Rightarrow> bool" where
  "queue_facts_ok ws \<longleftrightarrow>
     (\<forall>w \<in> set ws. \<forall>v \<in> set ws. work_session w = work_session v) \<and>
     distinct (map work_turn ws) \<and>
     distinct (map work_position ws) \<and>
     (\<forall>w \<in> set ws. \<forall>p. work_priority w = InterruptImmediatelyAfter p \<longrightarrow>
        (\<exists>v \<in> set ws. work_turn v = p \<and> work_position v < work_position w)) \<and>
     (\<forall>w \<in> set ws. \<forall>v \<in> set ws. \<forall>p. work_priority w = InterruptImmediatelyAfter p \<longrightarrow>
        work_priority v = InterruptImmediatelyAfter p \<longrightarrow> w = v)"

definition queue_order_spec :: "accepted_input_queue_work list \<Rightarrow> turn_id list \<Rightarrow> bool" where
  "queue_order_spec ws ordered \<longleftrightarrow>
     distinct ordered \<and> set ordered = work_turn ` set ws \<and>
     (\<forall>w \<in> set ws. \<forall>p. work_priority w = InterruptImmediatelyAfter p \<longrightarrow>
        adjacent ordered p (work_turn w)) \<and>
     (\<forall>w \<in> set ws. \<forall>v \<in> set ws. work_priority w = Ordinary \<longrightarrow> work_priority v = Ordinary \<longrightarrow>
        work_position w < work_position v \<longrightarrow> precedes ordered (work_turn w) (work_turn v))"

definition queue_chronology :: "accepted_input_queue_work list \<Rightarrow> turn_id list \<Rightarrow> bool" where
  "queue_chronology ws ordered \<longleftrightarrow>
     (\<forall>w \<in> set ws. \<forall>v \<in> set ws. \<forall>p q. work_priority w = InterruptImmediatelyAfter p \<longrightarrow>
        work_priority v = InterruptImmediatelyAfter q \<longrightarrow>
        work_position w < work_position v \<longrightarrow> precedes ordered p q)"

text \<open>Consistent facts determine at most one order.\<close>

lemma queue_order_first_ordinary:
  assumes spec: "queue_order_spec ws xs" and w: "w \<in> set ws" "work_turn w = xs ! i" "i < length xs"
    and no_pred: "\<And>v p. v \<in> set ws \<Longrightarrow> work_priority v = InterruptImmediatelyAfter p \<Longrightarrow> 0 < i \<Longrightarrow>
      p = xs ! (i - 1) \<Longrightarrow> False"
  shows "work_priority w = Ordinary"
proof (cases "work_priority w")
  case (InterruptImmediatelyAfter p)
  with spec w(1) have "adjacent xs p (work_turn w)" by (simp add: queue_order_spec_def)
  then obtain j where j: "Suc j < length xs" "xs ! j = p" "xs ! Suc j = work_turn w"
    by (auto simp: adjacent_def)
  with spec w have "Suc j = i" by (metis nth_eq_iff_index_eq queue_order_spec_def)
  with j no_pred [OF w(1) InterruptImmediatelyAfter] show ?thesis by fastforce
qed simp

lemma queue_order_same_next:
  assumes facts: "queue_facts_ok ws"
    and sx: "queue_order_spec ws xs" and sy: "queue_order_spec ws ys"
    and n: "n < length xs" "n < length ys"
    and eq: "\<forall>m < n. xs ! m = ys ! m"
  shows "xs ! n = ys ! n"
proof (cases "\<exists>v p. v \<in> set ws \<and> work_priority v = InterruptImmediatelyAfter p \<and> 0 < n \<and> p = xs ! (n - 1)")
  case True
  then obtain v where v: "v \<in> set ws" "work_priority v = InterruptImmediatelyAfter (xs ! (n - 1))"
    and n0: "0 < n" by blast
  have "adjacent xs (xs ! (n - 1)) (work_turn v)" "adjacent ys (xs ! (n - 1)) (work_turn v)"
    using sx sy v by (auto simp: queue_order_spec_def)
  moreover have "distinct xs" "distinct ys" using sx sy by (auto simp: queue_order_spec_def)
  ultimately show ?thesis
    using n n0 eq unfolding adjacent_def
    by (metis One_nat_def Suc_lessD Suc_pred diff_less nth_eq_iff_index_eq zero_less_one)
next
  case False
  have dist: "distinct xs" "distinct ys" and sets: "set xs = work_turn ` set ws" "set ys = work_turn ` set ws"
    using sx sy by (auto simp: queue_order_spec_def)
  obtain w where w: "w \<in> set ws" "work_turn w = xs ! n"
    using n(1) sets by (metis (no_types, lifting) image_iff nth_mem)
  obtain v where v: "v \<in> set ws" "work_turn v = ys ! n"
    using n(2) sets by (metis (no_types, lifting) image_iff nth_mem)
  have "n - 1 < n" if "0 < n" using that by simp
  then have wo: "work_priority w = Ordinary" and vo: "work_priority v = Ordinary"
    using queue_order_first_ordinary [OF sx w n(1)] queue_order_first_ordinary [OF sy v n(2)]
      False eq by metis+
  show ?thesis
  proof (rule ccontr)
    assume neq: "xs ! n \<noteq> ys ! n"
    obtain i where i: "i < length xs" "xs ! i = ys ! n" using n(2) sets by (metis in_set_conv_nth nth_mem)
    obtain j where j: "j < length ys" "ys ! j = xs ! n" using n(1) sets by (metis in_set_conv_nth nth_mem)
    have "\<not> i < n" using i n eq nth_eq_iff_index_eq [OF dist(2), of i n] by auto
    moreover have "i \<noteq> n" using i neq by auto
    ultimately have "n < i" by simp
    then have a: "precedes xs (work_turn w) (work_turn v)"
      using precedes_nth [OF dist(1) n(1) i(1)] w v i by simp
    have "\<not> j < n" using j n eq nth_eq_iff_index_eq [OF dist(1), of j n] by auto
    moreover have "j \<noteq> n" using j neq by auto
    ultimately have "n < j" by simp
    then have b: "precedes ys (work_turn v) (work_turn w)"
      using precedes_nth [OF dist(2) n(2) j(1)] w v j by simp
    have "inj_on work_position (set ws)" using facts by (simp add: queue_facts_ok_def distinct_map)
    then have "work_position w \<noteq> work_position v"
      using w v neq by (metis inj_onD)
    then consider "work_position w < work_position v" | "work_position v < work_position w" by fastforce
    then show False
    proof cases
      case 1
      with sy w v wo vo have "precedes ys (work_turn w) (work_turn v)"
        unfolding queue_order_spec_def by blast
      with precedes_asym [OF dist(2) b] show False by simp
    next
      case 2
      with sx w v wo vo have "precedes xs (work_turn v) (work_turn w)"
        unfolding queue_order_spec_def by blast
      with precedes_asym [OF dist(1) a] show False by simp
    qed
  qed
qed

lemma queue_order_unique:
  assumes "queue_facts_ok ws" and "queue_order_spec ws xs" and "queue_order_spec ws ys"
  shows "xs = ys"
proof (rule nth_equalityI)
  show len: "length xs = length ys"
    using assms(2,3) by (metis distinct_card queue_order_spec_def)
  show "xs ! n = ys ! n" if "n < length xs" for n
    using that
  proof (induction n rule: less_induct)
    case (less n)
    then show ?case
      using queue_order_same_next [OF assms, of n] len by (metis order.strict_trans)
  qed
qed

section \<open>The loops, one by one\<close>

lemma find_duplicate_turn_None: "sorted ts \<Longrightarrow> find_duplicate_turn ts = None \<longleftrightarrow> distinct ts"
  by (induction ts rule: find_duplicate_turn.induct) (auto simp: less_le)

lemma index_work_Ok:
  "index_work ws m t = Ok r \<longleftrightarrow>
     distinct (map work_position ws) \<and> work_position ` set ws \<inter> dom (bt_get t) = {} \<and>
     r = (fold (\<lambda>(k, v). bt_insert k v) (map (\<lambda>w. (work_turn w, work_order w)) ws) m,
          fold (\<lambda>(k, v). bt_insert k v) (map (\<lambda>w. (work_position w, work_turn w)) ws) t)"
  by (induction ws arbitrary: m t)
    (auto simp: Let_def bt_get_insert split: option.splits prod.splits)

fun interrupt_links :: "work_map \<Rightarrow> (turn_id \<times> turn_id) list" where
  "interrupt_links [] = []"
| "interrupt_links ((turn, order) # rest) =
     (case priority order of
        Ordinary \<Rightarrow> interrupt_links rest
      | InterruptImmediatelyAfter predecessor \<Rightarrow> (predecessor, turn) # interrupt_links rest)"

lemma set_interrupt_links:
  "(p, t) \<in> set (interrupt_links m) \<longleftrightarrow>
     (\<exists>order. (t, order) \<in> set m \<and> priority order = InterruptImmediatelyAfter p)"
  by (induction m rule: interrupt_links.induct)
    (auto split: accepted_input_queue_priority.splits)

lemma link_successors_Ok:
  "link_successors m rest s = Ok r \<longleftrightarrow>
     (\<forall>(p, t) \<in> set (interrupt_links rest). p \<noteq> t \<and> p \<in> dom (bt_get m)) \<and>
     distinct (map fst (interrupt_links rest)) \<and>
     fst ` set (interrupt_links rest) \<inter> dom (bt_get s) = {} \<and>
     r = fold (\<lambda>(k, v). bt_insert k v) (interrupt_links rest) s"
proof (induction rest arbitrary: s)
  case (Cons entry rest)
  obtain turn order where entry: "entry = (turn, order)" by (cases entry)
  show ?case
  proof (cases "priority order")
    case (InterruptImmediatelyAfter p)
    show ?thesis
    proof (cases "p = turn \<or> p \<notin> dom (bt_get m)")
      case False
      show ?thesis
      proof (cases "bt_get s p")
        case None
        have "dom (bt_get (bt_insert p turn s)) = insert p (dom (bt_get s))"
          by (simp add: bt_get_insert)
        with None False InterruptImmediatelyAfter entry Cons.IH [of "bt_insert p turn s"] show ?thesis
          by (simp add: bt_contains_iff) blast
      qed (use False InterruptImmediatelyAfter entry in
        \<open>auto simp: bt_contains_iff split: prod.splits\<close>)
    qed (use InterruptImmediatelyAfter entry in \<open>auto simp: bt_contains_iff\<close>)
  qed (use entry Cons.IH in simp)
qed auto

lemma check_positions_None:
  "check_positions m rest = None \<longleftrightarrow>
     (\<forall>(t, order) \<in> set rest. \<forall>p. priority order = InterruptImmediatelyAfter p \<longrightarrow>
        (\<exists>predecessor. bt_get m p = Some predecessor \<and>
           acceptance_position predecessor < acceptance_position order))"
  by (induction m rest rule: check_positions.induct)
    (auto split: option.splits accepted_input_queue_priority.splits)

definition chronology_target :: "work_map \<Rightarrow> (turn_id \<times> nat) list \<Rightarrow> turn_id \<Rightarrow> nat option" where
  "chronology_target m idx t =
     Option.bind (bt_get m t) (\<lambda>order. case priority order of
       Ordinary \<Rightarrow> None | InterruptImmediatelyAfter p \<Rightarrow> bt_get idx p)"

lemma check_chronology_None:
  "check_chronology m idx ts prior = None \<longleftrightarrow>
     sorted_wrt (<) ((case prior of None \<Rightarrow> [] | Some (_, _, i) \<Rightarrow> [i])
       @ List.map_filter (chronology_target m idx) ts)"
proof (induction m idx ts prior rule: check_chronology.induct)
  case (2 m idx t ts prior)
  have split: "sorted_wrt (<) (a # b # xs) \<longleftrightarrow> a < b \<and> sorted_wrt (<) (b # xs)" for a b :: nat and xs
    by (rule sorted_wrt2) simp
  show ?case
  proof (cases "chronology_target m idx t")
    case None
    then show ?thesis using 2
      by (auto simp: chronology_target_def List.map_filter_simps
        split: option.splits accepted_input_queue_priority.splits)
  next
    case (Some i)
    then obtain order p where "bt_get m t = Some order" "priority order = InterruptImmediatelyAfter p"
      "bt_get idx p = Some i"
      by (auto simp: chronology_target_def split: bind_splits accepted_input_queue_priority.split_asm)
    with Some 2 show ?thesis
      by (cases prior) (auto simp: List.map_filter_simps split simp del: sorted_wrt.simps split: if_splits)
  qed
qed (auto simp: List.map_filter_simps split: option.splits)

section \<open>Interrupt chains\<close>

definition chain_ok :: "(turn_id \<times> turn_id) list \<Rightarrow> turn_id list \<Rightarrow> bool" where
  "chain_ok s ch \<longleftrightarrow> ch \<noteq> [] \<and> successively (\<lambda>a b. bt_get s a = Some b) ch \<and> bt_get s (last ch) = None"

lemma chain_ok_successor:
  "chain_ok s ch \<Longrightarrow> a \<in> set ch \<Longrightarrow> bt_get s a = Some b \<Longrightarrow> adjacent ch a b"
proof (induction ch)
  case (Cons c ch)
  show ?case
  proof (cases "ch = []")
    case False
    then have "chain_ok s ch" "bt_get s c = Some (hd ch)"
      using Cons.prems(1) by (auto simp: chain_ok_def successively_Cons)
    moreover have "adjacent (c # ch) c (hd ch)"
      using False by (auto simp: adjacent_def hd_conv_nth intro: exI [of _ 0])
    moreover have "adjacent ch a b \<Longrightarrow> adjacent (c # ch) a b"
      using adjacent_append2 [of ch a b "[c]"] by simp
    ultimately show ?thesis using Cons by auto
  qed (use Cons.prems in \<open>auto simp: chain_ok_def\<close>)
qed simp

lemma chain_ok_predecessor:
  "chain_ok s ch \<Longrightarrow> b \<in> set ch \<Longrightarrow> b \<noteq> hd ch \<Longrightarrow> \<exists>a \<in> set ch. bt_get s a = Some b"
proof (induction ch)
  case (Cons c ch)
  then have "ch \<noteq> []" "b \<in> set ch" by auto
  then have "chain_ok s ch" "bt_get s c = Some (hd ch)"
    using Cons.prems(1) by (auto simp: chain_ok_def successively_Cons)
  then show ?case using Cons.IH \<open>b \<in> set ch\<close> by auto
qed simp

lemma follow_chain_Ok:
  "follow_chain s c v out = Ok r \<Longrightarrow>
     \<exists>ch. r = (fold bs_insert ch v, out @ ch) \<and> chain_ok s ch \<and> hd ch = c \<and> distinct ch \<and>
       set ch \<inter> set v = {}"
proof (induction s c v out rule: follow_chain.induct)
  case (1 s c v out)
  show ?case
  proof (cases "bt_get s c")
    case None
    with 1(2) have "r = (fold bs_insert [c] v, out @ [c])" "c \<notin> set v"
      by (auto simp: follow_chain.simps [of s c] split: if_splits)
    with None show ?thesis by (intro exI [of _ "[c]"]) (auto simp: chain_ok_def)
  next
    case (Some d)
    with 1(2) have "c \<notin> set v" "follow_chain s d (bs_insert c v) (out @ [c]) = Ok r"
      by (auto simp: follow_chain.simps [of s c] split: if_splits)
    with 1(1) [OF _ Some] obtain ch where ch:
      "r = (fold bs_insert ch (bs_insert c v), (out @ [c]) @ ch)" "chain_ok s ch" "hd ch = d"
      "distinct ch" "set ch \<inter> set (bs_insert c v) = {}" by blast
    with Some \<open>c \<notin> set v\<close> show ?thesis
      by (intro exI [of _ "c # ch"]) (auto simp: chain_ok_def successively_Cons)
  qed
qed

definition predecessor_closed :: "(turn_id \<times> turn_id) list \<Rightarrow> turn_id set \<Rightarrow> bool" where
  "predecessor_closed s V \<longleftrightarrow> (\<forall>t \<in> V. \<forall>a. bt_get s a = Some t \<longrightarrow> a \<in> V)"

lemma follow_chain_returns:
  assumes inj: "\<And>a b t. bt_get s a = Some t \<Longrightarrow> bt_get s b = Some t \<Longrightarrow> a = b"
  shows "predecessor_closed s (set v) \<Longrightarrow> c \<notin> set v \<Longrightarrow> \<forall>a. bt_get s a = Some c \<longrightarrow> a \<in> set v \<Longrightarrow>
    \<exists>r. follow_chain s c v out = Ok r"
  using inj
proof (induction s c v out rule: follow_chain.induct)
  case (1 s c v out)
  show ?case
  proof (cases "bt_get s c")
    case None
    with 1(3) show ?thesis by (simp add: follow_chain.simps [of s c])
  next
    case (Some d)
    have "predecessor_closed s (set (bs_insert c v))"
      using 1(2,4) by (auto simp: predecessor_closed_def)
    moreover have "d \<notin> set (bs_insert c v)"
      using 1(2-4) Some by (auto simp: predecessor_closed_def)
    moreover have "\<forall>a. bt_get s a = Some d \<longrightarrow> a \<in> set (bs_insert c v)"
      using 1(5) Some by auto
    ultimately have "\<exists>r. follow_chain s d (bs_insert c v) (out @ [c]) = Ok r"
      using 1(1) [OF 1(3) Some] 1(5) by blast
    with 1(3) Some show ?thesis by (simp add: follow_chain.simps [of s c])
  qed
qed

lemma walk_roots_Ok:
  "walk_roots s roots v out = Ok r \<Longrightarrow>
     \<exists>chs. r = (fold bs_insert (concat chs) v, out @ concat chs) \<and> list_all (chain_ok s) chs \<and>
       map hd chs = roots \<and> distinct (concat chs) \<and> set (concat chs) \<inter> set v = {}"
proof (induction s roots v out rule: walk_roots.induct)
  case (2 s root roots v out)
  then obtain v' out' where step: "follow_chain s root v out = Ok (v', out')"
    and rest: "walk_roots s roots v' out' = Ok r" by (auto split: sum.splits)
  obtain ch where ch: "v' = fold bs_insert ch v" "out' = out @ ch" "chain_ok s ch" "hd ch = root"
    "distinct ch" "set ch \<inter> set v = {}" using follow_chain_Ok [OF step] by auto
  obtain chs where "r = (fold bs_insert (concat chs) v', out' @ concat chs)" "list_all (chain_ok s) chs"
    "map hd chs = roots" "distinct (concat chs)" "set (concat chs) \<inter> set v' = {}"
    using 2(1) [OF step _ rest] by auto
  with ch show ?case
    by (intro exI [of _ "ch # chs"]) (auto simp: set_fold_bs_insert)
qed auto

lemma walk_roots_returns:
  assumes inj: "\<And>a b t. bt_get s a = Some t \<Longrightarrow> bt_get s b = Some t \<Longrightarrow> a = b"
  shows "predecessor_closed s (set v) \<Longrightarrow> distinct roots \<Longrightarrow> set roots \<inter> set v = {} \<Longrightarrow>
    \<forall>root \<in> set roots. root \<notin> ran (bt_get s) \<Longrightarrow> \<exists>r. walk_roots s roots v out = Ok r"
proof (induction roots arbitrary: v out)
  case (Cons root roots)
  have "\<exists>r. follow_chain s root v out = Ok r"
    by (rule follow_chain_returns [OF inj]) (use Cons.prems in \<open>auto simp: ran_def\<close>)
  then obtain r where step: "follow_chain s root v out = Ok r" by blast
  then obtain ch where ch: "r = (fold bs_insert ch v, out @ ch)" "chain_ok s ch" "hd ch = root"
    using follow_chain_Ok by blast
  have "predecessor_closed s (set (fold bs_insert ch v))"
    using Cons.prems chain_ok_predecessor [OF ch(2)] inj ch(3)
    unfolding predecessor_closed_def set_fold_bs_insert by (metis Un_iff list.set_intros(1) ranI)
  moreover have "set roots \<inter> set (fold bs_insert ch v) = {}"
    using Cons.prems chain_ok_predecessor [OF ch(2)] ch(3)
    by (auto simp: set_fold_bs_insert ran_def) metis
  ultimately have "\<exists>r. walk_roots s roots (fold bs_insert ch v) (out @ ch) = Ok r"
    using Cons.IH Cons.prems by simp
  with step ch(1) show ?case by simp
qed simp

section \<open>The stages on consistent facts\<close>

definition work_index :: "accepted_input_queue_work list \<Rightarrow> work_map" where
  "work_index ws = bt_collect (map (\<lambda>w. (work_turn w, work_order w)) (sort_key work_turn ws))"

definition position_index ::
  "accepted_input_queue_work list \<Rightarrow> (session_input_position \<times> turn_id) list" where
  "position_index ws = bt_collect (map (\<lambda>w. (work_position w, work_turn w)) (sort_key work_turn ws))"

lemma derive_Ok_stages:
  "derive_accepted_input_total_order ws = Ok ordered \<longleftrightarrow>
     length (bs_of_list (map work_session ws)) \<le> 1 \<and> distinct (map work_turn ws) \<and>
     distinct (map work_position ws) \<and>
     (\<exists>s v. link_successors (work_index ws) (work_index ws) [] = Ok s \<and>
        walk_roots s (ordinary_roots (work_index ws)) [] [] = Ok (v, ordered) \<and>
        (length ordered = length (work_index ws) \<or> fst ` set (work_index ws) \<subseteq> set v) \<and>
        check_positions (work_index ws) (work_index ws) = None \<and>
        check_chronology (work_index ws) (order_index_by_turn ordered)
          (map snd (position_index ws)) None = None)"
proof -
  have turns: "find_duplicate_turn (map work_turn (sort_key work_turn ws)) = None \<longleftrightarrow>
      distinct (map work_turn ws)"
    by (simp add: find_duplicate_turn_None distinct_map)
  have index: "index_work (sort_key work_turn ws) [] [] = Ok r \<longleftrightarrow>
      distinct (map work_position ws) \<and> r = (work_index ws, position_index ws)" for r
    by (auto simp: index_work_Ok work_index_def position_index_def bt_collect_def distinct_map)
  have sess: "(case bs of a # b # x \<Rightarrow> Err (f a b) | _ \<Rightarrow> q) = Ok ordered \<longleftrightarrow>
      length bs \<le> 1 \<and> q = Ok ordered" for bs and f :: "session_id \<Rightarrow> session_id \<Rightarrow> accepted_input_queue_order_error" and q
    by (auto split: list.splits)
  show ?thesis
    unfolding derive_accepted_input_total_order_def Let_def sess case_error_Ok_iff case_result_Ok_iff
      turns index
    by (auto simp: find_None_iff image_subset_iff case_error_Ok_iff case_result_Ok_iff split: if_splits)
qed

lemma work_index_ok: "bt_ok (work_index ws)"
  by (simp add: work_index_def bt_ok_collect)

lemma set_work_index:
  "distinct (map work_turn ws) \<Longrightarrow>
     set (work_index ws) = (\<lambda>w. (work_turn w, work_order w)) ` set ws"
  by (simp add: work_index_def set_bt_collect distinct_map comp_def)

lemma set_position_index:
  "distinct (map work_position ws) \<Longrightarrow>
     set (position_index ws) = (\<lambda>w. (work_position w, work_turn w)) ` set ws"
  by (simp add: position_index_def set_bt_collect distinct_map comp_def)

lemma work_index_get:
  "distinct (map work_turn ws) \<Longrightarrow>
     bt_get (work_index ws) t = Some order \<longleftrightarrow> (\<exists>w \<in> set ws. work_turn w = t \<and> work_order w = order)"
  by (auto simp: bt_entry_iff work_index_ok set_work_index)

lemma length_work_index:
  "distinct (map work_turn ws) \<Longrightarrow> length (work_index ws) = length ws"
proof -
  assume d: "distinct (map work_turn ws)"
  have "length (work_index ws) = card (fst ` set (work_index ws))"
    using bt_ok_distinct [OF work_index_ok] by (metis distinct_card length_map set_map)
  also have "fst ` set (work_index ws) = set (map work_turn ws)"
    using d by (simp add: set_work_index image_image)
  finally show ?thesis using d by (metis distinct_card length_map)
qed

lemma interrupt_links_work_index:
  "distinct (map work_turn ws) \<Longrightarrow>
     (p, t) \<in> set (interrupt_links (work_index ws)) \<longleftrightarrow>
       (\<exists>w \<in> set ws. work_turn w = t \<and> work_priority w = InterruptImmediatelyAfter p)"
  by (auto simp: set_interrupt_links set_work_index)

lemma distinct_snd_interrupt_links: "distinct (map fst m) \<Longrightarrow> distinct (map snd (interrupt_links m))"
proof (induction m rule: interrupt_links.induct)
  case (2 turn order rest)
  have "turn \<notin> snd ` set (interrupt_links rest)"
    using "2.prems" by (force simp: set_interrupt_links)
  with 2 show ?case by (auto split: accepted_input_queue_priority.splits)
qed simp

lemma work_turn_inj:
  "distinct (map work_turn ws) \<Longrightarrow> w \<in> set ws \<Longrightarrow> v \<in> set ws \<Longrightarrow> work_turn w = work_turn v \<Longrightarrow> w = v"
  by (metis distinct_map inj_onD)

lemma distinct_fst_interrupt_links:
  assumes d: "distinct (map work_turn ws)"
  shows "distinct (map fst (interrupt_links (work_index ws))) \<longleftrightarrow>
    (\<forall>w \<in> set ws. \<forall>v \<in> set ws. \<forall>p. work_priority w = InterruptImmediatelyAfter p \<longrightarrow>
       work_priority v = InterruptImmediatelyAfter p \<longrightarrow> w = v)"
proof -
  have "distinct (interrupt_links (work_index ws))"
    using distinct_snd_interrupt_links [OF bt_ok_distinct [OF work_index_ok]] by (simp add: distinct_map)
  then have "distinct (map fst (interrupt_links (work_index ws))) \<longleftrightarrow>
      (\<forall>p t t'. (p, t) \<in> set (interrupt_links (work_index ws)) \<longrightarrow>
         (p, t') \<in> set (interrupt_links (work_index ws)) \<longrightarrow> t = t')"
    by (auto simp: distinct_map inj_on_def) fastforce
  also have "\<dots> \<longleftrightarrow> (\<forall>w \<in> set ws. \<forall>v \<in> set ws. \<forall>p. work_priority w = InterruptImmediatelyAfter p \<longrightarrow>
       work_priority v = InterruptImmediatelyAfter p \<longrightarrow> work_turn w = work_turn v)"
    by (auto simp: interrupt_links_work_index [OF d])
  finally show ?thesis using work_turn_inj [OF d] by blast
qed

lemma check_positions_work_index:
  "distinct (map work_turn ws) \<Longrightarrow>
     check_positions (work_index ws) (work_index ws) = None \<longleftrightarrow>
     (\<forall>w \<in> set ws. \<forall>p. work_priority w = InterruptImmediatelyAfter p \<longrightarrow>
        (\<exists>v \<in> set ws. work_turn v = p \<and> work_position v < work_position w))"
  by (auto simp: check_positions_None set_work_index work_index_get) blast

lemma single_session_iff:
  "length (bs_of_list (map work_session ws)) \<le> 1 \<longleftrightarrow>
     (\<forall>w \<in> set ws. \<forall>v \<in> set ws. work_session w = work_session v)"
proof -
  have "length (bs_of_list (map work_session ws)) = card (work_session ` set ws)"
    using length_bs [OF bs_ok_of_list, of "map work_session ws"] by simp
  then show ?thesis
    by (auto simp: card_le_Suc0_iff_eq)
qed

lemma ordinary_roots_work_index:
  assumes d: "distinct (map work_turn ws)" "distinct (map work_position ws)"
  obtains rs where "ordinary_roots (work_index ws) = map snd rs" and "bt_ok rs"
    and "set rs = (\<lambda>w. (work_position w, work_turn w)) ` {w \<in> set ws. work_priority w = Ordinary}"
proof -
  define m where "m = filter (\<lambda>(t, order). priority order = Ordinary) (work_index ws)"
  define l where "l = map (\<lambda>(t, order). (acceptance_position order, t)) m"
  have set_l: "set l = (\<lambda>w. (work_position w, work_turn w)) ` {w \<in> set ws. work_priority w = Ordinary}"
    using d by (auto simp: l_def m_def set_work_index image_iff split: prod.splits)
  have "distinct (map snd l)"
    using distinct_map_filter [OF bt_ok_distinct [OF work_index_ok [of ws]]]
    by (simp add: l_def m_def comp_def case_prod_beta)
  moreover have "inj_on fst (set l)"
    using d unfolding set_l by (auto simp: inj_on_def distinct_map)
  ultimately have "distinct (map fst (sort_key fst l))"
    by (simp add: distinct_map)
  then have "bt_ok (sort_key fst l)"
    by (simp add: bt_ok_def strict_sorted_iff)
  moreover have "ordinary_roots (work_index ws) = map snd (sort_key fst l)"
    by (simp add: ordinary_roots_def l_def m_def)
  ultimately show ?thesis using that [of "sort_key fst l"] set_l by simp
qed

text \<open>The successor map of consistent facts.\<close>

lemma link_successors_facts:
  assumes "queue_facts_ok ws"
  obtains s where "link_successors (work_index ws) (work_index ws) [] = Ok s"
    and "\<And>p t. bt_get s p = Some t \<longleftrightarrow>
       (\<exists>w \<in> set ws. work_turn w = t \<and> work_priority w = InterruptImmediatelyAfter p)"
proof -
  have d: "distinct (map work_turn ws)" using assms by (simp add: queue_facts_ok_def)
  have links: "distinct (map fst (interrupt_links (work_index ws)))"
    using assms distinct_fst_interrupt_links [OF d] by (simp add: queue_facts_ok_def)
  have known: "p \<noteq> t \<and> p \<in> dom (bt_get (work_index ws))"
    if "(p, t) \<in> set (interrupt_links (work_index ws))" for p t
  proof -
    from that obtain w where w: "w \<in> set ws" "work_turn w = t" "work_priority w = InterruptImmediatelyAfter p"
      by (auto simp: interrupt_links_work_index [OF d])
    then obtain v where v: "v \<in> set ws" "work_turn v = p" "work_position v < work_position w"
      using assms unfolding queue_facts_ok_def by blast
    then have "v \<noteq> w" by auto
    then have "p \<noteq> t" using d v w by (metis distinct_map inj_onD)
    moreover have "bt_get (work_index ws) p = Some (work_order v)"
      using v work_index_get [OF d] by blast
    ultimately show ?thesis by blast
  qed
  have "link_successors (work_index ws) (work_index ws) [] =
      Ok (bt_collect (interrupt_links (work_index ws)))"
    using known links by (auto simp: link_successors_Ok bt_collect_def)
  moreover have "bt_get (bt_collect (interrupt_links (work_index ws))) p = Some t \<longleftrightarrow>
      (\<exists>w \<in> set ws. work_turn w = t \<and> work_priority w = InterruptImmediatelyAfter p)" for p t
    using links interrupt_links_work_index [OF d]
    by (simp add: bt_entry_iff bt_ok_collect set_bt_collect)
  ultimately show ?thesis using that by blast
qed

lemma chains_cover:
  assumes facts: "queue_facts_ok ws"
    and s: "\<And>p t. bt_get s p = Some t \<longleftrightarrow>
       (\<exists>w \<in> set ws. work_turn w = t \<and> work_priority w = InterruptImmediatelyAfter p)"
    and chains: "list_all (chain_ok s) chs"
    and roots: "\<And>w. w \<in> set ws \<Longrightarrow> work_priority w = Ordinary \<Longrightarrow> work_turn w \<in> hd ` set chs"
  shows "w \<in> set ws \<Longrightarrow> work_turn w \<in> set (concat chs)"
proof (induction "unat (position_as_u64 (work_position w))" arbitrary: w rule: less_induct)
  case less
  have ne: "\<forall>ch \<in> set chs. ch \<noteq> []" using chains by (auto simp: list_all_iff chain_ok_def)
  show ?case
  proof (cases "work_priority w")
    case Ordinary
    then obtain ch where "ch \<in> set chs" "work_turn w = hd ch" using less.prems roots by blast
    then show ?thesis using ne hd_in_set by fastforce
  next
    case (InterruptImmediatelyAfter p)
    with less.prems obtain v where v: "v \<in> set ws" "work_turn v = p" "work_position v < work_position w"
      using facts unfolding queue_facts_ok_def by blast
    then have "p \<in> set (concat chs)"
      using less.hyps [of v] by (simp add: less_session_input_position_def word_less_nat_alt)
    then obtain ch where ch: "ch \<in> set chs" "p \<in> set ch" by auto
    have "bt_get s p = Some (work_turn w)" using s less.prems InterruptImmediatelyAfter by blast
    with ch chains have "adjacent ch p (work_turn w)"
      using chain_ok_successor by (auto simp: list_all_iff)
    with ch show ?thesis using adjacent_set by fastforce
  qed
qed

lemma chains_known:
  assumes s: "\<And>p t. bt_get s p = Some t \<longleftrightarrow>
       (\<exists>w \<in> set ws. work_turn w = t \<and> work_priority w = InterruptImmediatelyAfter p)"
    and chains: "list_all (chain_ok s) chs" and roots: "hd ` set chs \<subseteq> work_turn ` set ws"
  shows "set (concat chs) \<subseteq> work_turn ` set ws"
proof
  fix t assume "t \<in> set (concat chs)"
  then obtain ch where ch: "ch \<in> set chs" "t \<in> set ch" by auto
  show "t \<in> work_turn ` set ws"
  proof (cases "t = hd ch")
    case False
    with ch chains obtain a where "bt_get s a = Some t"
      using chain_ok_predecessor by (metis list_all_iff)
    with s [of a t] show ?thesis by auto
  qed (use ch roots in auto)
qed

lemma walk_roots_facts:
  assumes facts: "queue_facts_ok ws"
    and s: "\<And>p t. bt_get s p = Some t \<longleftrightarrow>
       (\<exists>w \<in> set ws. work_turn w = t \<and> work_priority w = InterruptImmediatelyAfter p)"
  obtains v ordered where "walk_roots s (ordinary_roots (work_index ws)) [] [] = Ok (v, ordered)"
    and "queue_order_spec ws ordered"
proof -
  have d: "distinct (map work_turn ws)" "distinct (map work_position ws)"
    using facts by (auto simp: queue_facts_ok_def)
  obtain rs where rs: "ordinary_roots (work_index ws) = map snd rs" "bt_ok rs"
    "set rs = (\<lambda>w. (work_position w, work_turn w)) ` {w \<in> set ws. work_priority w = Ordinary}"
    using ordinary_roots_work_index [OF d] .
  have "inj_on snd (set rs)"
    unfolding rs(3) by (rule inj_onI) (auto dest: work_turn_inj [OF d(1)])
  then have "distinct (map snd rs)"
    using bt_ok_distinct [OF rs(2)] by (simp add: distinct_map)
  moreover have "\<forall>root \<in> set (map snd rs). root \<notin> ran (bt_get s)"
  proof (auto simp: rs(3) ran_def s)
    fix w v p assume *: "w \<in> set ws" "work_priority w = Ordinary" "v \<in> set ws"
      "work_turn v = work_turn w" "work_priority v = InterruptImmediatelyAfter p"
    then have "v = w" using work_turn_inj [OF d(1)] by blast
    with * show False by simp
  qed
  moreover have "a = b" if "bt_get s a = Some t" "bt_get s b = Some t" for a b t
    using that s work_turn_inj [OF d(1)]
    by (metis accepted_input_queue_priority.inject)
  ultimately obtain r where walk: "walk_roots s (map snd rs) [] [] = Ok r"
    using walk_roots_returns [of s "[]" "map snd rs" "[]"] by (auto simp: predecessor_closed_def)
  then obtain chs where chs: "r = (fold bs_insert (concat chs) [], concat chs)"
    "list_all (chain_ok s) chs" "map hd chs = map snd rs" "distinct (concat chs)"
    using walk_roots_Ok [OF walk] by auto
  have hds: "hd ` set chs = work_turn ` {w \<in> set ws. work_priority w = Ordinary}"
    using chs(3) rs(3) by (metis (no_types, lifting) image_image image_set snd_conv image_cong)
  have all: "set (concat chs) = work_turn ` set ws"
    using chains_cover [OF facts s chs(2)] chains_known [OF s chs(2)] hds by fast
  have "queue_order_spec ws (concat chs)"
    unfolding queue_order_spec_def
  proof (intro conjI ballI allI impI)
    fix w p assume w: "w \<in> set ws" "work_priority w = InterruptImmediatelyAfter p"
    then obtain v where "v \<in> set ws" "work_turn v = p" using facts unfolding queue_facts_ok_def by blast
    then have "p \<in> set (concat chs)" using all by blast
    then obtain ch where ch: "ch \<in> set chs" "p \<in> set ch" by auto
    have "bt_get s p = Some (work_turn w)" using s w by blast
    with ch chs(2) have "adjacent ch p (work_turn w)"
      using chain_ok_successor by (auto simp: list_all_iff)
    with ch(1) show "adjacent (concat chs) p (work_turn w)" by (rule adjacent_concat)
  next
    fix w v assume "w \<in> set ws" "v \<in> set ws" "work_priority w = Ordinary" "work_priority v = Ordinary"
      "work_position w < work_position v"
    then have "precedes (map snd rs) (work_turn w) (work_turn v)"
      using bt_precedes [OF rs(2)] rs(3) by blast
    moreover have "\<forall>ch \<in> set chs. ch \<noteq> []" using chs(2) by (auto simp: list_all_iff chain_ok_def)
    ultimately show "precedes (concat chs) (work_turn w) (work_turn v)"
      using precedes_concat chs(3) by metis
  qed (use chs(4) all in auto)
  with walk chs(1) rs(1) that show ?thesis by simp
qed

lemma position_index_ok: "bt_ok (position_index ws)"
  by (simp add: position_index_def bt_ok_collect)

lemma order_index_get:
  "distinct ordered \<Longrightarrow>
     bt_get (order_index_by_turn ordered) p = Some i \<longleftrightarrow> i < length ordered \<and> ordered ! i = p"
  by (auto simp: order_index_by_turn_def bt_get_collect set_zip)

lemma check_chronology_facts:
  assumes d: "distinct (map work_turn ws)" "distinct (map work_position ws)"
    and spec: "queue_order_spec ws ordered"
  shows "check_chronology (work_index ws) (order_index_by_turn ordered) (map snd (position_index ws)) None = None
    \<longleftrightarrow> queue_chronology ws ordered"
proof -
  let ?f = "chronology_target (work_index ws) (order_index_by_turn ordered)"
  have do: "distinct ordered" using spec by (simp add: queue_order_spec_def)
  have target: "?f (work_turn w) = Some i \<longleftrightarrow>
      (\<exists>p. work_priority w = InterruptImmediatelyAfter p \<and> i < length ordered \<and> ordered ! i = p)"
    if "w \<in> set ws" for w i
  proof -
    have "bt_get (work_index ws) (work_turn w) = Some (work_order w)"
      using that work_index_get [OF d(1)] by blast
    then show ?thesis
      by (auto simp: chronology_target_def order_index_get [OF do] split: accepted_input_queue_priority.splits)
  qed
  have "check_chronology (work_index ws) (order_index_by_turn ordered) (map snd (position_index ws)) None = None
    \<longleftrightarrow> (\<forall>w \<in> set ws. \<forall>v \<in> set ws. work_position w < work_position v \<longrightarrow>
           (\<forall>a b. ?f (work_turn w) = Some a \<longrightarrow> ?f (work_turn v) = Some b \<longrightarrow> a < b))"
    by (simp add: check_chronology_None sorted_wrt_map_filter sorted_wrt_map
        sorted_wrt_bt_iff [OF position_index_ok] set_position_index [OF d(2)])
  also have "\<dots> \<longleftrightarrow> queue_chronology ws ordered"
  proof -
    have "(\<forall>a b. ?f (work_turn w) = Some a \<longrightarrow> ?f (work_turn v) = Some b \<longrightarrow> a < b) \<longleftrightarrow>
        (\<forall>p q. work_priority w = InterruptImmediatelyAfter p \<longrightarrow>
           work_priority v = InterruptImmediatelyAfter q \<longrightarrow> precedes ordered p q)"
      if wv: "w \<in> set ws" "v \<in> set ws" for w v
    proof (cases "work_priority w"; cases "work_priority v")
      fix p q assume pq: "work_priority w = InterruptImmediatelyAfter p"
        "work_priority v = InterruptImmediatelyAfter q"
      then have "adjacent ordered p (work_turn w)" "adjacent ordered q (work_turn v)"
        using spec wv by (simp_all add: queue_order_spec_def)
      then have "p \<in> set ordered" "q \<in> set ordered" by (simp_all add: adjacent_set)
      then obtain i j where "i < length ordered" "ordered ! i = p" "j < length ordered" "ordered ! j = q"
        by (auto simp: in_set_conv_nth)
      moreover from this have "?f (work_turn w) = Some i" "?f (work_turn v) = Some j"
        using target wv pq by auto
      ultimately show ?thesis using precedes_nth [OF do, of i j] pq by auto
    qed (use target [OF wv(1)] target [OF wv(2)] in auto)
    then have "(\<forall>w \<in> set ws. \<forall>v \<in> set ws. work_position w < work_position v \<longrightarrow>
           (\<forall>a b. ?f (work_turn w) = Some a \<longrightarrow> ?f (work_turn v) = Some b \<longrightarrow> a < b)) \<longleftrightarrow>
      (\<forall>w \<in> set ws. \<forall>v \<in> set ws. work_position w < work_position v \<longrightarrow>
        (\<forall>p q. work_priority w = InterruptImmediatelyAfter p \<longrightarrow>
           work_priority v = InterruptImmediatelyAfter q \<longrightarrow> precedes ordered p q))"
      by (simp cong: ball_cong)
    then show ?thesis unfolding queue_chronology_def by auto
  qed
  finally show ?thesis .
qed

lemma derive_Ok_facts: "derive_accepted_input_total_order ws = Ok ordered \<Longrightarrow> queue_facts_ok ws"
proof -
  assume "derive_accepted_input_total_order ws = Ok ordered"
  then have st: "length (bs_of_list (map work_session ws)) \<le> 1" "distinct (map work_turn ws)"
     "distinct (map work_position ws)" "check_positions (work_index ws) (work_index ws) = None"
     "distinct (map fst (interrupt_links (work_index ws)))"
    by (auto simp: derive_Ok_stages link_successors_Ok)
  then show ?thesis
    unfolding queue_facts_ok_def
    using single_session_iff check_positions_work_index distinct_fst_interrupt_links by blast
qed

lemma derive_facts_iff:
  assumes facts: "queue_facts_ok ws"
  shows "derive_accepted_input_total_order ws = Ok ordered \<longleftrightarrow>
    queue_order_spec ws ordered \<and> queue_chronology ws ordered"
proof -
  have d: "distinct (map work_turn ws)" "distinct (map work_position ws)"
    using facts by (auto simp: queue_facts_ok_def)
  obtain s where s: "link_successors (work_index ws) (work_index ws) [] = Ok s"
    "\<And>p t. bt_get s p = Some t \<longleftrightarrow>
       (\<exists>w \<in> set ws. work_turn w = t \<and> work_priority w = InterruptImmediatelyAfter p)"
    using link_successors_facts [OF facts] by blast
  obtain v xs where walk: "walk_roots s (ordinary_roots (work_index ws)) [] [] = Ok (v, xs)"
    and spec: "queue_order_spec ws xs"
    using walk_roots_facts [OF facts s(2)] by blast
  have len: "length xs = length (work_index ws)"
    using spec d(1) length_work_index [OF d(1)]
    by (metis distinct_card length_map list.set_map queue_order_spec_def)
  have sess: "length (bs_of_list (map work_session ws)) \<le> 1"
    unfolding single_session_iff using facts unfolding queue_facts_ok_def by (elim conjE)
  have pos: "check_positions (work_index ws) (work_index ws) = None"
    unfolding check_positions_work_index [OF d(1)] using facts unfolding queue_facts_ok_def by (elim conjE)
  have "derive_accepted_input_total_order ws = Ok ordered \<longleftrightarrow> ordered = xs \<and> queue_chronology ws xs"
    unfolding derive_Ok_stages using d s(1) walk len sess pos check_chronology_facts [OF d spec]
    by auto
  also have "\<dots> \<longleftrightarrow> queue_order_spec ws ordered \<and> queue_chronology ws ordered"
    using queue_order_unique [OF facts spec] spec by blast
  finally show ?thesis .
qed

lemma sorted_mset_unique: "sorted xs \<Longrightarrow> sorted ys \<Longrightarrow> mset xs = mset ys \<Longrightarrow> xs = ys"
  by (metis properties_for_sort)

section \<open>Properties\<close>

text \<open>
  C1. The derivation accepts exactly the fact sets that name one session, have distinct turns
  and acceptance positions, give every interrupt a known predecessor of earlier position and
  every predecessor at most one interrupt, and whose interrupt targets advance in acceptance
  order; and it returns exactly the order that lists every turn once, places each interrupt
  immediately after its predecessor and keeps ordinary inputs in acceptance order.
\<close>

theorem derive_accepted_input_total_order_exact:
  "derive_accepted_input_total_order ws = Ok ordered \<longleftrightarrow>
     queue_facts_ok ws \<and> queue_order_spec ws ordered \<and> queue_chronology ws ordered"
  using derive_facts_iff derive_Ok_facts by blast

text \<open>
  C12. The derivation depends on the facts only as a collection: presenting the same facts in
  another order gives the same result, the reported error included.
\<close>

theorem derive_accepted_input_total_order_permutation:
assumes "mset ws = mset ws'"
  shows "derive_accepted_input_total_order ws = derive_accepted_input_total_order ws'"
proof -
  have set: "set ws = set ws'" using assms by (rule mset_eq_setD)
  have "bs_of_list (map work_session ws) = bs_of_list (map work_session ws')"
    by (rule bs_determined) (simp_all add: bs_ok_of_list set)
  moreover have turns: "map work_turn (sort_key work_turn ws) = map work_turn (sort_key work_turn ws')"
    by (rule sorted_mset_unique) (simp_all add: assms)
  moreover have "sort_key work_turn ws = sort_key work_turn ws'"
    if "find_duplicate_turn (map work_turn (sort_key work_turn ws)) = None"
  proof -
    have "inj_on work_turn (set ws)" using that by (simp add: find_duplicate_turn_None distinct_map)
    then show ?thesis
      by (intro sort_key_inj_key_eq) (simp_all add: assms)
  qed
  ultimately show ?thesis
    unfolding derive_accepted_input_total_order_def Let_def
    by (cases "find_duplicate_turn (map work_turn (sort_key work_turn ws))") (simp_all split: list.splits)
qed

definition sample_work :: "128 word \<Rightarrow> u64 \<Rightarrow> accepted_input_queue_priority \<Rightarrow> accepted_input_queue_work" where
  "sample_work t p prio = \<lparr>work_session = Ident 1, work_turn = Ident t,
     work_order = \<lparr>acceptance_position = SessionInputPosition p, priority = prio\<rparr>\<rparr>"

theorem derive_accepted_input_total_order_permutation_witness:
  "derive_accepted_input_total_order
       [sample_work 9 3 (InterruptImmediatelyAfter (Ident 5)), sample_work 3 2 Ordinary, sample_work 5 1 Ordinary]
     = derive_accepted_input_total_order
       [sample_work 5 1 Ordinary, sample_work 3 2 Ordinary, sample_work 9 3 (InterruptImmediatelyAfter (Ident 5))]"
  by (rule derive_accepted_input_total_order_permutation) simp

text \<open>
  C13. Accepting a later ordinary input extends the derived order at its end and moves no turn
  already in it.
\<close>

theorem derive_accepted_input_total_order_extends:
  assumes "derive_accepted_input_total_order ws = Ok ordered"
    and "work_priority w = Ordinary"
    and "\<forall>v \<in> set ws. work_session v = work_session w \<and> work_turn v \<noteq> work_turn w \<and>
      work_position v < work_position w"
  shows "derive_accepted_input_total_order (w # ws) = Ok (ordered @ [work_turn w])"
proof -
  have facts: "queue_facts_ok ws" and spec: "queue_order_spec ws ordered"
    and chron: "queue_chronology ws ordered"
    using derive_facts_iff derive_Ok_facts [OF assms(1)] assms(1) by blast+
  have fresh: "work_turn w \<notin> work_turn ` set ws" "work_position w \<notin> work_position ` set ws"
    using assms(3) by auto
  have facts': "queue_facts_ok (w # ws)"
    using facts fresh assms(2,3) unfolding queue_facts_ok_def by (simp add: image_iff)
  have "queue_order_spec (w # ws) (ordered @ [work_turn w])"
    using spec fresh assms(2,3) unfolding queue_order_spec_def
    by (auto simp: adjacent_append1 precedes_append1 intro: precedes_append_cross dest: order.asym)
  moreover have "queue_chronology (w # ws) (ordered @ [work_turn w])"
    using chron assms(2) unfolding queue_chronology_def by (auto simp: precedes_append1)
  ultimately show ?thesis using derive_facts_iff [OF facts'] by blast
qed

theorem derive_accepted_input_total_order_extends_witness:
  "derive_accepted_input_total_order
     [sample_work 2 4 Ordinary, sample_work 5 1 Ordinary, sample_work 3 2 Ordinary,
      sample_work 9 3 (InterruptImmediatelyAfter (Ident 5))]
     = Ok ([Ident 5, Ident 9, Ident 3] @ [Ident 2])"
proof -
  have "derive_accepted_input_total_order
     [sample_work 5 1 Ordinary, sample_work 3 2 Ordinary, sample_work 9 3 (InterruptImmediatelyAfter (Ident 5))]
     = Ok [Ident 5, Ident 9, Ident 3]"
    by code_simp
  from derive_accepted_input_total_order_extends [OF this, of "sample_work 2 4 Ordinary"]
  show ?thesis by (simp add: sample_work_def)
qed

end
