(* ===== verification/Program_Journal.thy ===== *)
theory Program_Journal
  imports Std_Collections
begin

text \<open>
  The program execution journal, \<^verbatim>\<open>src/crates/domain/src/program_journal.rs\<close>: the frame
  vocabulary, the validation of a complete frame stream (\<^verbatim>\<open>ProgramJournal::try_new\<close>), the
  terminal outcome it retains, and the replay cursor that drives an executor over recorded
  history. Validation is proved to accept exactly the streams whose every entry is admissible
  after the entries before it; replay is proved faithful to the recorded interleaving.
\<close>

section \<open>Frames\<close>

text \<open>
  The macro \<^verbatim>\<open>positive_position!\<close> generates four copies of one checked wrapper around
  \<^verbatim>\<open>NonZeroU64\<close>; here they are one type with a phantom tag.
\<close>

datatype (dead 'tag) positive_position = PositivePosition (as_u64: u64)

definition try_from_u64 :: "u64 \<Rightarrow> 'tag positive_position option" where
  "try_from_u64 value = (if value = 0 then None else Some (PositivePosition value))"

instantiation positive_position :: (type) linorder
begin

definition less_eq_positive_position :: "'a positive_position \<Rightarrow> 'a positive_position \<Rightarrow> bool" where
  "less_eq_positive_position a b \<longleftrightarrow> as_u64 a \<le> as_u64 b"

definition less_positive_position :: "'a positive_position \<Rightarrow> 'a positive_position \<Rightarrow> bool" where
  "less_positive_position a b \<longleftrightarrow> as_u64 a < as_u64 b"

instance
  by standard
    (auto simp: less_eq_positive_position_def less_positive_position_def positive_position.expand)

end

typedecl journal_tag
typedecl request_tag
typedecl delivery_tag
typedecl scope_tag

type_synonym journal_position = "journal_tag positive_position"
type_synonym request_ordinal = "request_tag positive_position"
type_synonym delivery_ordinal = "delivery_tag positive_position"
type_synonym scope_ordinal = "scope_tag positive_position"

datatype inline_frame_payload = InlineFramePayload (as_bytes: "8 word list")

datatype program_capability =
    Cap_Time | Cap_Random | Cap_Sleep | Cap_Subscribe | Cap_Session | Cap_Judge | Cap_ExecStage
  | Cap_Corpus | Cap_EvalRecord | Cap_Blob | Cap_Register | Cap_RepoWatch

datatype scope_operation = Open | Close

record scope_request =
  scope_operation :: scope_operation
  scope_ordinal :: scope_ordinal
  scope_parent :: "scope_ordinal option"

record effect_request =
  effect_capability :: program_capability
  effect_method :: utf8
  effect_payload :: inline_frame_payload

datatype request_kind =
    Now inline_frame_payload
  | Random inline_frame_payload
  | Sleep inline_frame_payload
  | AwaitEvent inline_frame_payload
  | Effect effect_request
  | Scope scope_request
  | Terminal inline_frame_payload

record request_frame =
  request_ordinal :: request_ordinal
  request_scope :: "scope_ordinal option"
  request_kind :: request_kind

datatype reject_reason = OutstandingRequests | CapabilityDenied | UnsupportedOperation

datatype fault_cause =
    Cause_Timeout | Cause_Memory | Cause_Nondeterminism | Cause_ProgramError
  | Cause_ContractRetired | Cause_JournalBound | Cause_PayloadTooLarge

datatype program_fault =
    Fault_Timeout inline_frame_payload
  | Fault_Memory inline_frame_payload
  | Fault_Nondeterminism request_frame request_frame
  | Fault_ProgramError inline_frame_payload
  | Fault_ContractRetired inline_frame_payload
  | Fault_JournalBound inline_frame_payload
  | Fault_PayloadTooLarge inline_frame_payload

fun fault_cause_of :: "program_fault \<Rightarrow> fault_cause" where
  "fault_cause_of (Fault_Timeout _) = Cause_Timeout"
| "fault_cause_of (Fault_Memory _) = Cause_Memory"
| "fault_cause_of (Fault_Nondeterminism _ _) = Cause_Nondeterminism"
| "fault_cause_of (Fault_ProgramError _) = Cause_ProgramError"
| "fault_cause_of (Fault_ContractRetired _) = Cause_ContractRetired"
| "fault_cause_of (Fault_JournalBound _) = Cause_JournalBound"
| "fault_cause_of (Fault_PayloadTooLarge _) = Cause_PayloadTooLarge"

datatype fault_evidence =
    Evidence_Ordinary inline_frame_payload
  | Evidence_Nondeterminism request_frame request_frame

fun fault_evidence_of :: "program_fault \<Rightarrow> fault_evidence" where
  "fault_evidence_of (Fault_Nondeterminism expected observed) =
     Evidence_Nondeterminism expected observed"
| "fault_evidence_of (Fault_Timeout payload) = Evidence_Ordinary payload"
| "fault_evidence_of (Fault_Memory payload) = Evidence_Ordinary payload"
| "fault_evidence_of (Fault_ProgramError payload) = Evidence_Ordinary payload"
| "fault_evidence_of (Fault_ContractRetired payload) = Evidence_Ordinary payload"
| "fault_evidence_of (Fault_JournalBound payload) = Evidence_Ordinary payload"
| "fault_evidence_of (Fault_PayloadTooLarge payload) = Evidence_Ordinary payload"

datatype delivery_kind =
    Answer request_ordinal inline_frame_payload
  | Wake request_ordinal inline_frame_payload
  | Reject request_ordinal reject_reason
  | Cancel request_ordinal inline_frame_payload
  | RunCancel inline_frame_payload
  | Fault program_fault

fun resolves :: "delivery_kind \<Rightarrow> request_ordinal option" where
  "resolves (Answer r _) = Some r"
| "resolves (Wake r _) = Some r"
| "resolves (Reject r _) = Some r"
| "resolves (Cancel r _) = Some r"
| "resolves (RunCancel _) = None"
| "resolves (Fault _) = None"

record delivery_frame =
  delivery_ordinal :: delivery_ordinal
  delivery_kind :: delivery_kind

datatype journal_frame = Request request_frame | Delivery delivery_frame

record journal_entry =
  entry_position :: journal_position
  entry_frame :: journal_frame

record program_journal =
  journal_run :: program_run_id
  journal_entries :: "journal_entry list"

datatype program_journal_error =
    NoncontiguousPosition
  | NoncontiguousRequestOrdinal
  | NoncontiguousDeliveryOrdinal
  | UnknownResolvedRequest
  | RequestResolvedTwice
  | OrdinalExhausted
  | InvalidTerminalResolution
  | FrameAfterSuccess

section \<open>Terminal outcome\<close>

text \<open>\<open>matches!(request.kind(), RequestKind::Terminal(_))\<close> and the scope test.\<close>

fun is_terminal :: "request_kind \<Rightarrow> bool" where
  "is_terminal (Terminal _) = True"
| "is_terminal _ = False"

fun is_scope :: "request_kind \<Rightarrow> bool" where
  "is_scope (Scope _) = True"
| "is_scope _ = False"

fun answers_terminal :: "request_ordinal list \<Rightarrow> delivery_kind \<Rightarrow> bool" where
  "answers_terminal terminals (Answer r _) = (r \<in> set terminals)"
| "answers_terminal terminals _ = False"

fun terminal_delivery_from ::
  "request_ordinal list \<Rightarrow> journal_entry list \<Rightarrow> delivery_frame option" where
  "terminal_delivery_from terminals [] = None"
| "terminal_delivery_from terminals (entry # rest) =
     (case entry_frame entry of
        Request request \<Rightarrow>
          if is_terminal (request_kind request)
          then terminal_delivery_from (bs_insert (request_ordinal request) terminals) rest
          else terminal_delivery_from terminals rest
      | Delivery delivery \<Rightarrow>
          if resolves (delivery_kind delivery) = None
             \<or> answers_terminal terminals (delivery_kind delivery)
          then Some delivery
          else terminal_delivery_from terminals rest)"

definition terminal_delivery :: "program_journal \<Rightarrow> delivery_frame option" where
  "terminal_delivery journal = terminal_delivery_from [] (journal_entries journal)"

fun terminal_request_from ::
  "request_ordinal \<Rightarrow> journal_entry list \<Rightarrow> inline_frame_payload option" where
  "terminal_request_from ordinal [] = None"
| "terminal_request_from ordinal (entry # rest) =
     (case entry_frame entry of
        Request request \<Rightarrow>
          if request_ordinal request = ordinal
          then (case request_kind request of
                  Terminal payload \<Rightarrow> Some payload
                | _ \<Rightarrow> terminal_request_from ordinal rest)
          else terminal_request_from ordinal rest
      | Delivery _ \<Rightarrow> terminal_request_from ordinal rest)"

definition terminal_request ::
  "program_journal \<Rightarrow> request_ordinal \<Rightarrow> inline_frame_payload option" where
  "terminal_request journal ordinal = terminal_request_from ordinal (journal_entries journal)"

definition journal_result :: "program_journal \<Rightarrow> inline_frame_payload option" where
  "journal_result journal =
     (case terminal_delivery journal of
        None \<Rightarrow> None
      | Some delivery \<Rightarrow>
          (case delivery_kind delivery of
             Answer r _ \<Rightarrow> terminal_request journal r
           | _ \<Rightarrow> None))"

fun track_outstanding :: "journal_entry \<Rightarrow> request_ordinal list \<Rightarrow> request_ordinal list" where
  "track_outstanding entry outstanding =
     (case entry_frame entry of
        Request request \<Rightarrow>
          if \<not> is_scope (request_kind request)
          then bs_insert (request_ordinal request) outstanding else outstanding
      | Delivery delivery \<Rightarrow>
          (case resolves (delivery_kind delivery) of
             Some ordinal \<Rightarrow> bs_remove ordinal outstanding
           | None \<Rightarrow> outstanding))"

definition has_outstanding_requests :: "program_journal \<Rightarrow> bool" where
  "has_outstanding_requests journal \<longleftrightarrow> fold track_outstanding (journal_entries journal) [] \<noteq> []"

section \<open>Validation\<close>

text \<open>The mutable locals of \<^verbatim>\<open>try_new\<close>, and the body of its loop.\<close>

record journal_scan =
  next_position :: u64
  next_request :: u64
  next_delivery :: u64
  answerable :: "request_ordinal list"
  resolved :: "request_ordinal list"
  terminals :: "(request_ordinal \<times> u64) list"
  refused_terminals :: "request_ordinal list"
  ended :: bool
  succeeded :: bool

definition scan_start :: journal_scan where
  "scan_start = \<lparr>next_position = 1, next_request = 1, next_delivery = 1, answerable = [],
     resolved = [], terminals = [], refused_terminals = [], ended = False, succeeded = False\<rparr>"

definition scan_request ::
  "u64 \<Rightarrow> request_frame \<Rightarrow> journal_scan \<Rightarrow> program_journal_error + journal_scan" where
  "scan_request position request scan =
     (if as_u64 (request_ordinal request) \<noteq> next_request scan
      then Err NoncontiguousRequestOrdinal
      else case checked_succ (next_request scan) of
        None \<Rightarrow> Err OrdinalExhausted
      | Some next \<Rightarrow>
          (let scan = scan\<lparr>next_request := next\<rparr>;
               scan =
                 (if is_terminal (request_kind request)
                  then scan\<lparr>terminals := bt_insert (request_ordinal request) position (terminals scan),
                         refused_terminals :=
                           (if length (answerable scan) \<noteq> length (resolved scan)
                            then bs_insert (request_ordinal request) (refused_terminals scan)
                            else refused_terminals scan)\<rparr>
                  else scan)
           in Ok (if \<not> is_scope (request_kind request)
                  then scan\<lparr>answerable := bs_insert (request_ordinal request) (answerable scan)\<rparr>
                  else scan)))"

text \<open>
  The match on a delivery that resolves a terminal request. The addition is on 64-bit words;
  the recorded position has a successor, since \<^verbatim>\<open>next_position\<close> was advanced past it.
\<close>

fun resolve_terminal ::
  "u64 \<Rightarrow> u64 \<Rightarrow> request_ordinal \<Rightarrow> delivery_kind \<Rightarrow> journal_scan
     \<Rightarrow> program_journal_error + journal_scan" where
  "resolve_terminal position terminal_position request (Answer r payload) scan =
     (if \<not> ended scan \<and> request \<notin> set (refused_terminals scan)
         \<and> position = terminal_position + 1
         \<and> length (answerable scan) = length (resolved scan) + 1
      then Ok (scan\<lparr>succeeded := True\<rparr>)
      else Err InvalidTerminalResolution)"
| "resolve_terminal position terminal_position request (Reject r OutstandingRequests) scan =
     (if request \<in> set (refused_terminals scan) then Ok scan
      else Err InvalidTerminalResolution)"
| "resolve_terminal position terminal_position request _ scan = Err InvalidTerminalResolution"

definition scan_delivery ::
  "u64 \<Rightarrow> delivery_frame \<Rightarrow> journal_scan \<Rightarrow> program_journal_error + journal_scan" where
  "scan_delivery position delivery scan =
     (if as_u64 (delivery_ordinal delivery) \<noteq> next_delivery scan
      then Err NoncontiguousDeliveryOrdinal
      else case checked_succ (next_delivery scan) of
        None \<Rightarrow> Err OrdinalExhausted
      | Some next \<Rightarrow>
          (let scan = scan\<lparr>next_delivery := next\<rparr>;
               scan = (if resolves (delivery_kind delivery) = None
                       then scan\<lparr>ended := True\<rparr> else scan)
           in case resolves (delivery_kind delivery) of
                None \<Rightarrow> Ok scan
              | Some request \<Rightarrow>
                  (case (case bt_get (terminals scan) request of
                           None \<Rightarrow> Ok scan
                         | Some terminal_position \<Rightarrow>
                             resolve_terminal position terminal_position request
                               (delivery_kind delivery) scan) of
                     Err e \<Rightarrow> Err e
                   | Ok scan \<Rightarrow>
                       if request \<notin> set (answerable scan) then Err UnknownResolvedRequest
                       else if request \<in> set (resolved scan) then Err RequestResolvedTwice
                       else Ok (scan\<lparr>resolved := bs_insert request (resolved scan)\<rparr>))))"

definition scan_entry ::
  "journal_entry \<Rightarrow> journal_scan \<Rightarrow> program_journal_error + journal_scan" where
  "scan_entry entry scan =
     (if succeeded scan then Err FrameAfterSuccess
      else if as_u64 (entry_position entry) \<noteq> next_position scan
      then Err NoncontiguousPosition
      else case checked_succ (next_position scan) of
        None \<Rightarrow> Err OrdinalExhausted
      | Some next \<Rightarrow>
          (let scan = scan\<lparr>next_position := next\<rparr>; position = as_u64 (entry_position entry)
           in case entry_frame entry of
                Request request \<Rightarrow> scan_request position request scan
              | Delivery delivery \<Rightarrow> scan_delivery position delivery scan))"

fun scan_entries ::
  "journal_entry list \<Rightarrow> journal_scan \<Rightarrow> program_journal_error + journal_scan" where
  "scan_entries [] scan = Ok scan"
| "scan_entries (entry # rest) scan =
     (case scan_entry entry scan of Err e \<Rightarrow> Err e | Ok scan' \<Rightarrow> scan_entries rest scan')"

definition try_new ::
  "program_run_id \<Rightarrow> journal_entry list \<Rightarrow> program_journal_error + program_journal" where
  "try_new run entries =
     (case scan_entries entries scan_start of
        Err e \<Rightarrow> Err e
      | Ok _ \<Rightarrow> Ok \<lparr>journal_run = run, journal_entries = entries\<rparr>)"

section \<open>Replay\<close>

datatype replay_instruction = Instr_AwaitRequest | Instr_Deliver delivery_frame | Instr_Live

datatype replayed_request = Replay_Matched | Replay_DeliveryPending | Replay_Live

record nondeterminism_error =
  nondeterminism_run :: program_run_id
  expected :: request_frame
  observed :: request_frame

definition into_fault :: "nondeterminism_error \<Rightarrow> program_fault" where
  "into_fault e = Fault_Nondeterminism (expected e) (observed e)"

record replay_cursor =
  cursor_run :: program_run_id
  cursor_entries :: "journal_entry list"
  cursor_next :: nat
  cursor_live :: bool

definition replay_cursor_new :: "program_journal \<Rightarrow> replay_cursor" where
  "replay_cursor_new journal =
     \<lparr>cursor_run = journal_run journal, cursor_entries = journal_entries journal,
      cursor_next = 0, cursor_live = False\<rparr>"

text \<open>\<^verbatim>\<open>self.entries.get(self.next).map(JournalEntry::frame)\<close>\<close>

definition cursor_frame :: "replay_cursor \<Rightarrow> journal_frame option" where
  "cursor_frame cursor =
     (if cursor_next cursor < length (cursor_entries cursor)
      then Some (entry_frame (cursor_entries cursor ! cursor_next cursor)) else None)"

definition next_instruction :: "replay_cursor \<Rightarrow> replay_instruction \<times> replay_cursor" where
  "next_instruction cursor =
     (if cursor_live cursor then (Instr_Live, cursor)
      else case cursor_frame cursor of
        Some (Request _) \<Rightarrow> (Instr_AwaitRequest, cursor)
      | Some (Delivery delivery) \<Rightarrow>
          (Instr_Deliver delivery, cursor\<lparr>cursor_next := cursor_next cursor + 1\<rparr>)
      | None \<Rightarrow> (Instr_Live, cursor\<lparr>cursor_live := True\<rparr>))"

fun persists_divergence :: "request_frame \<Rightarrow> journal_entry \<Rightarrow> bool" where
  "persists_divergence request entry =
     (case entry_frame entry of
        Delivery delivery \<Rightarrow>
          (case delivery_kind delivery of
             Fault (Fault_Nondeterminism persisted_expected _) \<Rightarrow> persisted_expected = request
           | _ \<Rightarrow> False)
      | Request _ \<Rightarrow> False)"

text \<open>\<^verbatim>\<open>.iter().enumerate().skip(self.next + 1).find(..)\<close>\<close>

definition find_persisted_divergence ::
  "request_frame \<Rightarrow> nat \<Rightarrow> journal_entry list \<Rightarrow> nat option" where
  "find_persisted_divergence request from entries =
     find (\<lambda>i. persists_divergence request (entries ! i)) [from..<length entries]"

definition submit_request ::
  "request_frame \<Rightarrow> replay_cursor
     \<Rightarrow> nondeterminism_error + replayed_request \<times> replay_cursor" where
  "submit_request observed_frame cursor =
     (if cursor_live cursor \<or> cursor_next cursor = length (cursor_entries cursor)
      then Ok (Replay_Live, cursor\<lparr>cursor_live := True\<rparr>)
      else case cursor_frame cursor of
        Some (Request expected_frame) \<Rightarrow>
          if expected_frame \<noteq> observed_frame
          then (case find_persisted_divergence expected_frame (cursor_next cursor + 1)
                       (cursor_entries cursor) of
                  Some fault_index \<Rightarrow>
                    Ok (Replay_Matched, cursor\<lparr>cursor_next := fault_index\<rparr>)
                | None \<Rightarrow>
                    Err \<lparr>nondeterminism_run = cursor_run cursor, expected = expected_frame,
                         observed = observed_frame\<rparr>)
          else Ok (Replay_Matched, cursor\<lparr>cursor_next := cursor_next cursor + 1\<rparr>)
      | _ \<Rightarrow> Ok (Replay_DeliveryPending, cursor))"


section \<open>Specification of a legal stream\<close>

definition requests_of :: "journal_entry list \<Rightarrow> request_frame list" where
  "requests_of es = List.map_filter (\<lambda>e. case entry_frame e of Request q \<Rightarrow> Some q | Delivery _ \<Rightarrow> None) es"

definition deliveries_of :: "journal_entry list \<Rightarrow> delivery_frame list" where
  "deliveries_of es = List.map_filter (\<lambda>e. case entry_frame e of Request _ \<Rightarrow> None | Delivery d \<Rightarrow> Some d) es"

definition answerable_in :: "journal_entry list \<Rightarrow> request_ordinal set" where
  "answerable_in es = request_ordinal ` {q \<in> set (requests_of es). \<not> is_scope (request_kind q)}"

definition resolved_in :: "journal_entry list \<Rightarrow> request_ordinal set" where
  "resolved_in es = {r. \<exists>d \<in> set (deliveries_of es). resolves (delivery_kind d) = Some r}"

definition ended_in :: "journal_entry list \<Rightarrow> bool" where
  "ended_in es \<longleftrightarrow> (\<exists>d \<in> set (deliveries_of es). resolves (delivery_kind d) = None)"

definition terminal_at :: "journal_entry list \<Rightarrow> request_ordinal \<Rightarrow> nat \<Rightarrow> bool" where
  "terminal_at es r i \<longleftrightarrow> i < length es \<and>
     (\<exists>q. entry_frame (es ! i) = Request q \<and> request_ordinal q = r \<and> is_terminal (request_kind q))"

definition quiescent :: "journal_entry list \<Rightarrow> bool" where
  "quiescent es \<longleftrightarrow> answerable_in es = resolved_in es"

fun is_answer :: "delivery_kind \<Rightarrow> bool" where
  "is_answer (Answer _ _) = True"
| "is_answer _ = False"

definition succeeded_in :: "journal_entry list \<Rightarrow> bool" where
  "succeeded_in es \<longleftrightarrow> (\<exists>i r p. terminal_at es r i \<and>
     (\<exists>d \<in> set (deliveries_of es). delivery_kind d = Answer r p))"

definition resolution_admissible :: "journal_entry list \<Rightarrow> delivery_kind \<Rightarrow> request_ordinal \<Rightarrow> bool" where
  "resolution_admissible pre k r \<longleftrightarrow>
     r \<in> answerable_in pre \<and> r \<notin> resolved_in pre \<and>
     (\<forall>i. terminal_at pre r i \<longrightarrow>
        (if quiescent (take i pre)
         then is_answer k \<and> \<not> ended_in pre \<and> Suc i = length pre
         else k = Reject r OutstandingRequests))"

definition entry_admissible :: "journal_entry list \<Rightarrow> journal_entry \<Rightarrow> bool" where
  "entry_admissible pre e \<longleftrightarrow>
     \<not> succeeded_in pre \<and> unat (as_u64 (entry_position e)) = Suc (length pre) \<and>
     (case entry_frame e of
        Request q \<Rightarrow> unat (as_u64 (request_ordinal q)) = Suc (length (requests_of pre))
      | Delivery d \<Rightarrow> unat (as_u64 (delivery_ordinal d)) = Suc (length (deliveries_of pre)) \<and>
          (\<forall>r. resolves (delivery_kind d) = Some r \<longrightarrow> resolution_admissible pre (delivery_kind d) r))"

definition journal_admissible :: "journal_entry list \<Rightarrow> bool" where
  "journal_admissible es \<longleftrightarrow>
     length es < 2 ^ 64 - 1 \<and> (\<forall>i < length es. entry_admissible (take i es) (es ! i))"

lemma requests_of_append [simp]: "requests_of (xs @ ys) = requests_of xs @ requests_of ys"
  by (simp add: requests_of_def map_filter_append)

lemma deliveries_of_append [simp]: "deliveries_of (xs @ ys) = deliveries_of xs @ deliveries_of ys"
  by (simp add: deliveries_of_def map_filter_append)

lemma requests_of_simps [simp]:
  "requests_of [] = []"
  "requests_of (e # es) = (case entry_frame e of Request q \<Rightarrow> [q] | Delivery _ \<Rightarrow> []) @ requests_of es"
  by (auto simp: requests_of_def List.map_filter_simps split: journal_frame.splits)

lemma deliveries_of_simps [simp]:
  "deliveries_of [] = []"
  "deliveries_of (e # es) = (case entry_frame e of Request _ \<Rightarrow> [] | Delivery d \<Rightarrow> [d]) @ deliveries_of es"
  by (auto simp: deliveries_of_def List.map_filter_simps split: journal_frame.splits)

lemma journal_admissible_snoc:
  "journal_admissible (es @ [e]) \<longleftrightarrow>
     journal_admissible es \<and> Suc (length es) < 2 ^ 64 - 1 \<and> entry_admissible es e"
  by (auto simp: journal_admissible_def nth_append less_Suc_eq)

lemma journal_admissible_Nil [simp]: "journal_admissible []"
  by (simp add: journal_admissible_def)

lemma length_requests_deliveries: "length (requests_of es) + length (deliveries_of es) = length es"
  by (induction es) (auto split: journal_frame.splits)

lemma request_ordinals:
  "journal_admissible es \<Longrightarrow>
     map (\<lambda>q. unat (as_u64 (request_ordinal q))) (requests_of es) = [1..<Suc (length (requests_of es))]"
  by (induction es rule: rev_induct)
    (auto simp: journal_admissible_snoc entry_admissible_def split: journal_frame.splits)

lemma delivery_ordinals:
  "journal_admissible es \<Longrightarrow>
     map (\<lambda>d. unat (as_u64 (delivery_ordinal d))) (deliveries_of es) = [1..<Suc (length (deliveries_of es))]"
  by (induction es rule: rev_induct)
    (auto simp: journal_admissible_snoc entry_admissible_def split: journal_frame.splits)

lemma fresh_request_ordinal:
  assumes "journal_admissible es" and "unat (as_u64 r) = Suc (length (requests_of es))"
  shows "r \<notin> request_ordinal ` set (requests_of es)"
proof
  assume "r \<in> request_ordinal ` set (requests_of es)"
  then have "unat (as_u64 r) \<in> set (map (\<lambda>q. unat (as_u64 (request_ordinal q))) (requests_of es))"
    by auto
  with assms show False by (simp add: request_ordinals)
qed

lemma answerable_in_simps [simp]:
  "answerable_in [] = {}"
  "answerable_in (es @ [e]) = (case entry_frame e of
     Request q \<Rightarrow> (if is_scope (request_kind q) then answerable_in es
                  else insert (request_ordinal q) (answerable_in es))
   | Delivery _ \<Rightarrow> answerable_in es)"
  by (auto simp: answerable_in_def split: journal_frame.splits)

lemma resolved_in_simps [simp]:
  "resolved_in [] = {}"
  "resolved_in (es @ [e]) = (case entry_frame e of
     Request q \<Rightarrow> resolved_in es
   | Delivery d \<Rightarrow> (case resolves (delivery_kind d) of None \<Rightarrow> resolved_in es
                  | Some r \<Rightarrow> insert r (resolved_in es)))"
  by (auto simp: resolved_in_def split: journal_frame.splits option.splits)

lemma ended_in_simps [simp]:
  "ended_in [] = False"
  "ended_in (es @ [e]) = (ended_in es \<or> (case entry_frame e of
     Request q \<Rightarrow> False | Delivery d \<Rightarrow> resolves (delivery_kind d) = None))"
  by (auto simp: ended_in_def split: journal_frame.splits)

lemma terminal_at_simps [simp]:
  "\<not> terminal_at [] r i"
  "terminal_at (es @ [e]) r i \<longleftrightarrow> terminal_at es r i \<or>
     i = length es \<and> (\<exists>q. entry_frame e = Request q \<and> request_ordinal q = r \<and> is_terminal (request_kind q))"
  by (auto simp: terminal_at_def nth_append less_Suc_eq)

lemma in_requests_of: "q \<in> set (requests_of es) \<longleftrightarrow> (\<exists>e \<in> set es. entry_frame e = Request q)"
  by (induction es) (auto split: journal_frame.splits)

lemma in_deliveries_of: "d \<in> set (deliveries_of es) \<longleftrightarrow> (\<exists>e \<in> set es. entry_frame e = Delivery d)"
  by (induction es) (auto split: journal_frame.splits)

lemma terminal_not_scope: "is_terminal k \<Longrightarrow> \<not> is_scope k"
  by (cases k) auto

lemma terminal_at_answerable: "terminal_at es r i \<Longrightarrow> r \<in> answerable_in es"
proof -
  assume "terminal_at es r i"
  then obtain q where "entry_frame (es ! i) = Request q" "es ! i \<in> set es" "request_ordinal q = r"
    "is_terminal (request_kind q)" by (auto simp: terminal_at_def)
  then show ?thesis using in_requests_of terminal_not_scope unfolding answerable_in_def by blast
qed

lemma terminal_at_request: "terminal_at es r i \<Longrightarrow> r \<in> request_ordinal ` set (requests_of es)"
  by (drule terminal_at_answerable) (auto simp: answerable_in_def)

lemma resolved_answerable: "journal_admissible es \<Longrightarrow> resolved_in es \<subseteq> answerable_in es"
  by (induction es rule: rev_induct)
    (auto simp: journal_admissible_snoc entry_admissible_def resolution_admissible_def
      split: journal_frame.splits option.splits)

lemma terminal_at_unique:
  "journal_admissible es \<Longrightarrow> terminal_at es r i \<Longrightarrow> terminal_at es r j \<Longrightarrow> i = j"
proof (induction es rule: rev_induct)
  case (snoc e es)
  show ?case
  proof (cases "entry_frame e")
    case (Request q)
    then have "unat (as_u64 (request_ordinal q)) = Suc (length (requests_of es))" "journal_admissible es"
      using snoc.prems(1) by (auto simp: journal_admissible_snoc entry_admissible_def)
    then have "request_ordinal q \<notin> request_ordinal ` set (requests_of es)"
      using fresh_request_ordinal by blast
    with snoc Request \<open>journal_admissible es\<close> show ?thesis
      using terminal_at_request by auto
  qed (use snoc in \<open>auto simp: journal_admissible_snoc\<close>)
qed simp

section \<open>The scan abstracts the entries read\<close>

text \<open>
  What the locals of \<^verbatim>\<open>try_new\<close> hold after the entries \<open>pre\<close>. The counts of answerable and
  resolved requests stand for the sets: resolved requests are answerable, so the counts agree
  exactly when nothing is outstanding.
\<close>

definition scan_of :: "journal_entry list \<Rightarrow> journal_scan \<Rightarrow> bool" where
  "scan_of pre scan \<longleftrightarrow>
     unat (next_position scan) = Suc (length pre) \<and>
     unat (next_request scan) = Suc (length (requests_of pre)) \<and>
     unat (next_delivery scan) = Suc (length (deliveries_of pre)) \<and>
     bs_ok (answerable scan) \<and> set (answerable scan) = answerable_in pre \<and>
     bs_ok (resolved scan) \<and> set (resolved scan) = resolved_in pre \<and>
     (\<forall>r p. bt_get (terminals scan) r = Some p \<longleftrightarrow> (\<exists>i. terminal_at pre r i \<and> unat p = Suc i)) \<and>
     set (refused_terminals scan) = {r. \<exists>i. terminal_at pre r i \<and> \<not> quiescent (take i pre)} \<and>
     (ended scan \<longleftrightarrow> ended_in pre) \<and> (succeeded scan \<longleftrightarrow> succeeded_in pre)"

lemma scan_of_start: "scan_of [] scan_start"
  by (simp add: scan_of_def scan_start_def succeeded_in_def)

lemma scan_ofD:
  assumes "scan_of pre scan"
  shows "unat (next_position scan) = Suc (length pre)"
    and "unat (next_request scan) = Suc (length (requests_of pre))"
    and "unat (next_delivery scan) = Suc (length (deliveries_of pre))"
    and "bs_ok (answerable scan)" and "set (answerable scan) = answerable_in pre"
    and "bs_ok (resolved scan)" and "set (resolved scan) = resolved_in pre"
    and "\<And>r p. bt_get (terminals scan) r = Some p \<longleftrightarrow> (\<exists>i. terminal_at pre r i \<and> unat p = Suc i)"
    and "set (refused_terminals scan) = {r. \<exists>i. terminal_at pre r i \<and> \<not> quiescent (take i pre)}"
    and "ended scan \<longleftrightarrow> ended_in pre" and "succeeded scan \<longleftrightarrow> succeeded_in pre"
  using assms by (simp_all add: scan_of_def)

lemma finite_answerable_in [simp]: "finite (answerable_in es)"
  by (simp add: answerable_in_def)

lemma scan_of_lengths:
  assumes "scan_of pre scan"
  shows "length (answerable scan) = card (answerable_in pre)"
    and "length (resolved scan) = card (resolved_in pre)"
  using length_bs [OF scan_ofD(4) [OF assms]] length_bs [OF scan_ofD(6) [OF assms]]
    scan_ofD(5,7) [OF assms] by simp_all

lemma scan_of_quiescent:
  assumes "journal_admissible pre" and "scan_of pre scan"
  shows "length (answerable scan) = length (resolved scan) \<longleftrightarrow> quiescent pre"
  using resolved_answerable [OF assms(1)] card_subset_eq [of "answerable_in pre" "resolved_in pre"]
  by (auto simp: scan_of_lengths [OF assms(2)] quiescent_def)

lemma succeeded_in_snoc:
  assumes "journal_admissible (es @ [e])"
  shows "succeeded_in (es @ [e]) \<longleftrightarrow> succeeded_in es \<or>
    (\<exists>d i r p. entry_frame e = Delivery d \<and> delivery_kind d = Answer r p \<and> terminal_at es r i)"
proof (cases "entry_frame e")
  case (Request q)
  have adm: "journal_admissible es" and "unat (as_u64 (request_ordinal q)) = Suc (length (requests_of es))"
    using assms Request by (auto simp: journal_admissible_snoc entry_admissible_def)
  then have fresh: "request_ordinal q \<notin> answerable_in es"
    using fresh_request_ordinal by (auto simp: answerable_in_def)
  have "r \<in> answerable_in es" if "d \<in> set (deliveries_of es)" "delivery_kind d = Answer r p" for d r p
    using that resolved_answerable [OF adm] by (force simp: resolved_in_def)
  with fresh Request show ?thesis by (auto simp: succeeded_in_def)
next
  case (Delivery d)
  then show ?thesis by (auto simp: succeeded_in_def)
qed

lemma scan_of_request:
  assumes adm: "journal_admissible (pre @ [e])" and s: "scan_of pre scan" and e: "entry_frame e = Request q"
    and np: "unat np = Suc (Suc (length pre))" and nr: "unat nr = Suc (Suc (length (requests_of pre)))"
    and pos: "unat position = Suc (length pre)"
  shows "scan_of (pre @ [e])
    (scan\<lparr>next_position := np, next_request := nr,
       terminals := (if is_terminal (request_kind q) then bt_insert (request_ordinal q) position (terminals scan) else terminals scan),
       refused_terminals := (if is_terminal (request_kind q) \<and> length (answerable scan) \<noteq> length (resolved scan)
         then bs_insert (request_ordinal q) (refused_terminals scan) else refused_terminals scan),
       answerable := (if \<not> is_scope (request_kind q) then bs_insert (request_ordinal q) (answerable scan) else answerable scan)\<rparr>)"
proof -
  have adm': "journal_admissible pre" and "unat (as_u64 (request_ordinal q)) = Suc (length (requests_of pre))"
    using adm e by (auto simp: journal_admissible_snoc entry_admissible_def)
  then have fresh: "\<not> terminal_at pre (request_ordinal q) i" for i
    using fresh_request_ordinal terminal_at_request by blast
  have lt: "terminal_at pre r i \<Longrightarrow> i < length pre" for r i by (simp add: terminal_at_def)
  have tm: "bt_get (if is_terminal (request_kind q) then bt_insert (request_ordinal q) position (terminals scan) else terminals scan) r = Some p
     \<longleftrightarrow> (\<exists>i. terminal_at (pre @ [e]) r i \<and> unat p = Suc i)" for r p
    using fresh e pos by (auto simp: bt_get_insert scan_ofD(8) [OF s] word_unat_eq_iff)
  have rf: "set (if is_terminal (request_kind q) \<and> length (answerable scan) \<noteq> length (resolved scan)
         then bs_insert (request_ordinal q) (refused_terminals scan) else refused_terminals scan) =
     {r. \<exists>i. terminal_at (pre @ [e]) r i \<and> \<not> quiescent (take i (pre @ [e]))}"
    using e lt scan_ofD(9) [OF s] scan_of_quiescent [OF adm' s] by (auto; force)
  have "succeeded_in (pre @ [e]) = succeeded_in pre"
    using succeeded_in_snoc [OF adm] e by simp
  then show ?thesis
    unfolding scan_of_def using np nr tm rf scan_ofD [OF s] e
    by (simp add: bs_ok_insert)
qed

lemma journal_admissible_take: "journal_admissible es \<Longrightarrow> journal_admissible (take n es)"
  by (auto simp: journal_admissible_def min_def)

lemma terminal_last_counts:
  assumes adm: "journal_admissible pre" and t: "terminal_at pre r i" and last: "Suc i = length pre"
    and q: "quiescent (take i pre)"
  shows "card (answerable_in pre) = Suc (card (resolved_in pre))"
proof -
  obtain f where pre: "pre = take i pre @ [pre ! i]" and f: "entry_frame (pre ! i) = Request f"
    "request_ordinal f = r" "is_terminal (request_kind f)"
    using t last by (metis lessI take_Suc_conv_app_nth take_all_iff le_refl terminal_at_def)
  have adm': "journal_admissible (take i pre @ [pre ! i])" using adm pre by simp
  have "r \<notin> answerable_in (take i pre)"
    using adm' f fresh_request_ordinal [of "take i pre" r]
    by (auto simp: journal_admissible_snoc entry_admissible_def answerable_in_def)
  moreover have "answerable_in pre = insert r (answerable_in (take i pre))"
    "resolved_in pre = resolved_in (take i pre)"
    using f terminal_not_scope by (subst pre, simp)+
  ultimately show ?thesis using q finite_answerable_in [of "take i pre"] by (simp add: quiescent_def)
qed

lemma resolve_terminal_Ok:
  assumes adm: "journal_admissible pre" and s: "scan_of pre scan" and t: "terminal_at pre r i"
    and pos: "unat position = Suc (length pre)" and tp: "unat tp = Suc i"
    and k: "resolves k = Some r" and fresh: "\<not> succeeded scan"
  shows "resolve_terminal position tp r k (scan\<lparr>next_position := np, next_delivery := nd\<rparr>) = Ok out \<longleftrightarrow>
    (if quiescent (take i pre) then is_answer k \<and> \<not> ended_in pre \<and> Suc i = length pre
     else k = Reject r OutstandingRequests) \<and>
    out = scan\<lparr>next_position := np, next_delivery := nd, succeeded := is_answer k\<rparr>"
proof -
  have refused: "r \<in> set (refused_terminals scan) \<longleftrightarrow> \<not> quiescent (take i pre)"
    unfolding scan_ofD(9) [OF s] using t terminal_at_unique [OF adm t] by blast
  have "i < length pre" using t by (simp add: terminal_at_def)
  moreover have "length pre < 2 ^ 64 - 1" using adm by (simp add: journal_admissible_def)
  ultimately have "unat tp < 2 ^ 64 - 1" using tp by linarith
  then have "unat (tp + 1) = Suc (Suc i)"
    using checked_succ_bounded [of tp] tp by (auto simp: checked_succ_Some_iff)
  then have next_pos: "position = tp + 1 \<longleftrightarrow> Suc i = length pre"
    using pos by (auto simp: word_unat_eq_iff)
  have counts: "length (answerable scan) = Suc (length (resolved scan))"
    if "quiescent (take i pre)" "Suc i = length pre"
    using terminal_last_counts [OF adm t that(2,1)] by (simp add: scan_of_lengths [OF s])
  have same: "scan\<lparr>next_position := np, next_delivery := nd\<rparr>
      = scan\<lparr>next_position := np, next_delivery := nd, succeeded := False\<rparr>"
    using fresh by simp
  show ?thesis
  proof (cases k)
    case (Answer r' p)
    then show ?thesis
      using k refused next_pos counts scan_ofD(10) [OF s] by auto
  next
    case (Reject r' reason)
    then show ?thesis
      using k refused same by (cases reason) auto
  qed (use k in auto)
qed

lemma scan_of_unresolving:
  assumes adm: "journal_admissible (pre @ [e])" and s: "scan_of pre scan" and e: "entry_frame e = Delivery d"
    and np: "unat np = Suc (Suc (length pre))" and nd: "unat nd = Suc (Suc (length (deliveries_of pre)))"
    and k: "resolves (delivery_kind d) = None"
  shows "scan_of (pre @ [e]) (scan\<lparr>next_position := np, next_delivery := nd, ended := True\<rparr>)"
proof -
  have lt: "terminal_at pre r i \<Longrightarrow> i < length pre" for r i by (simp add: terminal_at_def)
  have "set (refused_terminals scan) = {r. \<exists>i. terminal_at pre r i \<and> \<not> quiescent (take i (pre @ [e]))}"
    using scan_ofD(9) [OF s] lt by (auto; force)
  moreover have "succeeded_in (pre @ [e]) = succeeded_in pre"
    using succeeded_in_snoc [OF adm] e k by auto
  ultimately show ?thesis
    unfolding scan_of_def using np nd scan_ofD [OF s] e k by simp
qed

lemma scan_of_resolving:
  assumes adm: "journal_admissible (pre @ [e])" and s: "scan_of pre scan" and e: "entry_frame e = Delivery d"
    and np: "unat np = Suc (Suc (length pre))" and nd: "unat nd = Suc (Suc (length (deliveries_of pre)))"
    and k: "resolves (delivery_kind d) = Some r"
  shows "scan_of (pre @ [e]) (scan\<lparr>next_position := np, next_delivery := nd,
    succeeded := (is_answer (delivery_kind d) \<and> (\<exists>i. terminal_at pre r i)), resolved := bs_insert r (resolved scan)\<rparr>)"
proof -
  have lt: "terminal_at pre r i \<Longrightarrow> i < length pre" for r i by (simp add: terminal_at_def)
  have "set (refused_terminals scan) = {r. \<exists>i. terminal_at pre r i \<and> \<not> quiescent (take i (pre @ [e]))}"
    using scan_ofD(9) [OF s] lt by (auto; force)
  moreover have "succeeded_in (pre @ [e]) = (is_answer (delivery_kind d) \<and> (\<exists>i. terminal_at pre r i))"
    using succeeded_in_snoc [OF adm] e k adm
    by (cases "delivery_kind d") (auto simp: journal_admissible_snoc entry_admissible_def)
  ultimately show ?thesis
    unfolding scan_of_def using np nd scan_ofD [OF s] e k by (simp add: bs_ok_insert)
qed

lemma scan_of_counts_bounded:
  assumes "scan_of pre scan" and "Suc (length pre) < 2 ^ 64 - 1"
  shows "unat (next_request scan) < 2 ^ 64 - 1" and "unat (next_delivery scan) < 2 ^ 64 - 1"
  using scan_ofD(2,3) [OF assms(1)] assms(2) length_requests_deliveries [of pre] by auto

lemma scan_request_step:
  assumes adm: "journal_admissible pre" and s: "scan_of pre scan" and e: "entry_frame e = Request q"
    and ok: "\<not> succeeded_in pre" "unat (as_u64 (entry_position e)) = Suc (length pre)"
      "Suc (length pre) < 2 ^ 64 - 1" and np: "unat np = Suc (Suc (length pre))"
  shows "case scan_request (as_u64 (entry_position e)) q (scan\<lparr>next_position := np\<rparr>) of
            Ok scan' \<Rightarrow> journal_admissible (pre @ [e]) \<and> scan_of (pre @ [e]) scan'
          | Err _ \<Rightarrow> \<not> journal_admissible (pre @ [e])"
proof (cases "as_u64 (request_ordinal q) = next_request scan")
  case False
  then show ?thesis
    using e scan_ofD(2) [OF s]
    by (auto simp: scan_request_def journal_admissible_snoc entry_admissible_def word_unat_eq_iff)
next
  case True
  then have adm': "journal_admissible (pre @ [e])"
    using adm e ok scan_ofD(2) [OF s] by (simp add: journal_admissible_snoc entry_admissible_def)
  obtain nr where nr: "checked_succ (next_request scan) = Some nr" "unat nr = Suc (Suc (length (requests_of pre)))"
    using checked_succ_bounded [OF scan_of_counts_bounded(1) [OF s ok(3)]] scan_ofD(2) [OF s] by auto
  show ?thesis
    using True nr(1) adm' scan_of_request [OF adm' s e np nr(2) ok(2)]
    by (auto simp: scan_request_def Let_def cong: if_cong)
qed

lemma scan_delivery_step:
  assumes adm: "journal_admissible pre" and s: "scan_of pre scan" and e: "entry_frame e = Delivery d"
    and ok: "\<not> succeeded_in pre" "unat (as_u64 (entry_position e)) = Suc (length pre)"
      "Suc (length pre) < 2 ^ 64 - 1" and np: "unat np = Suc (Suc (length pre))"
  shows "case scan_delivery (as_u64 (entry_position e)) d (scan\<lparr>next_position := np\<rparr>) of
            Ok scan' \<Rightarrow> journal_admissible (pre @ [e]) \<and> scan_of (pre @ [e]) scan'
          | Err _ \<Rightarrow> \<not> journal_admissible (pre @ [e])"
proof (cases "as_u64 (delivery_ordinal d) = next_delivery scan")
  case False
  then show ?thesis
    using e scan_ofD(3) [OF s]
    by (auto simp: scan_delivery_def journal_admissible_snoc entry_admissible_def word_unat_eq_iff)
next
  case True
  then have adm': "journal_admissible (pre @ [e]) \<longleftrightarrow>
      (\<forall>r. resolves (delivery_kind d) = Some r \<longrightarrow> resolution_admissible pre (delivery_kind d) r)"
    using adm e ok scan_ofD(3) [OF s] by (simp add: journal_admissible_snoc entry_admissible_def)
  obtain nd where nd: "checked_succ (next_delivery scan) = Some nd" "unat nd = Suc (Suc (length (deliveries_of pre)))"
    using checked_succ_bounded [OF scan_of_counts_bounded(2) [OF s ok(3)]] scan_ofD(3) [OF s] by auto
  have fresh: "\<not> succeeded scan" using ok(1) scan_ofD(11) [OF s] by simp
  let ?s = "scan\<lparr>next_position := np, next_delivery := nd\<rparr>"
  show ?thesis
  proof (cases "resolves (delivery_kind d)")
    case None
    with adm' scan_of_unresolving [OF _ s e np nd(2) None] True nd(1) show ?thesis
      by (simp add: scan_delivery_def Let_def)
  next
    case (Some r)
    define stage where "stage = (case bt_get (terminals ?s) r of None \<Rightarrow> Ok ?s
       | Some tp \<Rightarrow> resolve_terminal (as_u64 (entry_position e)) tp r (delivery_kind d) ?s)"
    have unfold: "scan_delivery (as_u64 (entry_position e)) d (scan\<lparr>next_position := np\<rparr>) =
        (case stage of Err err \<Rightarrow> Err err | Ok scan' \<Rightarrow>
           if r \<notin> set (answerable scan') then Err UnknownResolvedRequest
           else if r \<in> set (resolved scan') then Err RequestResolvedTwice
           else Ok (scan'\<lparr>resolved := bs_insert r (resolved scan')\<rparr>))"
      using True nd(1) Some by (simp add: scan_delivery_def Let_def stage_def)
    have stage: "stage = Ok out \<longleftrightarrow>
        (\<forall>i. terminal_at pre r i \<longrightarrow>
          (if quiescent (take i pre) then is_answer (delivery_kind d) \<and> \<not> ended_in pre \<and> Suc i = length pre
           else delivery_kind d = Reject r OutstandingRequests)) \<and>
        out = ?s\<lparr>succeeded := (is_answer (delivery_kind d) \<and> (\<exists>i. terminal_at pre r i))\<rparr>" for out
    proof (cases "bt_get (terminals scan) r")
      case None
      have "\<not> terminal_at pre r i" for i
      proof
        assume t: "terminal_at pre r i"
        then have "Suc i < 2 ^ 64" using ok(3) by (simp add: terminal_at_def)
        then have "unat (of_nat (Suc i) :: u64) = Suc i" by (simp add: unat_of_nat del: of_nat_Suc)
        with t None scan_ofD(8) [OF s, of r "of_nat (Suc i)"] show False by auto
      qed
      with None fresh show ?thesis by (auto simp: stage_def)
    next
      case (Some tp)
      then obtain i where i: "terminal_at pre r i" "unat tp = Suc i" using scan_ofD(8) [OF s] by auto
      have "\<And>j. terminal_at pre r j \<longleftrightarrow> j = i" using i terminal_at_unique [OF adm] by blast
      with Some i resolve_terminal_Ok [OF adm s i(1) ok(2) i(2) \<open>resolves (delivery_kind d) = Some r\<close> fresh]
      show ?thesis by (simp add: stage_def)
    qed
    show ?thesis
    proof (cases "resolution_admissible pre (delivery_kind d) r")
      case True
      then have "stage = Ok (?s\<lparr>succeeded := (is_answer (delivery_kind d) \<and> (\<exists>i. terminal_at pre r i))\<rparr>)"
        unfolding stage by (simp add: resolution_admissible_def)
      moreover have "journal_admissible (pre @ [e])" using adm' Some True by simp
      ultimately show ?thesis
        using True scan_of_resolving [OF _ s e np nd(2) Some] scan_ofD(5,7) [OF s]
        unfolding unfold by (simp add: resolution_admissible_def)
    next
      case False
      then have "\<not> journal_admissible (pre @ [e])" using adm' Some by simp
      moreover have "\<exists>err. (case stage of Err err \<Rightarrow> Err err | Ok scan' \<Rightarrow>
           if r \<notin> set (answerable scan') then Err UnknownResolvedRequest
           else if r \<in> set (resolved scan') then Err RequestResolvedTwice
           else Ok (scan'\<lparr>resolved := bs_insert r (resolved scan')\<rparr>)) = Err err"
      proof (cases stage)
        case (Inr out)
        with iffD1 [OF stage Inr] False scan_ofD(5,7) [OF s] show ?thesis
          by (auto simp: resolution_admissible_def)
      qed simp
      ultimately show ?thesis unfolding unfold by auto
    qed
  qed
qed

lemma scan_entry_step:
  assumes adm: "journal_admissible pre" and s: "scan_of pre scan"
  shows "case scan_entry e scan of
            Ok scan' \<Rightarrow> journal_admissible (pre @ [e]) \<and> scan_of (pre @ [e]) scan'
          | Err _ \<Rightarrow> \<not> journal_admissible (pre @ [e])"
proof (cases "succeeded_in pre \<or> unat (as_u64 (entry_position e)) \<noteq> Suc (length pre) \<or> \<not> Suc (length pre) < 2 ^ 64 - 1")
  case True
  then have "\<exists>err. scan_entry e scan = Err err"
    using scan_ofD(1,11) [OF s]
    by (auto simp: scan_entry_def word_unat_eq_iff checked_succ_iff split: option.splits)
  moreover have "\<not> journal_admissible (pre @ [e])"
    using True by (auto simp: journal_admissible_snoc entry_admissible_def)
  ultimately show ?thesis by auto
next
  case False
  then obtain np where np: "checked_succ (next_position scan) = Some np" "unat np = Suc (Suc (length pre))"
    using checked_succ_bounded [of "next_position scan"] scan_ofD(1) [OF s] by auto
  have fresh: "\<not> succeeded scan" and pos: "next_position scan = as_u64 (entry_position e)"
    using False scan_ofD(1,11) [OF s] by (auto simp: word_unat_eq_iff)
  have ok: "\<not> succeeded_in pre" "unat (as_u64 (entry_position e)) = Suc (length pre)"
    "Suc (length pre) < 2 ^ 64 - 1" using False by blast+
  show ?thesis
  proof (cases "entry_frame e")
    case (Request q)
    from scan_request_step [OF adm s Request ok np(2)] fresh pos np(1) Request show ?thesis
      by (simp add: scan_entry_def)
  next
    case (Delivery d)
    from scan_delivery_step [OF adm s Delivery ok np(2)] fresh pos np(1) Delivery show ?thesis
      by (simp add: scan_entry_def)
  qed
qed

lemma scan_entries_Ok:
  "journal_admissible pre \<Longrightarrow> scan_of pre scan \<Longrightarrow>
     (\<exists>out. scan_entries es scan = Ok out) \<longleftrightarrow> journal_admissible (pre @ es)"
proof (induction es arbitrary: pre scan)
  case (Cons e es)
  have "journal_admissible (pre @ [e])" if "journal_admissible (pre @ e # es)"
    using journal_admissible_take [OF that, of "Suc (length pre)"] by simp
  then show ?case
    using scan_entry_step [OF Cons.prems, of e] Cons.IH [of "pre @ [e]"]
    by (auto split: sum.splits)
qed simp

lemma try_new_Ok_iff:
  "try_new run entries = Ok journal \<longleftrightarrow>
     journal_admissible entries \<and> journal = \<lparr>journal_run = run, journal_entries = entries\<rparr>"
  using scan_entries_Ok [OF journal_admissible_Nil scan_of_start, of entries]
  by (auto simp: try_new_def split: sum.splits)

text \<open>The scan as a guarded machine: a success is final.\<close>

interpretation journal_scan: closing_machine scan_entry
  "\<lambda>scan. \<exists>pre. journal_admissible pre \<and> scan_of pre scan" succeeded
proof unfold_locales
  fix scan entry scan'
  assume "\<exists>pre. journal_admissible pre \<and> scan_of pre scan" and ok: "scan_entry entry scan = Ok scan'"
  then obtain pre where "journal_admissible pre" "scan_of pre scan" by blast
  from scan_entry_step [OF this, of entry] ok
  show "\<exists>pre. journal_admissible pre \<and> scan_of pre scan'" by auto
next
  fix scan :: journal_scan and entry
  assume "succeeded scan"
  then show "\<exists>e. scan_entry entry scan = Err e" by (simp add: scan_entry_def)
qed

section \<open>The retained result\<close>

lemma terminal_delivery_from_snoc:
  "terminal_delivery_from ts (es @ [e]) =
     (case terminal_delivery_from ts es of
        Some d \<Rightarrow> Some d
      | None \<Rightarrow> (case entry_frame e of
          Request _ \<Rightarrow> None
        | Delivery d \<Rightarrow>
            if resolves (delivery_kind d) = None \<or>
               (\<exists>r p. delivery_kind d = Answer r p \<and> (r \<in> set ts \<or> (\<exists>i. terminal_at es r i)))
            then Some d else None))"
proof (induction es arbitrary: ts)
  case Nil
  have "answers_terminal ts k \<longleftrightarrow> (\<exists>r p. k = Answer r p \<and> r \<in> set ts)" for k by (cases k) auto
  then show ?case by (auto split: journal_frame.splits)
next
  case (Cons e' es)
  have "(\<exists>i. terminal_at (e' # es) r i) \<longleftrightarrow>
      (\<exists>q. entry_frame e' = Request q \<and> request_ordinal q = r \<and> is_terminal (request_kind q)) \<or>
      (\<exists>i. terminal_at es r i)" for r
    by (subst ex_nat_split) (auto simp: terminal_at_def)
  with Cons.IH show ?case
    by (auto split: journal_frame.splits)
qed

lemma terminal_delivery_None:
  "journal_admissible es \<Longrightarrow>
     terminal_delivery_from [] es = None \<longleftrightarrow> \<not> ended_in es \<and> \<not> succeeded_in es"
proof (induction es rule: rev_induct)
  case (snoc e es)
  then have "journal_admissible es" by (simp add: journal_admissible_snoc)
  with snoc succeeded_in_snoc [OF snoc.prems] show ?case
    by (auto simp: terminal_delivery_from_snoc split: option.splits journal_frame.splits if_splits)
qed (simp add: succeeded_in_def)

lemma terminal_answer_succeeded:
  "journal_admissible es \<Longrightarrow> terminal_delivery_from [] es = Some d \<Longrightarrow> delivery_kind d = Answer r x \<Longrightarrow>
     succeeded_in es"
proof (induction es rule: rev_induct)
  case (snoc e es)
  with succeeded_in_snoc [OF snoc.prems(1)] show ?case
    by (auto simp: terminal_delivery_from_snoc journal_admissible_snoc
      split: option.splits journal_frame.splits if_splits)
qed simp

lemma succeeded_shape:
  assumes adm: "journal_admissible (es @ [e])" and succ: "succeeded_in (es @ [e])"
  obtains pre e' q d x where "es = pre @ [e']" and "entry_frame e' = Request q"
    and "is_terminal (request_kind q)" and "entry_frame e = Delivery d"
    and "delivery_kind d = Answer (request_ordinal q) x" and "quiescent pre" and "\<not> ended_in es"
    and "\<not> succeeded_in es"
proof -
  have ne: "\<not> succeeded_in es" and ea: "entry_admissible es e"
    using adm by (auto simp: journal_admissible_snoc entry_admissible_def)
  then obtain d i r x where d: "entry_frame e = Delivery d" "delivery_kind d = Answer r x"
    and t: "terminal_at es r i" using succ succeeded_in_snoc [OF adm] by blast
  with ea have rule: "if quiescent (take i es) then \<not> ended_in es \<and> Suc i = length es else False"
    by (auto simp: entry_admissible_def resolution_admissible_def split: if_splits)
  then have "quiescent (take i es)" "\<not> ended_in es" "Suc i = length es" by (auto split: if_splits)
  moreover from this have "es = take i es @ [es ! i]"
    by (metis lessI take_Suc_conv_app_nth take_all_iff le_refl)
  moreover obtain q where "entry_frame (es ! i) = Request q" "request_ordinal q = r" "is_terminal (request_kind q)"
    using t by (auto simp: terminal_at_def)
  ultimately show ?thesis using that d ne by blast
qed

lemma terminal_request_from_append:
  "terminal_request_from r (xs @ ys) =
     (case terminal_request_from r xs of Some p \<Rightarrow> Some p | None \<Rightarrow> terminal_request_from r ys)"
  by (induction xs) (auto split: journal_frame.splits request_kind.splits)

lemma terminal_request_from_fresh:
  "r \<notin> request_ordinal ` set (requests_of es) \<Longrightarrow> terminal_request_from r es = None"
  by (induction es) (auto split: journal_frame.splits)

lemma set_outstanding:
  "journal_admissible es \<Longrightarrow> set (fold track_outstanding es []) = answerable_in es - resolved_in es"
proof (induction es rule: rev_induct)
  case (snoc e es)
  then have adm: "journal_admissible es" by (simp add: journal_admissible_snoc)
  have "request_ordinal q \<notin> resolved_in es" if "entry_frame e = Request q" for q
    using snoc.prems that fresh_request_ordinal [OF adm, of "request_ordinal q"] resolved_answerable [OF adm]
    by (auto simp: journal_admissible_snoc entry_admissible_def answerable_in_def)
  with snoc adm show ?case by (auto split: journal_frame.splits option.splits)
qed simp

lemma has_outstanding_iff:
  "journal_admissible (journal_entries j) \<Longrightarrow> has_outstanding_requests j \<longleftrightarrow> \<not> quiescent (journal_entries j)"
proof -
  assume adm: "journal_admissible (journal_entries j)"
  have "has_outstanding_requests j \<longleftrightarrow> set (fold track_outstanding (journal_entries j) []) \<noteq> {}"
    by (simp add: has_outstanding_requests_def)
  then show ?thesis
    using set_outstanding [OF adm] resolved_answerable [OF adm] by (auto simp: quiescent_def)
qed

lemma succeeded_result:
  assumes adm: "journal_admissible (pre @ [e', e])" and e': "entry_frame e' = Request q" "request_kind q = Terminal p"
    and e: "entry_frame e = Delivery d" "delivery_kind d = Answer (request_ordinal q) x"
    and ok: "\<not> ended_in pre"
  shows "journal_result \<lparr>journal_run = run, journal_entries = pre @ [e', e]\<rparr> = Some p"
proof -
  have adm2: "journal_admissible ((pre @ [e']) @ [e])" using adm by simp
  then have adm1: "journal_admissible (pre @ [e'])" and ns: "\<not> succeeded_in (pre @ [e'])"
    unfolding journal_admissible_snoc [of "pre @ [e']"] entry_admissible_def by blast+
  have t: "terminal_at (pre @ [e']) (request_ordinal q) (length pre)" using e' by simp
  have "terminal_delivery_from [] (pre @ [e']) = None"
    using terminal_delivery_None [OF adm1] ns ok e' by simp
  then have "terminal_delivery_from [] ((pre @ [e']) @ [e]) = Some d"
    unfolding terminal_delivery_from_snoc [of _ "pre @ [e']"] using e t by auto
  moreover have "terminal_request_from (request_ordinal q) (pre @ [e', e]) = Some p"
    using adm1 e' fresh_request_ordinal [of pre "request_ordinal q"]
    by (auto simp: terminal_request_from_append terminal_request_from_fresh journal_admissible_snoc entry_admissible_def)
  ultimately show ?thesis
    using e by (simp add: journal_result_def terminal_delivery_def terminal_request_def)
qed

section \<open>Replay of a program\<close>

text \<open>
  A program is a function of the frames it has seen to the request it emits next. The host loop
  alternates \<^verbatim>\<open>next_instruction\<close> with the program's requests, as the cursor's documentation
  requires, until it goes live. Each round consumes an entry or ends, so one more round than
  there are entries suffices.
\<close>

fun replay_drive ::
  "nat \<Rightarrow> (journal_frame list \<Rightarrow> request_frame) \<Rightarrow> journal_frame list \<Rightarrow> replay_cursor
     \<Rightarrow> (nondeterminism_error + journal_frame list \<times> replay_cursor) option" where
  "replay_drive 0 prog seen cursor = None"
| "replay_drive (Suc rounds) prog seen cursor =
     (case next_instruction cursor of
        (Instr_Live, cursor') \<Rightarrow> Some (Ok (seen, cursor'))
      | (Instr_Deliver delivery, cursor') \<Rightarrow>
          replay_drive rounds prog (seen @ [Delivery delivery]) cursor'
      | (Instr_AwaitRequest, cursor') \<Rightarrow>
          (case submit_request (prog seen) cursor' of
             Err e \<Rightarrow> Some (Err e)
           | Ok (_, cursor'') \<Rightarrow> replay_drive rounds prog (seen @ [Request (prog seen)]) cursor''))"

definition frames :: "journal_entry list \<Rightarrow> journal_frame list" where
  "frames es = map entry_frame es"

definition reproduces :: "(journal_frame list \<Rightarrow> request_frame) \<Rightarrow> journal_entry list \<Rightarrow> nat \<Rightarrow> bool" where
  "reproduces prog es n \<longleftrightarrow> (\<forall>i < n. \<forall>q. i < length es \<longrightarrow> entry_frame (es ! i) = Request q \<longrightarrow>
     prog (frames (take i es)) = q)"

definition cursor_at :: "program_journal \<Rightarrow> nat \<Rightarrow> replay_cursor" where
  "cursor_at journal n = (replay_cursor_new journal)\<lparr>cursor_next := n\<rparr>"

lemma frames_take_Suc:
  "n < length es \<Longrightarrow> frames (take (Suc n) es) = frames (take n es) @ [entry_frame (es ! n)]"
  by (simp add: frames_def take_Suc_conv_app_nth)

lemma replay_drive_step:
  assumes "n < length (journal_entries journal)" and "reproduces prog (journal_entries journal) (Suc n)"
  shows "replay_drive (Suc rounds) prog (frames (take n (journal_entries journal))) (cursor_at journal n) =
    replay_drive rounds prog (frames (take (Suc n) (journal_entries journal))) (cursor_at journal (Suc n))"
  using assms
  by (auto simp: next_instruction_def submit_request_def cursor_frame_def cursor_at_def reproduces_def
      replay_cursor_new_def frames_take_Suc split: journal_frame.splits)

lemma replay_drive_steps:
  assumes "reproduces prog (journal_entries journal) n" and "n \<le> length (journal_entries journal)"
  shows "replay_drive (rounds + n) prog [] (replay_cursor_new journal) =
    replay_drive rounds prog (frames (take n (journal_entries journal))) (cursor_at journal n)"
  using assms
proof (induction n arbitrary: rounds)
  case 0
  then show ?case by (simp add: cursor_at_def replay_cursor_new_def frames_def)
next
  case (Suc n)
  then have "reproduces prog (journal_entries journal) n" by (simp add: reproduces_def)
  with Suc.IH [of "Suc rounds"] Suc.prems
    replay_drive_step [of n journal prog rounds] show ?case by simp
qed

lemma find_persisted_divergence_Some:
  "find_persisted_divergence q from es = Some f \<Longrightarrow>
     from \<le> f \<and> f < length es \<and> persists_divergence q (es ! f)"
  unfolding find_persisted_divergence_def by (auto simp: find_Some_iff)

section \<open>Properties\<close>

definition sample_request :: "u64 \<Rightarrow> request_kind \<Rightarrow> request_frame" where
  "sample_request n kind =
     \<lparr>request_ordinal = PositivePosition n, request_scope = None, request_kind = kind\<rparr>"

definition sample_delivery :: "u64 \<Rightarrow> delivery_kind \<Rightarrow> delivery_frame" where
  "sample_delivery n kind = \<lparr>delivery_ordinal = PositivePosition n, delivery_kind = kind\<rparr>"

definition sample_entry :: "u64 \<Rightarrow> journal_frame \<Rightarrow> journal_entry" where
  "sample_entry n frame = \<lparr>entry_position = PositivePosition n, entry_frame = frame\<rparr>"

definition sample_bytes :: "8 word \<Rightarrow> inline_frame_payload" where
  "sample_bytes b = InlineFramePayload [b]"

definition sample_history :: "journal_entry list" where
  "sample_history =
     [sample_entry 1 (Request (sample_request 1 (Now (sample_bytes 0)))),
      sample_entry 2 (Delivery (sample_delivery 1 (Answer (PositivePosition 1) (sample_bytes 7)))),
      sample_entry 3 (Request (sample_request 2 (Terminal (sample_bytes 9)))),
      sample_entry 4 (Delivery (sample_delivery 2 (Answer (PositivePosition 2) (sample_bytes 0))))]"

text \<open>
  C14. A frame stream is accepted exactly when every entry is admissible after the entries before
  it: positions, request ordinals and delivery ordinals are each contiguous from one; a
  resolution names an earlier answerable request that nothing resolved before; a terminal
  request is answered only immediately, before any cancellation or fault, with nothing else
  outstanding, and is otherwise refused as having outstanding work; and nothing follows an
  accepted terminal answer. The accepted journal is the stream itself.
\<close>

theorem try_new_exact:
  "try_new run entries = Ok journal \<longleftrightarrow>
     journal_admissible entries \<and> journal = \<lparr>journal_run = run, journal_entries = entries\<rparr>"
  by (rule try_new_Ok_iff)

text \<open>
  C15. An accepted journal retains a result exactly when it ends with a terminal request and its
  immediate answer; the result is that request's payload, nothing was outstanding when the
  request was made and nothing is outstanding at the end.
\<close>

theorem journal_result_exact:
  assumes "try_new run es = Ok journal"
  shows "journal_result journal = Some p \<longleftrightarrow>
    (\<exists>pre e' q e d x. es = pre @ [e', e] \<and> entry_frame e' = Request q \<and> request_kind q = Terminal p \<and>
       entry_frame e = Delivery d \<and> delivery_kind d = Answer (request_ordinal q) x \<and>
       \<not> ended_in pre \<and> \<not> has_outstanding_requests (journal\<lparr>journal_entries := pre\<rparr>) \<and>
       \<not> has_outstanding_requests journal)" (is "_ \<longleftrightarrow> ?shape")
proof
  have adm: "journal_admissible es" and j: "journal = \<lparr>journal_run = run, journal_entries = es\<rparr>"
    using assms by (auto simp: try_new_Ok_iff)
  show "journal_result journal = Some p" if ?shape
    using that adm j succeeded_result by auto
  assume res: "journal_result journal = Some p"
  then obtain d r x where td: "terminal_delivery_from [] es = Some d" and dk: "delivery_kind d = Answer r x"
    and tr: "terminal_request_from r es = Some p"
    by (auto simp: journal_result_def terminal_delivery_def terminal_request_def j split: option.splits delivery_kind.splits)
  have "es \<noteq> []" using td by auto
  then obtain es' e where es: "es = es' @ [e]" by (metis rev_exhaust)
  obtain pre e' q d' x' where shape: "es' = pre @ [e']" "entry_frame e' = Request q" "is_terminal (request_kind q)"
    "entry_frame e = Delivery d'" "delivery_kind d' = Answer (request_ordinal q) x'" "quiescent pre"
    "\<not> ended_in es'" "\<not> succeeded_in es'"
    using succeeded_shape [of es' e] terminal_answer_succeeded [OF adm td dk] adm es by blast
  obtain p' where p': "request_kind q = Terminal p'" using shape(3) by (cases "request_kind q") auto
  have es2: "es = pre @ [e', e]" using es shape(1) by simp
  then have "journal_result journal = Some p'"
    using succeeded_result [OF _ shape(2) p' shape(4,5)] adm shape(1,7) j by simp
  then have "p' = p" using res by simp
  moreover have "quiescent es"
    unfolding es shape(1) quiescent_def answerable_in_simps(2) resolved_in_simps(2)
    using shape p' by (simp add: quiescent_def)
  moreover have "journal_admissible pre" using adm es2 journal_admissible_take [of es "length pre"] by simp
  ultimately show ?shape
    using shape es2 p' adm j has_outstanding_iff [of journal] has_outstanding_iff [of "journal\<lparr>journal_entries := pre\<rparr>"]
    by (intro exI [of _ pre] exI [of _ e'] exI [of _ q] exI [of _ e] exI [of _ d'] exI [of _ x']) simp
qed

theorem journal_result_exact_witness:
  "journal_result \<lparr>journal_run = Ident 1, journal_entries = sample_history\<rparr> = Some (sample_bytes 9) \<longleftrightarrow>
    (\<exists>pre e' q e d x. sample_history = pre @ [e', e] \<and> entry_frame e' = Request q \<and>
       request_kind q = Terminal (sample_bytes 9) \<and>
       entry_frame e = Delivery d \<and> delivery_kind d = Answer (request_ordinal q) x \<and> \<not> ended_in pre \<and>
       \<not> has_outstanding_requests \<lparr>journal_run = Ident 1, journal_entries = pre\<rparr> \<and>
       \<not> has_outstanding_requests \<lparr>journal_run = Ident 1, journal_entries = sample_history\<rparr>)"
proof -
  have "try_new (Ident 1) sample_history = Ok \<lparr>journal_run = Ident 1, journal_entries = sample_history\<rparr>"
    by code_simp
  from journal_result_exact [OF this] show ?thesis by simp
qed

text \<open>
  C16. A program that emits the recorded requests is handed exactly the recorded deliveries, in
  the recorded interleaving, and the cursor then goes live; replay reports no divergence.
\<close>

theorem replay_reproduces_history:
  assumes "reproduces prog (journal_entries journal) (length (journal_entries journal))"
  shows "replay_drive (Suc (length (journal_entries journal))) prog [] (replay_cursor_new journal) =
    Some (Ok (frames (journal_entries journal),
      (cursor_at journal (length (journal_entries journal)))\<lparr>cursor_live := True\<rparr>))"
  using replay_drive_steps [OF assms order.refl, of 1]
  by (simp add: next_instruction_def cursor_at_def cursor_frame_def replay_cursor_new_def)

definition sample_program :: "journal_frame list \<Rightarrow> request_frame" where
  "sample_program seen =
     (if seen = [] then sample_request 1 (Now (sample_bytes 0))
      else sample_request 2 (Terminal (sample_bytes 9)))"

theorem replay_reproduces_history_witness:
  "replay_drive 5 sample_program []
     (replay_cursor_new \<lparr>journal_run = Ident 1, journal_entries = sample_history\<rparr>) =
   Some (Ok (frames sample_history,
     (cursor_at \<lparr>journal_run = Ident 1, journal_entries = sample_history\<rparr> 4)\<lparr>cursor_live := True\<rparr>))"
proof -
  have "reproduces sample_program sample_history 4"
    unfolding reproduces_def
    by (auto simp: less_Suc_eq numeral_eq_Suc sample_history_def sample_entry_def sample_program_def frames_def)
  moreover have "length sample_history = 4" by (simp add: sample_history_def)
  ultimately show ?thesis
    using replay_reproduces_history [of sample_program "\<lparr>journal_run = Ident 1, journal_entries = sample_history\<rparr>"]
    by simp
qed

text \<open>
  C17. At the first request that differs from the recorded one, replay stops with a
  nondeterminism error that names the run and both complete frames, unless the journal already
  persists that divergence as a fault.
\<close>

theorem replay_reports_divergence:
  assumes "reproduces prog es n" and "n < length es"
    and "entry_frame (es ! n) = Request q" and "prog (frames (take n es)) \<noteq> q"
    and "\<forall>e \<in> set (drop (Suc n) es). \<not> persists_divergence q e"
  shows "replay_drive (Suc (length es)) prog []
      (replay_cursor_new \<lparr>journal_run = run, journal_entries = es\<rparr>) =
    Some (Err \<lparr>nondeterminism_run = run, expected = q, observed = prog (frames (take n es))\<rparr>)"
proof -
  let ?j = "\<lparr>journal_run = run, journal_entries = es\<rparr>"
  have none: "find_persisted_divergence q (Suc n) es = None"
  proof (cases "find_persisted_divergence q (Suc n) es")
    case (Some f)
    then have "Suc n \<le> f" "f < length es" "persists_divergence q (es ! f)"
      using find_persisted_divergence_Some by blast+
    then have "es ! f \<in> set (drop (Suc n) es)" 
      by (auto simp: set_conv_nth intro!: exI [of _ "f - Suc n"])
    with \<open>persists_divergence q (es ! f)\<close> assms(5) show ?thesis by blast
  qed
  have "replay_drive (Suc (length es)) prog [] (replay_cursor_new ?j)
      = replay_drive (Suc (length es - n)) prog (frames (take n es)) (cursor_at ?j n)"
    using replay_drive_steps [of prog ?j n "Suc (length es - n)"] assms(1,2) by simp
  also have "\<dots> = Some (Err \<lparr>nondeterminism_run = run, expected = q, observed = prog (frames (take n es))\<rparr>)"
    using none assms(2-4)
    by (simp add: next_instruction_def submit_request_def cursor_frame_def cursor_at_def replay_cursor_new_def)
  finally show ?thesis .
qed

theorem replay_reports_divergence_witness:
  "replay_drive 5 (\<lambda>_. sample_request 1 (Now (sample_bytes 0))) []
     (replay_cursor_new \<lparr>journal_run = Ident 1, journal_entries = sample_history\<rparr>) =
   Some (Err \<lparr>nondeterminism_run = Ident 1, expected = sample_request 2 (Terminal (sample_bytes 9)),
     observed = sample_request 1 (Now (sample_bytes 0))\<rparr>)"
proof -
  let ?prog = "\<lambda>_. sample_request 1 (Now (sample_bytes 0))"
  have "reproduces ?prog sample_history 2"
    unfolding reproduces_def
    by (auto simp: less_Suc_eq numeral_eq_Suc sample_history_def sample_entry_def frames_def)
  moreover have "length sample_history = 4"
    "entry_frame (sample_history ! 2) = Request (sample_request 2 (Terminal (sample_bytes 9)))"
    "\<forall>e \<in> set (drop (Suc 2) sample_history). \<not> persists_divergence (sample_request 2 (Terminal (sample_bytes 9))) e"
    by (simp_all add: sample_history_def sample_entry_def sample_delivery_def)
  moreover have "sample_request 1 (Now (sample_bytes 0)) \<noteq> sample_request 2 (Terminal (sample_bytes 9))"
    by (simp add: sample_request_def)
  ultimately show ?thesis
    using replay_reports_divergence [of ?prog sample_history 2 "sample_request 2 (Terminal (sample_bytes 9))" "Ident 1"]
    by simp
qed

text \<open>
  How a replay that has shown the program the frames \<open>seen\<close> and stands before entry \<open>n\<close> can end: live,
  with those frames kept, or with a divergence at a request from entry \<open>n\<close> on.
\<close>

fun replay_ends_after ::
  "journal_entry list \<Rightarrow> nat \<Rightarrow> journal_frame list
     \<Rightarrow> nondeterminism_error + journal_frame list \<times> replay_cursor \<Rightarrow> bool" where
  "replay_ends_after es n seen (Ok (shown, cursor)) \<longleftrightarrow> take (length seen) shown = seen \<and> cursor_live cursor"
| "replay_ends_after es n seen (Err e) \<longleftrightarrow>
     list_ex (\<lambda>h. entry_frame (es ! h) = Request (expected e)) [n..<length es] \<and> observed e \<noteq> expected e"

lemma replay_ends_earlier:
  "replay_ends_after es m (seen @ new) outcome \<Longrightarrow> n \<le> m \<Longrightarrow> replay_ends_after es n seen outcome"
  by (induction es m "seen @ new" outcome rule: replay_ends_after.induct)
    (auto simp: list_ex_iff dest: arg_cong [where f = "take (length seen)"])

text \<open>Every round consumes an entry, so a replay with more rounds than entries left returns.\<close>

lemma replay_drive_returns:
  assumes "n \<le> length es" and "length es - n < rounds"
  shows "\<exists>outcome. replay_drive rounds prog seen (cursor_at \<lparr>journal_run = run, journal_entries = es\<rparr> n) =
      Some outcome \<and> replay_ends_after es n seen outcome"
  using assms
proof (induction rounds arbitrary: n seen)
  case (Suc rounds)
  let ?at = "cursor_at \<lparr>journal_run = run, journal_entries = es\<rparr>"
  have continue: "\<exists>outcome. replay_drive rounds prog (seen @ new) (?at m) = Some outcome \<and>
      replay_ends_after es n seen outcome" if "n < m" "m \<le> length es" for m new
    using Suc.IH [of m "seen @ new"] Suc.prems that replay_ends_earlier [of es m seen new _ n] by force
  show ?case
  proof (cases "n < length es")
    case False
    with Suc.prems show ?thesis
      by (simp add: next_instruction_def cursor_frame_def cursor_at_def replay_cursor_new_def)
  next
    case inside: True
    show ?thesis
    proof (cases "entry_frame (es ! n)")
      case (Delivery d)
      with inside continue [of "Suc n" "[Delivery d]"] show ?thesis
        by (simp add: next_instruction_def cursor_frame_def cursor_at_def replay_cursor_new_def)
    next
      case (Request q)
      then have await: "next_instruction (?at n) = (Instr_AwaitRequest, ?at n)"
        using inside by (simp add: next_instruction_def cursor_frame_def cursor_at_def replay_cursor_new_def)
      consider m where "n < m" "m \<le> length es" "submit_request (prog seen) (?at n) = Ok (Replay_Matched, ?at m)"
        | "submit_request (prog seen) (?at n) =
            Err \<lparr>nondeterminism_run = run, expected = q, observed = prog seen\<rparr>" "prog seen \<noteq> q"
      proof (cases "prog seen = q")
        case True
        then show thesis
          using inside Request that(1) [of "Suc n"]
          by (simp add: submit_request_def cursor_frame_def cursor_at_def replay_cursor_new_def)
      next
        case False
        show thesis
        proof (cases "find_persisted_divergence q (Suc n) es")
          case None
          with False show thesis
            using inside Request that(2)
            by (simp add: submit_request_def cursor_frame_def cursor_at_def replay_cursor_new_def)
        next
          case (Some g)
          with False show thesis
            using inside Request that(1) [of g] find_persisted_divergence_Some [OF Some]
            by (simp add: submit_request_def cursor_frame_def cursor_at_def replay_cursor_new_def)
        qed
      qed
      then show ?thesis
      proof cases
        case (1 m)
        with await continue [of m "[Request (prog seen)]"] show ?thesis by simp
      next
        case 2
        with await inside Request show ?thesis by (auto simp: list_ex_iff)
      qed
    qed
  qed
qed simp

text \<open>
  C18. Where the journal persists a nondeterminism fault for the diverging request, replay does not
  report the divergence a second time: the cursor moves to the first such fault after the request,
  the fault is the next delivery, and the replay returns within one round more than there are
  entries, either live, having shown the program the common history, its own request and the fault,
  or with a divergence at a request recorded after the fault.
\<close>

theorem replay_reaches_persisted_fault:
  assumes "reproduces prog es n" and "n < length es"
    and "entry_frame (es ! n) = Request q" and "prog (frames (take n es)) \<noteq> q"
    and "n < f" and "f < length es" and "persists_divergence q (es ! f)"
  shows "\<exists>g obs d outcome. n < g \<and> g \<le> f \<and>
    (\<forall>h. n < h \<and> h < g \<longrightarrow> \<not> persists_divergence q (es ! h)) \<and>
    entry_frame (es ! g) = Delivery d \<and> delivery_kind d = Fault (Fault_Nondeterminism q obs) \<and>
    submit_request (prog (frames (take n es))) (cursor_at \<lparr>journal_run = run, journal_entries = es\<rparr> n) =
      Ok (Replay_Matched, cursor_at \<lparr>journal_run = run, journal_entries = es\<rparr> g) \<and>
    next_instruction (cursor_at \<lparr>journal_run = run, journal_entries = es\<rparr> g) =
      (Instr_Deliver d, cursor_at \<lparr>journal_run = run, journal_entries = es\<rparr> (Suc g)) \<and>
    replay_drive (Suc (length es)) prog []
      (replay_cursor_new \<lparr>journal_run = run, journal_entries = es\<rparr>) = Some outcome \<and>
    replay_ends_after es (Suc g)
      (frames (take n es) @ [Request (prog (frames (take n es))), Delivery d]) outcome"
proof -
  let ?j = "\<lparr>journal_run = run, journal_entries = es\<rparr>" and ?p = "prog (frames (take n es))"
  have "find_persisted_divergence q (Suc n) es \<noteq> None"
    using assms(5-7) by (auto simp: find_persisted_divergence_def find_None_iff)
  then obtain g where g: "find_persisted_divergence q (Suc n) es = Some g" by blast
  have first: "\<not> persists_divergence q (es ! h)" if "n < h" "h < g" for h
    using find_upt_first [of _ "Suc n" "length es" g h] g that
    unfolding find_persisted_divergence_def by (metis Suc_leI)
  have gp: "n < g" "g < length es" "persists_divergence q (es ! g)"
    using find_persisted_divergence_Some [OF g] by auto
  have "g \<le> f" using first [of f] assms(5,7) by (meson not_le)
  obtain d obs where d: "entry_frame (es ! g) = Delivery d" "delivery_kind d = Fault (Fault_Nondeterminism q obs)"
    using gp(3) by (auto split: journal_frame.splits delivery_kind.splits program_fault.splits)
  have submit: "submit_request ?p (cursor_at ?j n) = Ok (Replay_Matched, cursor_at ?j g)"
    using g assms(2-4) by (simp add: submit_request_def cursor_frame_def cursor_at_def replay_cursor_new_def)
  have deliver: "next_instruction (cursor_at ?j g) = (Instr_Deliver d, cursor_at ?j (Suc g))"
    using gp d by (simp add: next_instruction_def cursor_frame_def cursor_at_def replay_cursor_new_def)
  obtain m where m: "length es = Suc m + n" "length es - Suc g < m"
    using gp(1,2) that [of "length es - Suc n"] by simp
  have "replay_drive (Suc (length es)) prog [] (replay_cursor_new ?j) =
      replay_drive (Suc (Suc m)) prog (frames (take n es)) (cursor_at ?j n)"
    using replay_drive_steps [of prog ?j n "Suc (Suc m)"] assms(1,2) m(1) by (simp del: replay_drive.simps)
  also have "\<dots> = replay_drive m prog (frames (take n es) @ [Request ?p, Delivery d]) (cursor_at ?j (Suc g))"
  proof -
    have "next_instruction (cursor_at ?j n) = (Instr_AwaitRequest, cursor_at ?j n)"
      using assms(2,3) by (simp add: next_instruction_def cursor_frame_def cursor_at_def replay_cursor_new_def)
    then show ?thesis by (simp add: submit deliver)
  qed
  finally obtain outcome where "replay_drive (Suc (length es)) prog [] (replay_cursor_new ?j) = Some outcome"
    "replay_ends_after es (Suc g) (frames (take n es) @ [Request ?p, Delivery d]) outcome"
    using replay_drive_returns [of "Suc g" es m prog _ run] gp(2) m(2) by (metis Suc_leI)
  with gp(1) \<open>g \<le> f\<close> first d submit deliver show ?thesis by blast
qed

definition sample_fault :: delivery_frame where
  "sample_fault = sample_delivery 1 (Fault (Fault_Nondeterminism
     (sample_request 1 (Now (sample_bytes 0))) (sample_request 1 (Random (sample_bytes 0)))))"

definition sample_faulted :: "journal_entry list" where
  "sample_faulted =
     [sample_entry 1 (Request (sample_request 1 (Now (sample_bytes 0)))),
      sample_entry 2 (Delivery sample_fault)]"

theorem replay_reaches_persisted_fault_witness:
  "\<exists>shown cursor. replay_drive 3 (\<lambda>_. sample_request 1 (Sleep (sample_bytes 0))) []
      (replay_cursor_new \<lparr>journal_run = Ident 1, journal_entries = sample_faulted\<rparr>) = Some (Ok (shown, cursor)) \<and>
    take 2 shown = [Request (sample_request 1 (Sleep (sample_bytes 0))), Delivery sample_fault] \<and>
    cursor_live cursor"
proof -
  have len: "length sample_faulted = 2" by (simp add: sample_faulted_def)
  moreover have "entry_frame (sample_faulted ! 0) = Request (sample_request 1 (Now (sample_bytes 0)))"
    "persists_divergence (sample_request 1 (Now (sample_bytes 0))) (sample_faulted ! 1)"
    "sample_request 1 (Sleep (sample_bytes 0)) \<noteq> sample_request 1 (Now (sample_bytes 0))"
    by (simp_all add: sample_faulted_def sample_fault_def sample_entry_def sample_delivery_def sample_request_def)
  ultimately obtain g d outcome where g: "0 < g" "g \<le> 1" "entry_frame (sample_faulted ! g) = Delivery d"
    and outcome: "replay_drive 3 (\<lambda>_. sample_request 1 (Sleep (sample_bytes 0))) []
      (replay_cursor_new \<lparr>journal_run = Ident 1, journal_entries = sample_faulted\<rparr>) = Some outcome"
    "replay_ends_after sample_faulted (Suc g)
      [Request (sample_request 1 (Sleep (sample_bytes 0))), Delivery d] outcome"
    using replay_reaches_persisted_fault [of "\<lambda>_. sample_request 1 (Sleep (sample_bytes 0))" sample_faulted 0
        "sample_request 1 (Now (sample_bytes 0))" 1 "Ident 1"]
    by (auto simp: reproduces_def frames_def simp del: replay_drive.simps)
  have "g = 1" using g(1,2) by simp
  moreover from this have "d = sample_fault" using g(3) by (simp add: sample_faulted_def sample_entry_def)
  ultimately show ?thesis
    using outcome len by (cases outcome) (auto simp: numeral_2_eq_2)
qed

end
