(* ===== verification/Session_Lifecycle.thy ===== *)
theory Session_Lifecycle
  imports Prelude
begin

text \<open>
  The durable session lifecycle, \<^verbatim>\<open>src/crates/domain/src/session_lifecycle.rs\<close>, with the
  actor provenance of \<^verbatim>\<open>src/crates/domain/src/actor.rs\<close>: eight states with their typed
  detail, the transition algebra between them, the closed outcome vocabulary, deadlines and
  ownership.
\<close>

section \<open>Actors\<close>

datatype program_actor = ProgramActor (program_actor_run: program_run_id)

datatype actor =
    Actor_User
  | Actor_Core
  | Actor_Model turn_id
  | Actor_Program program_actor
  | Actor_Recovery
  | Actor_Tool tool_request_id

datatype dispatching_module = Module_RepositoryWatch | Module_CommissionedDispatch

datatype module_dispatch =
    Dispatch_RepositoryWatch repo_watch_dispatch_id
  | Dispatch_Commissioned commissioned_dispatch_id

fun module_of :: "module_dispatch \<Rightarrow> dispatching_module" where
  "module_of (Dispatch_RepositoryWatch _) = Module_RepositoryWatch"
| "module_of (Dispatch_Commissioned _) = Module_CommissionedDispatch"

datatype core_agency = Agency_Daemon | Agency_Model turn_id | Agency_Tool tool_request_id

datatype lifecycle_actor =
    LA_Core core_agency
  | LA_Operator
  | LA_Module dispatching_module
  | LA_Watchdog

fun classify :: "actor \<Rightarrow> lifecycle_actor option" where
  "classify Actor_User = Some LA_Operator"
| "classify Actor_Core = Some (LA_Core Agency_Daemon)"
| "classify Actor_Recovery = Some LA_Watchdog"
| "classify (Actor_Model turn) = Some (LA_Core (Agency_Model turn))"
| "classify (Actor_Tool request) = Some (LA_Core (Agency_Tool request))"
| "classify (Actor_Program _) = None"

section \<open>Ownership\<close>

datatype session_ownership = Owned | Unmonitored

fun is_owned :: "session_ownership \<Rightarrow> bool" where
  "is_owned Owned = True"
| "is_owned Unmonitored = False"

datatype session_ownership_transition = CreatedOwned | CreatedUnmonitored | Adopted | Released

fun ownership :: "session_ownership_transition \<Rightarrow> session_ownership" where
  "ownership CreatedOwned = Owned"
| "ownership Adopted = Owned"
| "ownership CreatedUnmonitored = Unmonitored"
| "ownership Released = Unmonitored"

section \<open>State detail\<close>

datatype session_wait_kind =
    WaitKind_Approval | WaitKind_External | WaitKind_Child | WaitKind_ProviderRetry
  | WaitKind_Pipeline | WaitKind_Scheduler

datatype session_waker =
    ApprovalDecision | ExternalRecheck | ChildSettlement | ProviderBackoff | PipelineDrain
  | SchedulerSweep

datatype session_wait =
    Wait_Approval | Wait_External | Wait_Child session_id | Wait_ProviderRetry | Wait_Pipeline
  | Wait_Scheduler

fun wait_kind :: "session_wait \<Rightarrow> session_wait_kind" where
  "wait_kind Wait_Approval = WaitKind_Approval"
| "wait_kind Wait_External = WaitKind_External"
| "wait_kind (Wait_Child _) = WaitKind_Child"
| "wait_kind Wait_ProviderRetry = WaitKind_ProviderRetry"
| "wait_kind Wait_Pipeline = WaitKind_Pipeline"
| "wait_kind Wait_Scheduler = WaitKind_Scheduler"

fun wait_waker :: "session_wait \<Rightarrow> session_waker" where
  "wait_waker Wait_Approval = ApprovalDecision"
| "wait_waker Wait_External = ExternalRecheck"
| "wait_waker (Wait_Child _) = ChildSettlement"
| "wait_waker Wait_ProviderRetry = ProviderBackoff"
| "wait_waker Wait_Pipeline = PipelineDrain"
| "wait_waker Wait_Scheduler = SchedulerSweep"

datatype session_recovery_operation = Recover_ModelCall | Recover_Tool | Recover_Runner

datatype session_retryable_cause =
    ProviderTransient | ProviderQuotaExhausted | ProviderOverloaded | InfrastructureFailure
  | RetryBudgetExhausted_Cause

datatype session_structural_cause =
    ContextCompactionWall | ContextHeadroomExhausted | BrokenToolchain | ModerationBlock

datatype session_retirement_cause = AdmissionDeadlineExpired | StrandedQueuedTurn

datatype session_failure_cause =
    Retryable session_retryable_cause
  | Structural session_structural_cause

datatype session_park_cause =
    RetryBudgetExhausted | StructuralFailure | UnknownFailure | ActiveStallDeadlineExpired
  | WaitingDeadlineExpired | RecoveringDeadlineExpired | OperatorHold | ModulePark

fun admits_standing :: "session_park_cause \<Rightarrow> session_failure_cause option \<Rightarrow> bool" where
  "admits_standing RetryBudgetExhausted (Some (Retryable _)) = True"
| "admits_standing StructuralFailure (Some (Structural _)) = True"
| "admits_standing RetryBudgetExhausted _ = False"
| "admits_standing StructuralFailure _ = False"
| "admits_standing _ standing = (standing = None)"

datatype session_park_responder = Responder_Operator | Responder_Module dispatching_module

datatype stop_stickiness = Sticky | Redispatchable

datatype session_terminal_outcome =
    AchievedVerified
  | AchievedDeclared
  | FailedRetryable session_retryable_cause
  | FailedStructural session_structural_cause
  | FailedUnknown
  | Stopped stop_stickiness
  | Superseded_By "session_id option"
  | Abandoned
  | Retired session_retirement_cause

datatype session_closure_outcome =
    Closure_FailedRetryable | Closure_FailedStructural | Closure_FailedUnknown | Closure_Stopped
  | Closure_Superseded | Closure_Abandoned | Closure_Retired

fun closure_outcome :: "session_terminal_outcome \<Rightarrow> session_closure_outcome option" where
  "closure_outcome AchievedVerified = None"
| "closure_outcome AchievedDeclared = None"
| "closure_outcome (Stopped _) = Some Closure_Stopped"
| "closure_outcome (FailedRetryable _) = Some Closure_FailedRetryable"
| "closure_outcome (FailedStructural _) = Some Closure_FailedStructural"
| "closure_outcome FailedUnknown = Some Closure_FailedUnknown"
| "closure_outcome (Superseded_By _) = Some Closure_Superseded"
| "closure_outcome Abandoned = Some Closure_Abandoned"
| "closure_outcome (Retired _) = Some Closure_Retired"

fun forbids_further_escalation :: "session_terminal_outcome \<Rightarrow> bool" where
  "forbids_further_escalation (Superseded_By _) = True"
| "forbids_further_escalation _ = False"

definition releases_resources :: "session_terminal_outcome \<Rightarrow> bool" where
  "releases_resources outcome = True"

text \<open>\<^verbatim>\<open>GoalBlockedReasonKind\<close> is declared in \<^verbatim>\<open>src/crates/domain/src/goal.rs\<close>.\<close>

datatype goal_blocked_reason_kind =
    UserInputRequired | ExternalChangeRequired | AuthorizationRequired | ExecutionFailure
  | FinishCheckFailed

section \<open>States and transitions\<close>

datatype session_lifecycle_state =
    Created
  | Dispatched
  | Active
  | Waiting session_wait
  | Recovering session_recovery_operation
  | Session_Blocked goal_blocked_reason_kind u64
  | Parked session_park_cause session_park_responder "session_failure_cause option"
  | Session_Terminal session_terminal_outcome

fun is_terminal_state :: "session_lifecycle_state \<Rightarrow> bool" where
  "is_terminal_state (Session_Terminal _) = True"
| "is_terminal_state _ = False"

fun is_parked :: "session_lifecycle_state \<Rightarrow> bool" where
  "is_parked (Parked _ _ _) = True"
| "is_parked _ = False"

fun is_mapped :: "session_lifecycle_state \<Rightarrow> bool" where
  "is_mapped Active = True"
| "is_mapped (Waiting _) = True"
| "is_mapped (Recovering _) = True"
| "is_mapped (Session_Blocked _ _) = True"
| "is_mapped _ = False"

fun admits_outcome :: "session_lifecycle_state \<Rightarrow> session_terminal_outcome \<Rightarrow> bool" where
  "admits_outcome Created (Retired AdmissionDeadlineExpired) = True"
| "admits_outcome Dispatched (Retired AdmissionDeadlineExpired) = True"
| "admits_outcome Dispatched (Retired StrandedQueuedTurn) = True"
| "admits_outcome _ (Retired _) = False"
| "admits_outcome state _ = (\<not> is_terminal_state state)"

text \<open>The arms are in the order of the source's \<^verbatim>\<open>match (self, target)\<close>.\<close>

definition admits :: "session_lifecycle_state \<Rightarrow> session_lifecycle_state \<Rightarrow> bool" where
  "admits state target =
     (case (state, target) of
        (Parked _ _ _, Created) \<Rightarrow> True
      | (Parked _ _ _, Dispatched) \<Rightarrow> True
      | (Session_Terminal _, _) \<Rightarrow> False
      | (_, Created) \<Rightarrow> False
      | (_, Session_Terminal outcome) \<Rightarrow> admits_outcome state outcome
      | (Created, Dispatched) \<Rightarrow> True
      | (Created, Parked ModulePark _ _) \<Rightarrow> True
      | (Created, Parked UnknownFailure _ _) \<Rightarrow> True
      | (Dispatched, Parked ModulePark _ _) \<Rightarrow> True
      | (Dispatched, Parked UnknownFailure _ _) \<Rightarrow> True
      | (Created, _) \<Rightarrow> False
      | (Dispatched, Parked _ _ _) \<Rightarrow> False
      | (Dispatched, _) \<Rightarrow> is_mapped target
      | (Parked _ _ _, _) \<Rightarrow> is_mapped target
      | (_, Parked _ _ _) \<Rightarrow> is_mapped state
      | _ \<Rightarrow> is_mapped state \<and> is_mapped target)"

record session_lifecycle_transition_error =
  transition_from :: session_lifecycle_state
  transition_to :: session_lifecycle_state

definition transition ::
  "session_lifecycle_state \<Rightarrow> session_lifecycle_state
     \<Rightarrow> session_lifecycle_transition_error + session_lifecycle_state" where
  "transition state target =
     (if admits state target then Ok target
      else Err \<lparr>transition_from = state, transition_to = target\<rparr>)"

section \<open>Deadlines\<close>

datatype session_deadline_expiry = Retire | Park

datatype session_deadline_kind = Deadline_Admission | Deadline_ActiveStall | Deadline_Waiting

fun on_expiry :: "session_deadline_kind \<Rightarrow> session_deadline_expiry" where
  "on_expiry Deadline_Admission = Retire"
| "on_expiry Deadline_ActiveStall = Park"
| "on_expiry Deadline_Waiting = Park"

fun for_state :: "session_lifecycle_state \<Rightarrow> session_deadline_kind option" where
  "for_state Created = Some Deadline_Admission"
| "for_state Dispatched = Some Deadline_Admission"
| "for_state Active = Some Deadline_ActiveStall"
| "for_state (Recovering _) = Some Deadline_ActiveStall"
| "for_state (Waiting _) = Some Deadline_Waiting"
| "for_state (Session_Blocked _ _) = None"
| "for_state (Parked _ _ _) = None"
| "for_state (Session_Terminal _) = None"

section \<open>The lifecycle as a machine\<close>

definition request_transition ::
  "session_lifecycle_state \<Rightarrow> session_lifecycle_state
     \<Rightarrow> session_lifecycle_transition_error + session_lifecycle_state" where
  "request_transition target state = transition state target"

interpretation session_lifecycle: retaining_machine request_transition "\<lambda>_. True" transition_from
  by unfold_locales (auto simp: request_transition_def transition_def split: if_splits)

lemma terminal_admits_nothing: "is_terminal_state state \<Longrightarrow> \<not> admits state target"
  by (cases state; cases target) (auto simp: admits_def)

interpretation session_lifecycle: closing_machine request_transition "\<lambda>_. True" is_terminal_state
  by unfold_locales (auto simp: request_transition_def transition_def terminal_admits_nothing)

lemma admits_iff:
  "admits state target \<longleftrightarrow>
     \<not> is_terminal_state state \<and>
     (case target of
        Created \<Rightarrow> is_parked state
      | Dispatched \<Rightarrow> state = Created \<or> is_parked state
      | Session_Terminal outcome \<Rightarrow> admits_outcome state outcome
      | Parked cause _ _ \<Rightarrow> is_mapped state \<or>
          (state = Created \<or> state = Dispatched) \<and> (cause = ModulePark \<or> cause = UnknownFailure)
      | _ \<Rightarrow> state \<noteq> Created)"
proof (cases target)
  case (Parked cause responder standing)
  then show ?thesis by (cases state; cases cause) (auto simp: admits_def)
next
  case (Session_Terminal outcome)
  then show ?thesis by (cases state) (auto simp: admits_def)
qed (cases state; auto simp: admits_def)+

lemma admits_outcome_iff:
  "admits_outcome state outcome \<longleftrightarrow>
     (case outcome of
        Retired cause \<Rightarrow> state = Dispatched \<or> state = Created \<and> cause = AdmissionDeadlineExpired
      | _ \<Rightarrow> \<not> is_terminal_state state)"
proof (cases outcome)
  case (Retired cause)
  then show ?thesis by (cases state; cases cause) auto
qed auto

lemma accepted_transition: "request_transition target state = Ok result \<longleftrightarrow> result = target \<and> admits state target"
  by (auto simp: request_transition_def transition_def)

section \<open>Properties\<close>

text \<open>
  C19. A session that reached a terminal outcome was closed by one transition from a reachable
  non-terminal state that admits that outcome; it was retired only from the two admission
  states, and by the queued-turn closure only when dispatched. Whatever transitions are
  requested afterwards, it keeps that outcome.
\<close>

theorem session_closed_once:
  assumes "steps_to request_transition Created (Session_Terminal outcome)"
  shows "(\<exists>state. steps_to request_transition Created state \<and> \<not> is_terminal_state state \<and>
      transition state (Session_Terminal outcome) = Ok (Session_Terminal outcome) \<and>
      (\<forall>cause. outcome = Retired cause \<longrightarrow>
         state = Dispatched \<or> state = Created \<and> cause = AdmissionDeadlineExpired)) \<and>
    fold (continue_with transition_from request_transition) targets (Session_Terminal outcome)
      = Session_Terminal outcome"
proof
  from assms obtain state where "steps_to request_transition Created state"
    and "request_transition (Session_Terminal outcome) state = Ok (Session_Terminal outcome)"
    by (cases rule: steps_to.cases) (auto simp: accepted_transition)
  then show "\<exists>state. steps_to request_transition Created state \<and> \<not> is_terminal_state state \<and>
      transition state (Session_Terminal outcome) = Ok (Session_Terminal outcome) \<and>
      (\<forall>cause. outcome = Retired cause \<longrightarrow>
         state = Dispatched \<or> state = Created \<and> cause = AdmissionDeadlineExpired)"
    by (intro exI [of _ state])
      (auto simp: request_transition_def transition_def admits_iff admits_outcome_iff split: if_splits)
  show "fold (continue_with transition_from request_transition) targets (Session_Terminal outcome)
      = Session_Terminal outcome"
    by (simp add: session_lifecycle.continue_with_run_ops session_lifecycle.closed_stays)
qed

theorem session_closed_once_witness:
  "fold (continue_with transition_from request_transition) [Active]
     (Session_Terminal (Retired StrandedQueuedTurn)) = Session_Terminal (Retired StrandedQueuedTurn) \<and>
   (\<exists>state. steps_to request_transition Created state \<and> state = Dispatched)"
proof -
  have d: "steps_to request_transition Created Dispatched"
    using steps_next [OF steps_refl, of request_transition Dispatched Created]
    by (simp add: accepted_transition admits_iff)
  have "request_transition (Session_Terminal (Retired StrandedQueuedTurn)) Dispatched
      = Ok (Session_Terminal (Retired StrandedQueuedTurn))"
    by (simp add: accepted_transition admits_iff admits_outcome_iff)
  with d have "steps_to request_transition Created (Session_Terminal (Retired StrandedQueuedTurn))"
    by (rule steps_next)
  from session_closed_once [OF this, of "[Active]"] d show ?thesis by blast
qed

text \<open>
  C20. The transition an expired deadline fires is admitted from every state that arms the
  deadline: admission deadlines retire the session, the others park it, whatever the recorded
  cause and responder.
\<close>

theorem deadline_expiry_admitted:
  assumes "for_state state = Some kind"
  shows "(on_expiry kind = Retire \<longrightarrow>
      transition state (Session_Terminal (Retired AdmissionDeadlineExpired))
        = Ok (Session_Terminal (Retired AdmissionDeadlineExpired))) \<and>
    (on_expiry kind = Park \<longrightarrow>
      transition state (Parked cause responder standing) = Ok (Parked cause responder standing))"
  using assms by (cases state) (auto simp: transition_def admits_iff admits_outcome_iff)

theorem deadline_expiry_admitted_witness:
  "for_state (Waiting Wait_Approval) = Some Deadline_Waiting \<and> on_expiry Deadline_Waiting = Park \<and>
   transition (Waiting Wait_Approval) (Parked WaitingDeadlineExpired Responder_Operator None)
     = Ok (Parked WaitingDeadlineExpired Responder_Operator None)"
  using deadline_expiry_admitted [of "Waiting Wait_Approval" Deadline_Waiting WaitingDeadlineExpired
    Responder_Operator None]
  by simp

end
