(* ===== verification/Goal_Lineage.thy ===== *)
theory Goal_Lineage
  imports Session_Lifecycle
begin

text \<open>
  Commissioned goals, \<^verbatim>\<open>src/crates/domain/src/goal.rs\<close>: immutable statement generations, the
  append-only event history, every transition of the aggregate, and the reconstitution of an
  aggregate from its stored events. Reconstitution is proved to be the exact inverse of
  appending events through transitions.
\<close>

section \<open>Texts and ordinals\<close>

text \<open>
  The macro \<^verbatim>\<open>goal_text!\<close> generates five copies of one bounded text type; here they are one
  type with a phantom tag. \<^verbatim>\<open>contains('\0')\<close> asks for a zero byte: no other UTF-8 sequence
  has one.
\<close>

datatype (dead 'tag) goal_text = GoalText (goal_text_bytes: utf8)

datatype goal_text_error = Text_Empty | Text_ContainsNull | Text_Oversized nat

definition max_goal_text_utf8_bytes :: nat where
  "max_goal_text_utf8_bytes = 1048576"

definition validate_goal_text :: "utf8 \<Rightarrow> goal_text_error + unit" where
  "validate_goal_text value =
     (if value = [] then Err Text_Empty
      else if 0 \<in> set value then Err Text_ContainsNull
      else if length value > max_goal_text_utf8_bytes then Err (Text_Oversized (length value))
      else Ok ())"

definition goal_text_try_new :: "utf8 \<Rightarrow> goal_text_error + 'tag goal_text" where
  "goal_text_try_new value =
     (case validate_goal_text value of Err e \<Rightarrow> Err e | Ok _ \<Rightarrow> Ok (GoalText value))"

datatype statement_tag = StatementTag
datatype need_tag = NeedTag
datatype guidance_tag = GuidanceTag
datatype report_tag = ReportTag

type_synonym goal_statement = "statement_tag goal_text"
type_synonym goal_need = "need_tag goal_text"
type_synonym goal_guidance = "guidance_tag goal_text"
type_synonym goal_report = "report_tag goal_text"

datatype goal_generation = GoalGeneration (generation_get: u64)

definition generation_first :: goal_generation where
  "generation_first = GoalGeneration 1"

definition generation_successor :: "goal_generation \<Rightarrow> goal_generation option" where
  "generation_successor g = map_option GoalGeneration (checked_succ (generation_get g))"

datatype goal_event_ordinal = GoalEventOrdinal (event_ordinal_get: u64)

definition event_ordinal_first :: goal_event_ordinal where
  "event_ordinal_first = GoalEventOrdinal 1"

definition event_ordinal_successor :: "goal_event_ordinal \<Rightarrow> goal_event_ordinal option" where
  "event_ordinal_successor o' = map_option GoalEventOrdinal (checked_succ (event_ordinal_get o'))"

section \<open>Provenance and states\<close>

datatype goal_turn_source = UserEvent goal_event_ordinal | PredecessorTurn turn_id

datatype goal_user_provenance = GoalUserProvenance (user_command: durable_command_id)

record goal_model_provenance =
  model_turn :: turn_id
  model_tool_request :: tool_request_id

datatype goal_scheduler_provenance = GoalSchedulerProvenance (scheduler_turn: turn_id)

record goal_report_ref =
  report_turn :: turn_id
  report_tool_request :: "tool_request_id option"

definition model_report_ref :: "goal_model_provenance \<Rightarrow> goal_report_ref" where
  "model_report_ref p =
     \<lparr>report_turn = model_turn p, report_tool_request = Some (model_tool_request p)\<rparr>"

text \<open>\<^verbatim>\<open>CommitSha\<close> and \<^verbatim>\<open>ReviewThreadId\<close> are validated texts of the repository-watch module.\<close>

datatype commit_sha = CommitSha utf8
datatype review_thread_id = ReviewThreadId utf8

datatype goal_achievement_provenance =
    Achieved_Model goal_model_provenance
  | Achieved_Verified turn_id commit_sha "review_thread_id list"

fun achievement_report_ref :: "goal_achievement_provenance \<Rightarrow> goal_report_ref" where
  "achievement_report_ref (Achieved_Model model) = model_report_ref model"
| "achievement_report_ref (Achieved_Verified turn _ _) =
     \<lparr>report_turn = turn, report_tool_request = None\<rparr>"

datatype goal_model_blocked_reason_kind =
    Model_UserInputRequired | Model_ExternalChangeRequired | Model_AuthorizationRequired

fun blocked_reason_from_model :: "goal_model_blocked_reason_kind \<Rightarrow> goal_blocked_reason_kind" where
  "blocked_reason_from_model Model_UserInputRequired = UserInputRequired"
| "blocked_reason_from_model Model_ExternalChangeRequired = ExternalChangeRequired"
| "blocked_reason_from_model Model_AuthorizationRequired = AuthorizationRequired"

datatype goal_block_provenance =
    Block_Model goal_model_blocked_reason_kind goal_model_provenance
  | Block_ExecutionFailure goal_scheduler_provenance
  | Block_FinishCheck goal_model_provenance

fun reason_kind :: "goal_block_provenance \<Rightarrow> goal_blocked_reason_kind" where
  "reason_kind (Block_Model Model_UserInputRequired _) = UserInputRequired"
| "reason_kind (Block_Model Model_ExternalChangeRequired _) = ExternalChangeRequired"
| "reason_kind (Block_Model Model_AuthorizationRequired _) = AuthorizationRequired"
| "reason_kind (Block_ExecutionFailure _) = ExecutionFailure"
| "reason_kind (Block_FinishCheck _) = FinishCheckFailed"

datatype goal_state =
    Pursuing
  | Blocked goal_blocked_reason_kind goal_need
  | Achieved goal_report_ref
  | UserStopped
  | Superseded goal_generation
  | SessionClosed session_closure_outcome

fun is_pursuing :: "goal_state \<Rightarrow> bool" where
  "is_pursuing Pursuing = True"
| "is_pursuing _ = False"

fun is_blocked :: "goal_state \<Rightarrow> bool" where
  "is_blocked (Blocked _ _) = True"
| "is_blocked _ = False"

fun is_open :: "goal_state \<Rightarrow> bool" where
  "is_open Pursuing = True"
| "is_open (Blocked _ _) = True"
| "is_open _ = False"

fun admits_later_commission :: "goal_state \<Rightarrow> bool" where
  "admits_later_commission (Achieved _) = True"
| "admits_later_commission UserStopped = True"
| "admits_later_commission _ = False"

section \<open>Events and the aggregate\<close>

datatype goal_event_kind =
    Event_Commissioned goal_statement goal_user_provenance
  | Event_Blocked goal_block_provenance goal_need
  | Event_Resumed "goal_guidance option" goal_user_provenance
  | Event_Achieved goal_report goal_achievement_provenance
  | Event_UserStopped goal_user_provenance
  | Event_Superseded goal_statement goal_user_provenance
  | Event_SessionClosed session_closure_outcome lifecycle_actor

record goal_generation_snapshot =
  snapshot_generation :: goal_generation
  snapshot_statement :: goal_statement
  snapshot_state :: goal_state

record goal_event =
  event_ordinal :: goal_event_ordinal
  event_generation :: goal_generation
  event_kind :: goal_event_kind

record goal =
  goal_session :: session_id
  goal_generations :: "goal_generation_snapshot list"
  goal_events :: "goal_event list"

datatype goal_transition_failure =
    RequiresPursuing
  | RequiresBlocked
  | RequiresPursuingOrBlocked
  | RequiresNoActiveGoal
  | GenerationExhausted
  | EventOrdinalExhausted

record goal_transition_error =
  error_goal :: goal
  error_failure :: goal_transition_failure

definition rejected :: "goal \<Rightarrow> goal_transition_failure \<Rightarrow> goal_transition_error + 'a" where
  "rejected g failure = Err \<lparr>error_goal = g, error_failure = failure\<rparr>"

definition commission ::
  "session_id \<Rightarrow> goal_statement \<Rightarrow> goal_user_provenance \<Rightarrow> goal" where
  "commission session statement provenance =
     \<lparr>goal_session = session,
      goal_generations =
        [\<lparr>snapshot_generation = generation_first, snapshot_statement = statement,
          snapshot_state = Pursuing\<rparr>],
      goal_events =
        [\<lparr>event_ordinal = event_ordinal_first, event_generation = generation_first,
          event_kind = Event_Commissioned statement provenance\<rparr>]\<rparr>"

text \<open>\<^verbatim>\<open>current\<close> and \<^verbatim>\<open>current_mut\<close> index the last generation; every constructor makes one.\<close>

definition current :: "goal \<Rightarrow> goal_generation_snapshot" where
  "current g = last (goal_generations g)"

definition set_current_state :: "goal_state \<Rightarrow> goal \<Rightarrow> goal" where
  "set_current_state state g =
     g\<lparr>goal_generations := butlast (goal_generations g) @ [(current g)\<lparr>snapshot_state := state\<rparr>]\<rparr>"

definition next_ordinal :: "goal \<Rightarrow> goal_transition_error + goal_event_ordinal" where
  "next_ordinal g =
     (case event_ordinal_successor (event_ordinal (last (goal_events g))) of
        None \<Rightarrow> rejected g EventOrdinalExhausted
      | Some ordinal \<Rightarrow> Ok ordinal)"

definition push_event ::
  "goal_event_ordinal \<Rightarrow> goal_generation \<Rightarrow> goal_event_kind \<Rightarrow> goal \<Rightarrow> goal" where
  "push_event ordinal generation kind g =
     g\<lparr>goal_events := goal_events g @
       [\<lparr>event_ordinal = ordinal, event_generation = generation, event_kind = kind\<rparr>]\<rparr>"

definition push_generation :: "goal_generation \<Rightarrow> goal_statement \<Rightarrow> goal \<Rightarrow> goal" where
  "push_generation generation statement g =
     g\<lparr>goal_generations := goal_generations g @
       [\<lparr>snapshot_generation = generation, snapshot_statement = statement,
         snapshot_state = Pursuing\<rparr>]\<rparr>"

section \<open>Transitions\<close>

definition commission_successor ::
  "goal_statement \<Rightarrow> goal_user_provenance \<Rightarrow> goal \<Rightarrow> goal_transition_error + goal" where
  "commission_successor statement provenance g =
     (if \<not> admits_later_commission (snapshot_state (current g))
      then rejected g RequiresNoActiveGoal
      else case next_ordinal g of
        Err e \<Rightarrow> Err e
      | Ok ordinal \<Rightarrow>
          (case generation_successor (snapshot_generation (current g)) of
             None \<Rightarrow> rejected g GenerationExhausted
           | Some generation \<Rightarrow>
               Ok (push_event ordinal generation (Event_Commissioned statement provenance)
                    (push_generation generation statement g))))"

definition block ::
  "goal_block_provenance \<Rightarrow> goal_need \<Rightarrow> goal \<Rightarrow> goal_transition_error + goal" where
  "block provenance need g =
     (if \<not> is_pursuing (snapshot_state (current g)) then rejected g RequiresPursuing
      else case next_ordinal g of
        Err e \<Rightarrow> Err e
      | Ok ordinal \<Rightarrow>
          Ok (push_event ordinal (snapshot_generation (current g)) (Event_Blocked provenance need)
               (set_current_state (Blocked (reason_kind provenance) need) g)))"

definition declare_blocked ::
  "goal_model_blocked_reason_kind \<Rightarrow> goal_need \<Rightarrow> goal_model_provenance \<Rightarrow> goal
     \<Rightarrow> goal_transition_error + goal" where
  "declare_blocked reason need provenance g = block (Block_Model reason provenance) need g"

definition block_execution_failure ::
  "goal_need \<Rightarrow> goal_scheduler_provenance \<Rightarrow> goal \<Rightarrow> goal_transition_error + goal" where
  "block_execution_failure need provenance g = block (Block_ExecutionFailure provenance) need g"

definition block_finish_check ::
  "goal_need \<Rightarrow> goal_model_provenance \<Rightarrow> goal \<Rightarrow> goal_transition_error + goal" where
  "block_finish_check need provenance g = block (Block_FinishCheck provenance) need g"

definition resume ::
  "goal_guidance option \<Rightarrow> goal_user_provenance \<Rightarrow> goal \<Rightarrow> goal_transition_error + goal" where
  "resume guidance provenance g =
     (if \<not> is_blocked (snapshot_state (current g)) then rejected g RequiresBlocked
      else case next_ordinal g of
        Err e \<Rightarrow> Err e
      | Ok ordinal \<Rightarrow>
          Ok (push_event ordinal (snapshot_generation (current g)) (Event_Resumed guidance provenance)
               (set_current_state Pursuing g)))"

definition achieve ::
  "goal_report \<Rightarrow> goal_achievement_provenance \<Rightarrow> goal \<Rightarrow> goal_transition_error + goal" where
  "achieve report provenance g =
     (if \<not> is_pursuing (snapshot_state (current g)) then rejected g RequiresPursuing
      else case next_ordinal g of
        Err e \<Rightarrow> Err e
      | Ok ordinal \<Rightarrow>
          Ok (push_event ordinal (snapshot_generation (current g)) (Event_Achieved report provenance)
               (set_current_state (Achieved (achievement_report_ref provenance)) g)))"

definition declare_achieved ::
  "goal_report \<Rightarrow> goal_model_provenance \<Rightarrow> goal \<Rightarrow> goal_transition_error + goal" where
  "declare_achieved report provenance g = achieve report (Achieved_Model provenance) g"

definition stop :: "goal_user_provenance \<Rightarrow> goal \<Rightarrow> goal_transition_error + goal" where
  "stop provenance g =
     (if \<not> is_open (snapshot_state (current g)) then rejected g RequiresPursuingOrBlocked
      else case next_ordinal g of
        Err e \<Rightarrow> Err e
      | Ok ordinal \<Rightarrow>
          Ok (push_event ordinal (snapshot_generation (current g)) (Event_UserStopped provenance)
               (set_current_state UserStopped g)))"

definition close_with_session ::
  "session_closure_outcome \<Rightarrow> lifecycle_actor \<Rightarrow> goal \<Rightarrow> goal_transition_error + goal" where
  "close_with_session outcome provenance g =
     (if \<not> is_open (snapshot_state (current g)) then rejected g RequiresPursuingOrBlocked
      else case next_ordinal g of
        Err e \<Rightarrow> Err e
      | Ok ordinal \<Rightarrow>
          Ok (push_event ordinal (snapshot_generation (current g))
               (Event_SessionClosed outcome provenance)
               (set_current_state (SessionClosed outcome) g)))"

definition supersede ::
  "goal_statement \<Rightarrow> goal_user_provenance \<Rightarrow> goal \<Rightarrow> goal_transition_error + goal" where
  "supersede replacement_statement provenance g =
     (if \<not> is_open (snapshot_state (current g)) then rejected g RequiresPursuingOrBlocked
      else case next_ordinal g of
        Err e \<Rightarrow> Err e
      | Ok ordinal \<Rightarrow>
          (let replaced_generation = snapshot_generation (current g) in
           case generation_successor replaced_generation of
             None \<Rightarrow> rejected g GenerationExhausted
           | Some replacement_generation \<Rightarrow>
               Ok (push_event ordinal replaced_generation
                    (Event_Superseded replacement_statement provenance)
                    (push_generation replacement_generation replacement_statement
                      (set_current_state (Superseded replacement_generation) g)))))"

section \<open>Reconstitution\<close>

datatype goal_reconstitution_failure = MissingCommission | EventSequence | InvalidTransition

fun apply_stored_event :: "goal \<Rightarrow> goal_event_kind \<Rightarrow> goal_transition_error + goal" where
  "apply_stored_event g (Event_Commissioned statement provenance) =
     commission_successor statement provenance g"
| "apply_stored_event g (Event_Blocked (Block_Model reason provenance) need) =
     declare_blocked reason need provenance g"
| "apply_stored_event g (Event_Blocked (Block_ExecutionFailure provenance) need) =
     block_execution_failure need provenance g"
| "apply_stored_event g (Event_Blocked (Block_FinishCheck provenance) need) =
     block_finish_check need provenance g"
| "apply_stored_event g (Event_Resumed guidance provenance) = resume guidance provenance g"
| "apply_stored_event g (Event_Achieved report provenance) = achieve report provenance g"
| "apply_stored_event g (Event_UserStopped provenance) = stop provenance g"
| "apply_stored_event g (Event_Superseded replacement_statement provenance) =
     supersede replacement_statement provenance g"
| "apply_stored_event g (Event_SessionClosed outcome provenance) =
     close_with_session outcome provenance g"

fun replay_events :: "goal \<Rightarrow> goal_event list \<Rightarrow> goal_reconstitution_failure + goal" where
  "replay_events g [] = Ok g"
| "replay_events g (stored # rest) =
     (case apply_stored_event g (event_kind stored) of
        Err _ \<Rightarrow> Err InvalidTransition
      | Ok transitioned \<Rightarrow>
          if goal_events transitioned = [] \<or> last (goal_events transitioned) \<noteq> stored
          then Err EventSequence
          else replay_events transitioned rest)"

definition reconstitute :: "session_id \<Rightarrow> goal_event list \<Rightarrow> goal_reconstitution_failure + goal" where
  "reconstitute session events =
     (case events of
        [] \<Rightarrow> Err MissingCommission
      | first # rest \<Rightarrow>
          (case event_kind first of
             Event_Commissioned statement provenance \<Rightarrow>
               if event_ordinal first \<noteq> event_ordinal_first
                  \<or> event_generation first \<noteq> generation_first
               then Err EventSequence
               else replay_events (commission session statement provenance) rest
           | _ \<Rightarrow> Err MissingCommission))"


section \<open>The aggregate as a machine\<close>

text \<open>One operation per event kind: what a transition appends is what it was asked to do.\<close>

definition goal_step :: "goal_event_kind \<Rightarrow> goal \<Rightarrow> goal_transition_error + goal" where
  "goal_step kind g = apply_stored_event g kind"

lemmas goal_transition_defs =
  commission_successor_def declare_blocked_def block_execution_failure_def block_finish_check_def
  block_def resume_def achieve_def stop_def close_with_session_def supersede_def next_ordinal_def
  rejected_def Let_def

lemmas goal_update_defs = push_event_def push_generation_def set_current_state_def

lemma goal_step_cases:
  assumes "goal_step kind g = Ok g'"
  obtains (settle) state ordinal where
      "is_open (snapshot_state (current g))"
      "event_ordinal_successor (event_ordinal (last (goal_events g))) = Some ordinal"
      "g' = push_event ordinal (snapshot_generation (current g)) kind (set_current_state state g)"
      "\<And>generation. state \<noteq> Superseded generation"
  | (successor) statement ordinal generation where
      "admits_later_commission (snapshot_state (current g))"
      "event_ordinal_successor (event_ordinal (last (goal_events g))) = Some ordinal"
      "generation_successor (snapshot_generation (current g)) = Some generation"
      "g' = push_event ordinal generation kind (push_generation generation statement g)"
  | (replace) statement ordinal generation where
      "is_open (snapshot_state (current g))"
      "event_ordinal_successor (event_ordinal (last (goal_events g))) = Some ordinal"
      "generation_successor (snapshot_generation (current g)) = Some generation"
      "g' = push_event ordinal (snapshot_generation (current g)) kind
         (push_generation generation statement (set_current_state (Superseded generation) g))"
proof -
  have open_of: "is_pursuing s \<Longrightarrow> is_open s" "is_blocked s \<Longrightarrow> is_open s" for s
    by (cases s; simp)+
  show ?thesis
  proof (cases kind)
    case (Event_Commissioned x11 x12)
    with assms successor show ?thesis
      by (auto simp: goal_step_def goal_transition_defs split: if_splits option.splits)
  next
    case (Event_Blocked block need)
    with assms settle show ?thesis
      by (cases block) (auto simp: goal_step_def goal_transition_defs open_of split: if_splits option.splits)
  next
    case (Event_Superseded x61 x62)
    with assms replace show ?thesis
      by (auto simp: goal_step_def goal_transition_defs split: if_splits option.splits)
  qed (use assms settle in \<open>auto simp: goal_step_def goal_transition_defs open_of split: if_splits option.splits\<close>)
qed

lemma goal_step_event:
  assumes "goal_step kind g = Ok g'"
  obtains ordinal generation where
    "goal_events g' = goal_events g @
       [\<lparr>event_ordinal = ordinal, event_generation = generation, event_kind = kind\<rparr>]"
    and "event_ordinal_successor (event_ordinal (last (goal_events g))) = Some ordinal"
    and "goal_session g' = goal_session g"
  using assms by (cases rule: goal_step_cases) (auto simp: goal_update_defs)

lemma replay_events_append:
  "replay_events g (xs @ ys) =
     (case replay_events g xs of Err e \<Rightarrow> Err e | Ok h \<Rightarrow> replay_events h ys)"
  by (induction g xs rule: replay_events.induct) (auto split: sum.splits)

lemma replay_events_steps:
  "replay_events g evs = Ok g' \<Longrightarrow>
     steps_to goal_step g g' \<and> goal_events g' = goal_events g @ evs \<and> goal_session g' = goal_session g"
proof (induction g evs rule: replay_events.induct)
  case (1 g)
  then show ?case by (simp add: steps_refl)
next
  case (2 g stored rest)
  then obtain h where h: "goal_step (event_kind stored) g = Ok h"
    and last: "goal_events h \<noteq> []" "last (goal_events h) = stored"
    and rest: "replay_events h rest = Ok g'"
    by (auto simp: goal_step_def split: sum.splits if_splits)
  from h have "apply_stored_event g (event_kind stored) = Ok h" by (simp only: goal_step_def)
  with 2(1) last rest have ih: "steps_to goal_step h g'" "goal_events g' = goal_events h @ rest"
    "goal_session g' = goal_session h" by auto
  obtain o' n where "goal_events h = goal_events g @ [\<lparr>event_ordinal = o', event_generation = n, event_kind = event_kind stored\<rparr>]"
    "goal_session h = goal_session g"
    using goal_step_event [OF h] by metis
  with last ih have "goal_events g' = goal_events g @ stored # rest" "goal_session g' = goal_session g" by auto
  moreover have "steps_to goal_step g g'"
    by (rule steps_to_trans [OF ih(1)], rule steps_next, rule steps_refl, rule h)
  ultimately show ?case by simp
qed

lemma steps_replay_events:
  "steps_to goal_step g g' \<Longrightarrow> \<exists>evs. goal_events g' = goal_events g @ evs \<and> replay_events g evs = Ok g'"
proof (induction rule: steps_to.induct)
  case (steps_refl g)
  show ?case by (rule exI [of _ "[]"]) simp
next
  case (steps_next g h kind g')
  then obtain evs where evs: "goal_events h = goal_events g @ evs" "replay_events g evs = Ok h" by blast
  obtain o' n where "goal_events g' = goal_events h @ [\<lparr>event_ordinal = o', event_generation = n, event_kind = kind\<rparr>]"
    using goal_step_event [OF steps_next.hyps(2)] by metis
  with evs steps_next.hyps(2) show ?case
    by (intro exI [of _ "evs @ [\<lparr>event_ordinal = o', event_generation = n, event_kind = kind\<rparr>]"])
      (simp add: replay_events_append goal_step_def)
qed

lemma reconstitute_Ok_iff:
  "reconstitute session events = Ok g \<longleftrightarrow>
     goal_session g = session \<and> goal_events g = events \<and>
     (\<exists>statement provenance. steps_to goal_step (commission session statement provenance) g)"
proof
  assume "reconstitute session events = Ok g"
  then obtain first rest statement provenance where e: "events = first # rest"
    "event_kind first = Event_Commissioned statement provenance" "event_ordinal first = event_ordinal_first"
    "event_generation first = generation_first"
    and r: "replay_events (commission session statement provenance) rest = Ok g"
    by (auto simp: reconstitute_def split: list.splits goal_event_kind.splits if_splits)
  from replay_events_steps [OF r] e show "goal_session g = session \<and> goal_events g = events \<and>
     (\<exists>statement provenance. steps_to goal_step (commission session statement provenance) g)"
    by (auto simp: commission_def)
next
  assume a: "goal_session g = session \<and> goal_events g = events \<and>
     (\<exists>statement provenance. steps_to goal_step (commission session statement provenance) g)"
  then obtain statement provenance where "steps_to goal_step (commission session statement provenance) g" by blast
  with steps_replay_events obtain rest where
    evs: "goal_events g = goal_events (commission session statement provenance) @ rest"
    and replay: "replay_events (commission session statement provenance) rest = Ok g" by blast
  have "events = \<lparr>event_ordinal = event_ordinal_first, event_generation = generation_first,
      event_kind = Event_Commissioned statement provenance\<rparr> # rest"
    using a evs unfolding commission_def by simp
  then show "reconstitute session events = Ok g"
    using replay by (simp add: reconstitute_def)
qed

section \<open>Well-formed lineages\<close>

text \<open>A generation gives way to its successor only settled: achieved, stopped or superseded by it.\<close>

definition lineage_link :: "goal_generation_snapshot \<Rightarrow> goal_generation_snapshot \<Rightarrow> bool" where
  "lineage_link earlier later \<longleftrightarrow>
     admits_later_commission (snapshot_state earlier) \<or>
     snapshot_state earlier = Superseded (snapshot_generation later)"

definition goal_ok :: "goal \<Rightarrow> bool" where
  "goal_ok g \<longleftrightarrow>
     goal_generations g \<noteq> [] \<and> goal_events g \<noteq> [] \<and>
     map (\<lambda>s. unat (generation_get (snapshot_generation s))) (goal_generations g)
       = [1..<Suc (length (goal_generations g))] \<and>
     map (\<lambda>e. unat (event_ordinal_get (event_ordinal e))) (goal_events g)
       = [1..<Suc (length (goal_events g))] \<and>
     successively lineage_link (goal_generations g) \<and>
     (\<forall>generation. snapshot_state (current g) \<noteq> Superseded generation)"

lemma goal_ok_commission: "goal_ok (commission session statement provenance)"
  by (simp add: goal_ok_def commission_def generation_first_def event_ordinal_first_def current_def)

lemma goal_ok_numbers:
  assumes "goal_ok g"
  shows "unat (event_ordinal_get (event_ordinal (last (goal_events g)))) = length (goal_events g)"
    and "unat (generation_get (snapshot_generation (current g))) = length (goal_generations g)"
  using assms contiguous_last [of _ "goal_events g"] contiguous_last [of _ "goal_generations g"]
  unfolding goal_ok_def current_def by blast+

lemma nat_succ:
  "event_ordinal_successor o1 = Some o2 \<Longrightarrow> unat (event_ordinal_get o2) = Suc (unat (event_ordinal_get o1))"
  "generation_successor g1 = Some g2 \<Longrightarrow> unat (generation_get g2) = Suc (unat (generation_get g1))"
  by (auto simp: event_ordinal_successor_def generation_successor_def dest: unat_checked_succ)


lemma goal_step_ok:
  assumes ok: "goal_ok g" and step: "goal_step kind g = Ok g'"
  shows "goal_ok g'"
proof -
  obtain pre c where gens: "goal_generations g = pre @ [c]"
    using ok by (metis goal_ok_def rev_exhaust)
  then have cur: "current g = c" by (simp add: current_def)
  note numbers = goal_ok_numbers [OF ok]
  have pre: "successively lineage_link pre"
    and link: "\<And>d. snapshot_generation d = snapshot_generation c \<Longrightarrow> successively lineage_link (pre @ [d])"
    using ok gens by (auto simp: goal_ok_def successively_append_iff lineage_link_def)
  from step show ?thesis
  proof (cases rule: goal_step_cases)
    case (settle state ordinal)
    then show ?thesis
      using ok gens cur numbers link nat_succ(1) [OF settle(2)]
      by (simp add: goal_ok_def goal_update_defs current_def)
  next
    case (successor statement ordinal generation)
    then show ?thesis
      using ok gens cur numbers link [of c] nat_succ(1) [OF successor(2)] nat_succ(2) [OF successor(3)]
      by (simp add: goal_ok_def goal_update_defs current_def successively_append_iff lineage_link_def)
  next
    case (replace statement ordinal generation)
    then show ?thesis
      using ok gens cur numbers link nat_succ(1) [OF replace(2)] nat_succ(2) [OF replace(3)]
      by (simp add: goal_ok_def goal_update_defs current_def successively_append_iff lineage_link_def)
  qed
qed

definition generations_retained :: "goal \<Rightarrow> goal \<Rightarrow> bool" where
  "generations_retained g h \<longleftrightarrow> length (goal_generations g) \<le> length (goal_generations h) \<and>
     (\<forall>i < length (goal_generations g).
        snapshot_generation (goal_generations h ! i) = snapshot_generation (goal_generations g ! i) \<and>
        snapshot_statement (goal_generations h ! i) = snapshot_statement (goal_generations g ! i) \<and>
        (\<not> is_open (snapshot_state (goal_generations g ! i)) \<longrightarrow>
           goal_generations h ! i = goal_generations g ! i))"

lemma generations_retained_refl: "generations_retained g g"
  by (simp add: generations_retained_def)

lemma generations_retained_trans:
  "generations_retained g h \<Longrightarrow> generations_retained h k \<Longrightarrow> generations_retained g k"
  unfolding generations_retained_def by (metis order.trans order.strict_trans2)

lemma goal_step_retains:
  assumes ok: "goal_ok g" and step: "goal_step kind g = Ok g'"
  shows "generations_retained g g'"
proof -
  obtain pre c where gens: "goal_generations g = pre @ [c]"
    using ok by (metis goal_ok_def rev_exhaust)
  then have cur: "current g = c" by (simp add: current_def)
  from step show ?thesis
    by (cases rule: goal_step_cases)
      (use gens cur in \<open>auto simp: generations_retained_def goal_update_defs nth_append less_Suc_eq\<close>)
qed

definition session_closed :: "goal \<Rightarrow> bool" where
  "session_closed g \<longleftrightarrow> (\<exists>outcome. snapshot_state (current g) = SessionClosed outcome)"

lemma goal_step_error: "goal_step kind g = Err e \<Longrightarrow> error_goal e = g"
proof (cases kind)
  case (Event_Blocked block need)
  then show "goal_step kind g = Err e \<Longrightarrow> error_goal e = g"
    by (cases block) (auto simp: goal_step_def goal_transition_defs split: if_splits option.splits)
qed (auto simp: goal_step_def goal_transition_defs split: if_splits option.splits)

text \<open>The failure with which a goal whose session closed answers each request.\<close>

fun closed_refusal :: "goal_event_kind \<Rightarrow> goal_transition_failure" where
  "closed_refusal (Event_Commissioned _ _) = RequiresNoActiveGoal"
| "closed_refusal (Event_Blocked _ _) = RequiresPursuing"
| "closed_refusal (Event_Achieved _ _) = RequiresPursuing"
| "closed_refusal (Event_Resumed _ _) = RequiresBlocked"
| "closed_refusal _ = RequiresPursuingOrBlocked"

lemma session_closed_refuses:
  assumes "session_closed g"
  shows "goal_step kind g = Err \<lparr>error_goal = g, error_failure = closed_refusal kind\<rparr>"
proof (cases kind)
  case (Event_Blocked block need)
  with assms show ?thesis
    by (cases block) (auto simp: goal_step_def goal_transition_defs session_closed_def)
qed (use assms in \<open>auto simp: goal_step_def goal_transition_defs session_closed_def\<close>)

interpretation goal: retaining_machine goal_step goal_ok error_goal
  by unfold_locales (auto intro: goal_step_ok goal_step_error)

interpretation goal: closing_machine goal_step goal_ok session_closed
  by unfold_locales (blast intro: session_closed_refuses)

lemma steps_to_retains:
  "steps_to goal_step g g' \<Longrightarrow> goal_ok g \<Longrightarrow> generations_retained g g'"
proof (induction rule: steps_to.induct)
  case (steps_next g h kind g')
  then have "goal_ok h" using goal.steps_to_inv by blast
  with steps_next goal_step_retains generations_retained_trans show ?case by blast
qed (rule generations_retained_refl)

section \<open>Properties\<close>

text \<open>
  C3. Reconstitution inverts the transitions: a stored event list reconstitutes to an aggregate
  exactly when that aggregate has those events and is reached from a commission in that session
  by accepted transitions. So every history the transitions produce is read back as it was, and
  no other event list is accepted.
\<close>

theorem reconstitute_exact:
  "reconstitute session events = Ok g \<longleftrightarrow>
     goal_session g = session \<and> goal_events g = events \<and>
     (\<exists>statement provenance. steps_to goal_step (commission session statement provenance) g)"
  by (rule reconstitute_Ok_iff)

text \<open>
  C21. A reconstituted lineage numbers its events and its generations contiguously from one, and
  every generation but the current one is settled: achieved, stopped, or superseded by exactly
  the next generation.
\<close>

theorem reconstituted_goal_ok:
  assumes "reconstitute session events = Ok g"
  shows "goal_ok g"
proof -
  from assms obtain statement provenance
    where "steps_to goal_step (commission session statement provenance) g"
    unfolding reconstitute_Ok_iff by blast
  then show ?thesis by (rule goal.steps_to_inv) (rule goal_ok_commission)
qed

definition sample_goal :: goal where
  "sample_goal = commission (Ident 1) (GoalText [65]) (GoalUserProvenance (Ident 2))"

definition sample_superseded :: goal where
  "sample_superseded =
     run_ops goal_step [Event_Superseded (GoalText [66]) (GoalUserProvenance (Ident 3))] sample_goal"

theorem reconstituted_goal_ok_witness:
  "reconstitute (Ident 1) (goal_events sample_superseded) = Ok sample_superseded \<and>
   length (goal_generations sample_superseded) = 2 \<and> goal_ok sample_superseded"
proof -
  have "reconstitute (Ident 1) (goal_events sample_superseded) = Ok sample_superseded"
    "length (goal_generations sample_superseded) = 2"
    by code_simp+
  then show ?thesis using reconstituted_goal_ok by blast
qed

text \<open>
  C22. Accepted transitions only append: the later event history extends the earlier one and
  replays it, every generation keeps its number and its statement, and a generation that is
  settled is never changed again.
\<close>

theorem goal_history_append_only:
  assumes "goal_ok g" and "steps_to goal_step g g'"
  shows "generations_retained g g' \<and>
    (\<exists>events. goal_events g' = goal_events g @ events \<and> replay_events g events = Ok g')"
  using steps_to_retains [OF assms(2,1)] steps_replay_events [OF assms(2)] by blast

theorem goal_history_append_only_witness:
  "generations_retained sample_goal sample_superseded \<and>
    (\<exists>events. goal_events sample_superseded = goal_events sample_goal @ events \<and>
       replay_events sample_goal events = Ok sample_superseded)"
proof (rule goal_history_append_only)
  show "goal_ok sample_goal" unfolding sample_goal_def by (rule goal_ok_commission)
  show "steps_to goal_step sample_goal sample_superseded"
    unfolding sample_superseded_def by (rule run_ops_steps_to)
qed

text \<open>
  C23. Once its session closed beneath it, a goal accepts no transition: each one is rejected with an
  error that names what the transition requires and hands the goal back unchanged, so a caller that
  continues with the value each rejection hands back still holds the same goal.
\<close>

theorem goal_session_closed_final:
  assumes "session_closed g"
  shows "goal_step kind g = Err \<lparr>error_goal = g, error_failure = closed_refusal kind\<rparr> \<and>
    fold (continue_with error_goal goal_step) kinds g = g"
  using session_closed_refuses [OF assms] goal.closed_stays [OF assms]
  unfolding goal.continue_with_run_ops by blast

theorem goal_session_closed_final_witness:
  "let g = run_ops goal_step [Event_SessionClosed Closure_Abandoned LA_Operator] sample_goal in
   goal_step (Event_UserStopped (GoalUserProvenance (Ident 9))) g =
     Err \<lparr>error_goal = g, error_failure = RequiresPursuingOrBlocked\<rparr> \<and>
   fold (continue_with error_goal goal_step) [Event_UserStopped (GoalUserProvenance (Ident 9))] g = g"
proof -
  let ?g = "run_ops goal_step [Event_SessionClosed Closure_Abandoned LA_Operator] sample_goal"
  have "snapshot_state (current ?g) = SessionClosed Closure_Abandoned" by code_simp
  then have "session_closed ?g" unfolding session_closed_def by blast
  from goal_session_closed_final [OF this, of "Event_UserStopped (GoalUserProvenance (Ident 9))"
      "[Event_UserStopped (GoalUserProvenance (Ident 9))]"]
  show ?thesis unfolding Let_def closed_refusal.simps .
qed

end
