(* ===== verification/Rust_Text.thy ===== *)
theory Rust_Text
  imports Prelude
begin

text \<open>
  The part of Rust's \<^verbatim>\<open>char\<close>, \<^verbatim>\<open>str\<close> and \<^verbatim>\<open>String\<close> that the checked text types of the
  domain crate use: byte lengths, byte views, character scans and trimming. A string is the
  list of its scalar values; its bytes are their UTF-8 encodings in order.
\<close>

section \<open>Scalars and their encoding\<close>

type_synonym scalar = "32 word"
type_synonym rust_string = "scalar list"

unbundle bit_operations_syntax

definition len_utf8 :: "scalar \<Rightarrow> nat" where
  "len_utf8 c = (if c < 0x80 then 1 else if c < 0x800 then 2 else if c < 0x10000 then 3 else 4)"

definition continuation_byte :: "scalar \<Rightarrow> 8 word" where
  "continuation_byte c = 0x80 OR ucast (c AND 0x3F)"

definition encode_utf8 :: "scalar \<Rightarrow> 8 word list" where
  "encode_utf8 c =
     (if c < 0x80 then [ucast c]
      else if c < 0x800 then [0xC0 OR ucast (drop_bit 6 c), continuation_byte c]
      else if c < 0x10000
      then [0xE0 OR ucast (drop_bit 12 c), continuation_byte (drop_bit 6 c), continuation_byte c]
      else [0xF0 OR ucast (drop_bit 18 c), continuation_byte (drop_bit 12 c),
            continuation_byte (drop_bit 6 c), continuation_byte c])"

definition as_bytes :: "rust_string \<Rightarrow> 8 word list" where
  "as_bytes s = concat (map encode_utf8 s)"

definition str_len :: "rust_string \<Rightarrow> nat" where
  "str_len s = sum_list (map len_utf8 s)"

text \<open>\<^verbatim>\<open>char::is_control\<close> is the Unicode category Cc.\<close>

definition is_control :: "scalar \<Rightarrow> bool" where
  "is_control c \<longleftrightarrow> c < 0x20 \<or> 0x7F \<le> c \<and> c \<le> 0x9F"

definition is_ascii_alphanumeric :: "scalar \<Rightarrow> bool" where
  "is_ascii_alphanumeric c \<longleftrightarrow>
     0x30 \<le> c \<and> c \<le> 0x39 \<or> 0x41 \<le> c \<and> c \<le> 0x5A \<or> 0x61 \<le> c \<and> c \<le> 0x7A"

definition contains_nul :: "rust_string \<Rightarrow> bool" where
  "contains_nul s \<longleftrightarrow> 0 \<in> set s"

text \<open>\<^verbatim>\<open>char_indices\<close>: every scalar with the byte offset at which it starts.\<close>

fun char_indices_from :: "nat \<Rightarrow> rust_string \<Rightarrow> (nat \<times> scalar) list" where
  "char_indices_from offset [] = []"
| "char_indices_from offset (c # cs) = (offset, c) # char_indices_from (offset + len_utf8 c) cs"

definition char_indices :: "rust_string \<Rightarrow> (nat \<times> scalar) list" where
  "char_indices s = char_indices_from 0 s"

text \<open>\<^verbatim>\<open>trim_matches\<close> with a set of characters drops them at both ends.\<close>

definition trim_matches :: "(scalar \<Rightarrow> bool) \<Rightarrow> rust_string \<Rightarrow> rust_string" where
  "trim_matches p s = rev (dropWhile p (rev (dropWhile p s)))"

text \<open>The helper of \<^verbatim>\<open>tool/policy.rs\<close> and \<^verbatim>\<open>tool_attempt.rs\<close>, on the first and last byte.\<close>

definition is_posix_whitespace :: "8 word \<Rightarrow> bool" where
  "is_posix_whitespace b \<longleftrightarrow> b \<in> {0x20, 0x09, 0x0A, 0x0B, 0x0C, 0x0D}"

definition has_surrounding_posix_whitespace :: "rust_string \<Rightarrow> bool" where
  "has_surrounding_posix_whitespace s \<longleftrightarrow>
     (case as_bytes s of [] \<Rightarrow> False
      | b # bs \<Rightarrow> is_posix_whitespace b \<or> is_posix_whitespace (last (b # bs)))"

text \<open>An ASCII literal as a string of scalars.\<close>

definition ascii :: "string \<Rightarrow> rust_string" where
  "ascii s = map (\<lambda>c. of_char c) s"

section \<open>Lengths and bytes\<close>

lemma length_encode_utf8 [simp]: "length (encode_utf8 c) = len_utf8 c"
  by (simp add: encode_utf8_def len_utf8_def)

lemma len_utf8_pos [simp]: "0 < len_utf8 c"
  by (simp add: len_utf8_def)

lemma encode_utf8_ne [simp]: "encode_utf8 c \<noteq> []"
  by (simp add: encode_utf8_def)

text \<open>\<^verbatim>\<open>str::len\<close> counts the bytes of the view.\<close>

lemma str_len_as_bytes: "str_len s = length (as_bytes s)"
  by (simp add: str_len_def as_bytes_def length_concat comp_def)

lemma as_bytes_Nil_iff [simp]: "as_bytes s = [] \<longleftrightarrow> s = []"
  by (auto simp: as_bytes_def)

lemma str_len_append [simp]: "str_len (s @ t) = str_len s + str_len t"
  by (simp add: str_len_def)

lemma str_len_Cons [simp]: "str_len (c # s) = len_utf8 c + str_len s"
  by (simp add: str_len_def)

lemma str_len_Nil [simp]: "str_len [] = 0"
  by (simp add: str_len_def)

lemma str_len_0_iff [simp]: "str_len s = 0 \<longleftrightarrow> s = []"
  by (cases s) auto

lemma str_len_rev [simp]: "str_len (rev s) = str_len s"
  by (simp add: str_len_def flip: rev_map)

lemma str_len_dropWhile_le: "str_len (dropWhile p s) \<le> str_len s"
  by (induction s) auto

lemma str_len_trim_le: "str_len (trim_matches p s) \<le> str_len s"
  unfolding trim_matches_def str_len_rev
  by (metis str_len_dropWhile_le str_len_rev order_trans)

text \<open>Every byte of a non-ASCII scalar has its top bit set, so it is no ASCII byte.\<close>

lemma top_bit_ge: "bit (b :: 8 word) 7 \<Longrightarrow> 0x80 \<le> b"
proof (rule ccontr)
  assume b: "bit b 7" and "\<not> 0x80 \<le> b"
  then have "uint b < 128" by (simp add: word_le_def)
  then have "\<not> bit (uint b) 7" by (simp add: bit_iff_odd)
  with b show False by (simp add: bit_uint_iff)
qed

lemma encode_utf8_high:
  assumes "0x80 \<le> c" and "b \<in> set (encode_utf8 c)"
  shows "0x80 \<le> b"
proof -
  have "\<not> c < 0x80" using assms(1) by simp
  moreover have top: "bit (0x80 :: 8 word) 7" "bit (0xC0 :: 8 word) 7" "bit (0xE0 :: 8 word) 7"
      "bit (0xF0 :: 8 word) 7"
    by (simp_all add: bit_iff_odd)
  ultimately have "bit b 7"
    using assms(2)
    by (auto simp: encode_utf8_def continuation_byte_def bit_or_iff split: if_splits)
  then show ?thesis by (rule top_bit_ge)
qed

lemma posix_whitespace_low: "is_posix_whitespace b \<Longrightarrow> b < 0x80"
  by (auto simp: is_posix_whitespace_def)

text \<open>A POSIX whitespace byte at an end of the byte view is that scalar at that end.\<close>

definition is_posix_scalar :: "scalar \<Rightarrow> bool" where
  "is_posix_scalar c \<longleftrightarrow> c \<in> {0x20, 0x09, 0x0A, 0x0B, 0x0C, 0x0D}"

lemma ucast_posix: "c < 0x80 \<Longrightarrow> is_posix_whitespace (ucast c) \<longleftrightarrow> is_posix_scalar c"
proof -
  assume c: "c < 0x80"
  then have "uint c < 128" by (simp add: word_less_def)
  then have "uint (ucast c :: 8 word) = uint c"
    by (simp add: unsigned_ucast_eq take_bit_int_eq_self)
  then show ?thesis by (simp add: is_posix_whitespace_def is_posix_scalar_def word_uint_eq_iff)
qed

lemma posix_first: "is_posix_whitespace (hd (encode_utf8 c)) \<longleftrightarrow> is_posix_scalar c"
proof (cases "c < 0x80")
  case True
  then show ?thesis by (simp add: encode_utf8_def ucast_posix)
next
  case False
  then have "0x80 \<le> hd (encode_utf8 c)" by (simp add: encode_utf8_high [of c])
  moreover have "\<not> is_posix_scalar c" using False by (auto simp: is_posix_scalar_def)
  ultimately show ?thesis using posix_whitespace_low leD by blast
qed

lemma posix_last: "is_posix_whitespace (last (encode_utf8 c)) \<longleftrightarrow> is_posix_scalar c"
proof (cases "c < 0x80")
  case True
  then show ?thesis by (simp add: encode_utf8_def ucast_posix)
next
  case False
  then have "0x80 \<le> last (encode_utf8 c)" by (simp add: encode_utf8_high [of c])
  moreover have "\<not> is_posix_scalar c" using False by (auto simp: is_posix_scalar_def)
  ultimately show ?thesis using posix_whitespace_low leD by blast
qed

lemma surrounding_whitespace_iff:
  "has_surrounding_posix_whitespace s \<longleftrightarrow>
     s \<noteq> [] \<and> (is_posix_scalar (hd s) \<or> is_posix_scalar (last s))"
proof (cases "s = []")
  case False
  then have ne: "as_bytes s \<noteq> []" by simp
  have "hd (as_bytes s) = hd (encode_utf8 (hd s))"
    using False by (cases s) (auto simp: as_bytes_def)
  moreover have "last (as_bytes s) = last (encode_utf8 (last s))"
    using False by (cases s rule: rev_cases) (auto simp: as_bytes_def)
  moreover have "has_surrounding_posix_whitespace s \<longleftrightarrow>
      is_posix_whitespace (hd (as_bytes s)) \<or> is_posix_whitespace (last (as_bytes s))"
    using ne by (auto simp: has_surrounding_posix_whitespace_def split: list.splits)
  ultimately show ?thesis using False by (simp add: posix_first posix_last)
qed (simp add: has_surrounding_posix_whitespace_def as_bytes_def)

section \<open>Trimming\<close>

lemma trim_matches_ends:
  "trim_matches p s \<noteq> [] \<Longrightarrow> \<not> p (hd (trim_matches p s)) \<and> \<not> p (last (trim_matches p s))"
proof
  define t where "t = dropWhile p s"
  assume ne: "trim_matches p s \<noteq> []"
  then have ne': "dropWhile p (rev t) \<noteq> []" by (simp add: trim_matches_def t_def)
  then show "\<not> p (last (trim_matches p s))"
    by (simp add: trim_matches_def t_def last_rev hd_dropWhile)
  have t: "t \<noteq> []" using ne' by auto
  have "rev t = takeWhile p (rev t) @ dropWhile p (rev t)" by simp
  then have "t = rev (dropWhile p (rev t)) @ rev (takeWhile p (rev t))"
    by (metis rev_append rev_rev_ident)
  then have "hd t = hd (rev (dropWhile p (rev t)))"
    using ne' by (metis hd_append2 rev_is_Nil_conv)
  moreover have "\<not> p (hd t)" using t by (simp add: t_def hd_dropWhile)
  ultimately show "\<not> p (hd (trim_matches p s))" by (simp add: trim_matches_def t_def)
qed

lemma set_trim_matches: "set (trim_matches p s) \<subseteq> set s"
  unfolding trim_matches_def by (metis set_rev set_dropWhileD subsetI)

lemma trim_matches_Nil_iff: "trim_matches p s = [] \<longleftrightarrow> (\<forall>c \<in> set s. p c)"
proof -
  have "(\<forall>c \<in> set (dropWhile p s). p c) \<longleftrightarrow> (\<forall>c \<in> set s. p c)"
    by (metis UnE set_append set_takeWhileD takeWhile_dropWhile_id set_dropWhileD)
  then show ?thesis by (auto simp: trim_matches_def dropWhile_eq_Nil_conv)
qed

section \<open>Scans\<close>

lemma map_snd_char_indices_from [simp]: "map snd (char_indices_from n s) = s"
  by (induction s arbitrary: n) auto

lemma nth_char_indices_from:
  "i < length s \<Longrightarrow> char_indices_from n s ! i = (n + str_len (take i s), s ! i)"
proof (induction s arbitrary: n i)
  case (Cons c s)
  then show ?case by (cases i) (auto simp: add.assoc)
qed simp

lemma length_char_indices_from [simp]: "length (char_indices_from n s) = length s"
  by (induction s arbitrary: n) auto

text \<open>The first offending scalar is reported at its byte offset.\<close>

lemma find_char_indices:
  "find (\<lambda>(_, c). p c) (char_indices s) =
     (if \<exists>c \<in> set s. p c
      then let i = length (takeWhile (\<lambda>c. \<not> p c) s) in Some (str_len (take i s), s ! i)
      else None)"
proof -
  have "find (\<lambda>(_, c). p c) (char_indices_from n s) =
     (if \<exists>c \<in> set s. p c
      then let i = length (takeWhile (\<lambda>c. \<not> p c) s) in Some (n + str_len (take i s), s ! i)
      else None)" for n
    by (induction s arbitrary: n) (auto simp: Let_def)
  from this [of 0] show ?thesis by (simp add: char_indices_def)
qed

end
