(* ===== verification/Tool_Policy.thy ===== *)
theory Tool_Policy
  imports Rust_Text
begin

text \<open>
  The checked vocabulary of the tool loop: names, arguments, result content, proposals, approval
  postures and rationales, and the immutable logical request, from
  \<^verbatim>\<open>src/crates/domain/src/tool/\<close> (\<^verbatim>\<open>name.rs\<close>, \<^verbatim>\<open>arguments.rs\<close>, \<^verbatim>\<open>media.rs\<close>, \<^verbatim>\<open>result.rs\<close>,
  \<^verbatim>\<open>proposal.rs\<close>, \<^verbatim>\<open>policy.rs\<close>, \<^verbatim>\<open>request.rs\<close>).
\<close>

section \<open>Tool names\<close>

datatype tool_name = ToolName (tool_name_str: rust_string)

datatype tool_name_failure =
    ToolName_Empty
  | ToolName_TooLong nat
  | ToolName_InvalidCharacter nat scalar

type_synonym tool_name_error = "rust_string \<times> tool_name_failure"

definition max_tool_name_bytes :: nat where
  "max_tool_name_bytes = 64"

definition is_tool_name_char :: "scalar \<Rightarrow> bool" where
  "is_tool_name_char c \<longleftrightarrow> is_ascii_alphanumeric c \<or> c = 0x5F \<or> c = 0x2D"

definition tool_name_try_new :: "rust_string \<Rightarrow> tool_name_error + tool_name" where
  "tool_name_try_new value =
     (let failure =
        if value = [] then Some ToolName_Empty
        else if str_len value > max_tool_name_bytes then Some (ToolName_TooLong (str_len value))
        else map_option (\<lambda>(byte_index, c). ToolName_InvalidCharacter byte_index c)
               (find (\<lambda>(_, c). \<not> is_tool_name_char c) (char_indices value))
      in case failure of Some f \<Rightarrow> Err (value, f) | None \<Rightarrow> Ok (ToolName value))"

section \<open>Arguments\<close>

datatype tool_arguments_kind = Args_Json | Args_Undecodable

record normalized_tool_arguments =
  args_kind :: tool_arguments_kind
  args_value :: rust_string

datatype tool_arguments_failure =
    Args_ContainsNull
  | Args_CanonicalizationFailed
  | Args_StoredKindMismatch
  | Args_StoredJsonNotCanonical

type_synonym tool_arguments_error = "rust_string \<times> tool_arguments_failure"

text \<open>
  \<open>normal\<close> stands for \<^verbatim>\<open>try_from_provider_text\<close>, whose work is done by \<^verbatim>\<open>serde_json\<close>.
\<close>

definition args_try_from_stored ::
  "(rust_string \<Rightarrow> tool_arguments_error + normalized_tool_arguments)
     \<Rightarrow> tool_arguments_kind \<Rightarrow> rust_string \<Rightarrow> tool_arguments_error + normalized_tool_arguments"
where
  "args_try_from_stored normal kind value =
     (case normal value of
        Err e \<Rightarrow> Err e
      | Ok normalized \<Rightarrow>
          if args_kind normalized \<noteq> kind then Err (value, Args_StoredKindMismatch)
          else if args_value normalized \<noteq> value then Err (value, Args_StoredJsonNotCanonical)
          else Ok normalized)"

section \<open>Media evidence\<close>

type_synonym blob_digest = "8 word list"

datatype media_validation_evidence = StrongSignature | StructuralValidation

record media_validation_identity =
  media_digest :: blob_digest
  media_type :: rust_string
  media_provider :: rust_string
  media_reader :: rust_string
  media_revision :: rust_string
  media_evidence :: media_validation_evidence

definition is_ascii_lowercase :: "8 word \<Rightarrow> bool" where
  "is_ascii_lowercase b \<longleftrightarrow> 0x61 \<le> b \<and> b \<le> 0x7A"

definition is_ascii_digit :: "8 word \<Rightarrow> bool" where
  "is_ascii_digit b \<longleftrightarrow> 0x30 \<le> b \<and> b \<le> 0x39"

definition is_ascii_graphic :: "8 word \<Rightarrow> bool" where
  "is_ascii_graphic b \<longleftrightarrow> 0x21 \<le> b \<and> b \<le> 0x7E"

definition is_reader_name :: "rust_string \<Rightarrow> nat \<Rightarrow> bool" where
  "is_reader_name value maximum \<longleftrightarrow>
     str_len value \<le> maximum \<and>
     (case as_bytes value of [] \<Rightarrow> False | b # _ \<Rightarrow> is_ascii_lowercase b) \<and>
     list_all (\<lambda>b. is_ascii_lowercase b \<or> is_ascii_digit b \<or> b \<in> {0x5F, 0x2D, 0x2E}) (as_bytes value)"

definition is_media_token :: "rust_string \<Rightarrow> bool" where
  "is_media_token value \<longleftrightarrow>
     value \<noteq> [] \<and>
     list_all (\<lambda>b. is_ascii_lowercase b \<or> is_ascii_digit b \<or>
         b \<in> {0x21, 0x23, 0x24, 0x25, 0x26, 0x27, 0x2A, 0x5E, 0x5F, 0x60, 0x7C, 0x7E, 0x2E, 0x2B, 0x2D})
       (as_bytes value)"

text \<open>\<^verbatim>\<open>split_once\<close> at the first occurrence of one character.\<close>

definition split_once :: "scalar \<Rightarrow> rust_string \<Rightarrow> (rust_string \<times> rust_string) option" where
  "split_once c s =
     (case dropWhile (\<lambda>x. x \<noteq> c) s of
        [] \<Rightarrow> None
      | _ # rest \<Rightarrow> Some (takeWhile (\<lambda>x. x \<noteq> c) s, rest))"

definition media_identity_try_new ::
  "blob_digest \<Rightarrow> rust_string \<Rightarrow> rust_string \<Rightarrow> rust_string \<Rightarrow> rust_string
     \<Rightarrow> media_validation_evidence \<Rightarrow> media_validation_identity option" where
  "media_identity_try_new digest mtype provider reader revision evidence =
     (if str_len mtype > 255 \<or>
         \<not> (case split_once 0x2F mtype of
              None \<Rightarrow> False
            | Some (kind, subtype) \<Rightarrow> is_media_token kind \<and> is_media_token subtype) \<or>
         \<not> is_reader_name provider 64 \<or> \<not> is_reader_name reader 64 \<or>
         revision = [] \<or> str_len revision > 32 \<or> \<not> list_all is_ascii_graphic (as_bytes revision)
      then None
      else Some \<lparr>media_digest = digest, media_type = mtype, media_provider = provider,
                 media_reader = reader, media_revision = revision, media_evidence = evidence\<rparr>)"

datatype tool_media_kind = Media_Image | Media_Document

record tool_media_reference =
  tm_kind :: tool_media_kind
  tm_presented :: media_validation_identity
  tm_source :: media_validation_identity
  tm_byte_length :: u64

definition media_image ::
  "media_validation_identity \<Rightarrow> media_validation_identity \<Rightarrow> u64 \<Rightarrow> tool_media_reference option"
where
  "media_image presented source byte_length =
     (if unat byte_length \<le> 8 * 1024 * 1024
      then Some \<lparr>tm_kind = Media_Image, tm_presented = presented, tm_source = source,
                 tm_byte_length = byte_length\<rparr>
      else None)"

definition direct_image ::
  "media_validation_identity \<Rightarrow> u64 \<Rightarrow> tool_media_reference option" where
  "direct_image identity byte_length = media_image identity identity byte_length"

definition direct_document ::
  "media_validation_identity \<Rightarrow> u64 \<Rightarrow> tool_media_reference option" where
  "direct_document identity byte_length =
     (if media_type identity \<noteq> ascii ''application/pdf'' then None
      else case media_image identity identity byte_length of
        None \<Rightarrow> None
      | Some reference \<Rightarrow> Some (reference\<lparr>tm_kind := Media_Document\<rparr>))"

section \<open>Results\<close>

datatype tool_result_text = ToolResultText (tool_result_str: rust_string)

datatype tool_result_text_failure = ResultText_TooLarge nat | ResultText_ContainsNull

definition max_tool_result_bytes :: nat where
  "max_tool_result_bytes = 1024 * 1024"

definition tool_result_text_try_new ::
  "rust_string \<Rightarrow> (rust_string \<times> tool_result_text_failure) + tool_result_text" where
  "tool_result_text_try_new value =
     (if str_len value > max_tool_result_bytes then Err (value, ResultText_TooLarge (str_len value))
      else if contains_nul value then Err (value, ResultText_ContainsNull)
      else Ok (ToolResultText value))"

datatype tool_result_content =
    ResultText tool_result_text
  | ResultMedia tool_result_text tool_media_reference

datatype tool_request_resolution =
    Resolution_Executed tool_attempt_id
  | Resolution_Denied tool_request_id
  | Resolution_ClosedInadmissible tool_request_id
  | Resolution_ClosedByTurnEnd tool_request_id

datatype tool_inadmissible_reason =
    ProposalLimitExceeded u64
  | ArgumentBytesExceeded u64 u64
  | PlacementLost

section \<open>Proposals\<close>

type_synonym tool_request_ordinal = "32 word"

definition ordinal_try_from_usize :: "nat \<Rightarrow> tool_request_ordinal option" where
  "ordinal_try_from_usize n = (if n < 2 ^ 32 then Some (word_of_nat n) else None)"

record tool_call_proposal =
  tp_name :: tool_name
  tp_arguments :: normalized_tool_arguments
  tp_suppressed :: bool
  tp_inadmissible_reason :: "tool_inadmissible_reason option"

definition proposal_new :: "tool_name \<Rightarrow> normalized_tool_arguments \<Rightarrow> tool_call_proposal" where
  "proposal_new name arguments =
     \<lparr>tp_name = name, tp_arguments = arguments, tp_suppressed = False,
      tp_inadmissible_reason = None\<rparr>"

definition suppressed_tool_arguments :: rust_string where
  "suppressed_tool_arguments = ascii (''{'' @ [CHR 0x22] @ ''redacted'' @ [CHR 0x22] @ '':'' @
     [CHR 0x22] @ ''[redacted]'' @ [CHR 0x22] @ ''}'')"

definition proposal_suppressed :: "tool_name \<Rightarrow> tool_call_proposal" where
  "proposal_suppressed name =
     \<lparr>tp_name = name,
      tp_arguments = \<lparr>args_kind = Args_Json, args_value = suppressed_tool_arguments\<rparr>,
      tp_suppressed = True, tp_inadmissible_reason = None\<rparr>"

definition proposal_inadmissible ::
  "tool_name \<Rightarrow> normalized_tool_arguments \<Rightarrow> tool_inadmissible_reason \<Rightarrow> tool_call_proposal" where
  "proposal_inadmissible name arguments reason =
     \<lparr>tp_name = name, tp_arguments = arguments, tp_suppressed = False,
      tp_inadmissible_reason = Some reason\<rparr>"

datatype assistant_response_part =
    Part_Text rust_string
  | Part_ProviderCompaction rust_string
  | Part_ProviderReasoning rust_string
  | Part_ToolCall tool_call_proposal

fun is_tool_call :: "assistant_response_part \<Rightarrow> bool" where
  "is_tool_call (Part_ToolCall _) = True"
| "is_tool_call _ = False"

record tool_using_assistant_response =
  tu_parts :: "assistant_response_part list"
  tu_tool_count :: nat

definition response_try_from_parts ::
  "assistant_response_part list \<Rightarrow> assistant_response_part list + tool_using_assistant_response"
where
  "response_try_from_parts parts =
     (let tool_count = length (filter is_tool_call parts) in
      if tool_count = 0 then Err parts else Ok \<lparr>tu_parts = parts, tu_tool_count = tool_count\<rparr>)"

section \<open>Postures, provenance and rationales\<close>

datatype dangerous_tool_auto_approval = Dangerous_Disabled | Dangerous_ApproveAll

datatype tool_permission_default = Permission_Auto | Permission_Confirm | Permission_AlwaysConfirm

datatype tool_approval_posture = Posture_Auto | Posture_Delegated | Posture_Human

datatype tool_effect_class = EffectFree | ExternalEffect

datatype tool_decision_source =
    Source_UserCommand
  | Source_PolicyAuto
  | Source_SessionBlanket
  | Source_SessionOverride
  | Source_Delegate
  | Source_RuntimeSafety
  | Source_LifecycleClosure
  | Source_UserOverride

fun requires_ordered_prefix :: "tool_decision_source \<Rightarrow> bool" where
  "requires_ordered_prefix Source_UserCommand = True"
| "requires_ordered_prefix Source_Delegate = True"
| "requires_ordered_prefix _ = False"

datatype direct_model_selection_tag = DirectModelSelectionTag

type_synonym direct_model_selection = "direct_model_selection_tag ident"

datatype tool_approval_decider =
    Decider_User durable_command_id
  | Decider_Delegate direct_model_selection model_call_id
  | Decider_UserOverride durable_command_id tool_request_id

datatype tool_decision_rationale = ToolDecisionRationale (rationale_str: rust_string)

definition max_rationale_bytes :: nat where
  "max_rationale_bytes = 4096"

definition rationale_try_new :: "rust_string \<Rightarrow> rust_string + tool_decision_rationale" where
  "rationale_try_new value =
     (if value = [] \<or> str_len value > max_rationale_bytes \<or> contains_nul value then Err value
      else Ok (ToolDecisionRationale value))"

datatype delegate_approval_recommendation = Recommend_Approve | Recommend_Deny | EscalateToHuman

datatype tool_denial_reason = ToolDenialReason (denial_reason_str: rust_string)

datatype tool_denial_reason_failure =
    Denial_Empty
  | Denial_TooLong nat
  | Denial_SurroundingWhitespace
  | Denial_ContainsControl

definition is_forbidden_control :: "scalar \<Rightarrow> bool" where
  "is_forbidden_control c \<longleftrightarrow> c \<noteq> 0x0A \<and> is_control c"

definition denial_reason_try_new ::
  "rust_string \<Rightarrow> (rust_string \<times> tool_denial_reason_failure) + tool_denial_reason" where
  "denial_reason_try_new value =
     (let failure =
        if value = [] then Some Denial_Empty
        else if str_len value > max_rationale_bytes then Some (Denial_TooLong (str_len value))
        else if has_surrounding_posix_whitespace value then Some Denial_SurroundingWhitespace
        else if list_ex is_forbidden_control value then Some Denial_ContainsControl
        else None
      in case failure of Some f \<Rightarrow> Err (value, f) | None \<Rightarrow> Ok (ToolDenialReason value))"

definition denial_reason_from_rationale :: "tool_decision_rationale \<Rightarrow> tool_denial_reason option" where
  "denial_reason_from_rationale rationale =
     (let sanitized = map (\<lambda>c. if is_forbidden_control c then 0x20 else c) (rationale_str rationale);
          trimmed = trim_matches (\<lambda>c. c = 0x20 \<or> c = 0x0A) sanitized
      in if trimmed \<noteq> [] then Some (ToolDenialReason trimmed) else None)"

section \<open>Logical requests\<close>

record tool_request =
  tr_id :: tool_request_id
  tr_session :: session_id
  tr_turn :: turn_id
  tr_producing_call :: model_call_id
  tr_ordinal :: tool_request_ordinal
  tr_name :: tool_name
  tr_arguments :: normalized_tool_arguments
  tr_approval_posture :: tool_approval_posture
  tr_inadmissible_reason :: "tool_inadmissible_reason option"

definition request_input_new ::
  "tool_request_id \<Rightarrow> session_id \<Rightarrow> turn_id \<Rightarrow> model_call_id \<Rightarrow> tool_request_ordinal \<Rightarrow> tool_name
     \<Rightarrow> normalized_tool_arguments \<Rightarrow> tool_request" where
  "request_input_new i session turn call ordinal name arguments =
     \<lparr>tr_id = i, tr_session = session, tr_turn = turn, tr_producing_call = call,
      tr_ordinal = ordinal, tr_name = name, tr_arguments = arguments,
      tr_approval_posture = Posture_Human, tr_inadmissible_reason = None\<rparr>"

definition with_approval_posture :: "tool_approval_posture \<Rightarrow> tool_request \<Rightarrow> tool_request" where
  "with_approval_posture posture request = request\<lparr>tr_approval_posture := posture\<rparr>"

definition with_inadmissible_reason ::
  "tool_inadmissible_reason option \<Rightarrow> tool_request \<Rightarrow> tool_request" where
  "with_inadmissible_reason reason request = request\<lparr>tr_inadmissible_reason := reason\<rparr>"

record delegate_tool_approval =
  da_request :: tool_request_id
  da_posture :: tool_approval_posture
  da_model :: direct_model_selection
  da_call :: model_call_id
  da_recommendation :: delegate_approval_recommendation
  da_rationale :: tool_decision_rationale

definition delegate_approval_try_new ::
  "tool_request \<Rightarrow> direct_model_selection \<Rightarrow> model_call_id \<Rightarrow> delegate_approval_recommendation
     \<Rightarrow> tool_decision_rationale
     \<Rightarrow> (tool_approval_posture \<times> delegate_approval_recommendation) + delegate_tool_approval" where
  "delegate_approval_try_new request model call recommendation rationale =
     (let permitted =
        (case tr_approval_posture request of
           Posture_Delegated \<Rightarrow> True
         | Posture_Human \<Rightarrow> recommendation = EscalateToHuman
         | Posture_Auto \<Rightarrow> False)
      in if \<not> permitted then Err (tr_approval_posture request, recommendation)
         else Ok \<lparr>da_request = tr_id request, da_posture = tr_approval_posture request,
                  da_model = model, da_call = call, da_recommendation = recommendation,
                  da_rationale = rationale\<rparr>)"

section \<open>Checked texts\<close>

lemma tool_name_try_new_Ok_iff:
  "tool_name_try_new value = Ok name \<longleftrightarrow>
     name = ToolName value \<and> value \<noteq> [] \<and> str_len value \<le> max_tool_name_bytes \<and>
     list_all is_tool_name_char value"
  by (auto simp: tool_name_try_new_def find_char_indices Let_def list_all_iff not_less
      split: option.splits if_splits)

text \<open>An ASCII name has as many bytes as characters.\<close>

lemma tool_name_char_ascii: "is_tool_name_char c \<Longrightarrow> len_utf8 c = 1"
proof -
  assume "is_tool_name_char c"
  then have "c \<le> 0x7A" by (auto simp: is_tool_name_char_def is_ascii_alphanumeric_def intro: order_trans)
  then have "c < 0x80" by (rule order.strict_trans1) simp
  then show ?thesis by (simp add: len_utf8_def)
qed

lemma args_try_from_stored_Ok_iff:
  "args_try_from_stored normal kind value = Ok stored \<longleftrightarrow>
     normal value = Ok stored \<and> args_kind stored = kind \<and> args_value stored = value"
  by (auto simp: args_try_from_stored_def split: sum.splits)

lemma denial_reason_try_new_Ok_iff:
  "denial_reason_try_new value = Ok reason \<longleftrightarrow>
     reason = ToolDenialReason value \<and> value \<noteq> [] \<and> str_len value \<le> max_rationale_bytes \<and>
     \<not> is_posix_scalar (hd value) \<and> \<not> is_posix_scalar (last value) \<and>
     \<not> list_ex is_forbidden_control value"
  by (auto simp: denial_reason_try_new_def surrounding_whitespace_iff Let_def
      split: option.splits if_splits)

lemma forbidden_space [simp]: "\<not> is_forbidden_control 0x20"
  by (simp add: is_forbidden_control_def is_control_def)

lemma posix_scalar_cases:
  "is_posix_scalar c \<longleftrightarrow> c = 0x20 \<or> c = 0x0A \<or> c = 0x09 \<or> c = 0x0B \<or> c = 0x0C \<or> c = 0x0D"
  by (auto simp: is_posix_scalar_def)

lemma posix_forbidden: "is_posix_scalar c \<Longrightarrow> c = 0x20 \<or> c = 0x0A \<or> is_forbidden_control c"
  by (auto simp: posix_scalar_cases is_forbidden_control_def is_control_def)

lemma sanitized_len:
  "str_len (map (\<lambda>c. if is_forbidden_control c then 0x20 else c) s) \<le> str_len s"
proof (induction s)
  case (Cons c s)
  have "len_utf8 0x20 \<le> len_utf8 c" by (simp add: len_utf8_def)
  with Cons show ?case by (auto intro: add_mono)
qed simp

text \<open>C27. A denial reason derived from an admitted judge rationale is itself an admitted
  denial reason, never longer than the rationale; no reason is derived exactly when every
  character of the rationale is a control character, a space or a line feed.\<close>

theorem derived_denial_reason_admitted:
  assumes "rationale_try_new text = Ok rationale"
  shows "(denial_reason_from_rationale rationale = None \<longleftrightarrow>
            list_all (\<lambda>c. is_control c \<or> c = 0x20) text) \<and>
         (\<forall>reason. denial_reason_from_rationale rationale = Some reason \<longrightarrow>
            denial_reason_try_new (denial_reason_str reason) = Ok reason \<and>
            str_len (denial_reason_str reason) \<le> str_len text)"
proof -
  define sanitized where
    "sanitized = map (\<lambda>c. if is_forbidden_control c then 0x20 else c) text"
  define trimmed where "trimmed = trim_matches (\<lambda>c. c = 0x20 \<or> c = 0x0A) sanitized"
  from assms have r: "rationale_str rationale = text" and len: "str_len text \<le> max_rationale_bytes"
    by (auto simp: rationale_try_new_def split: if_splits)
  have derived: "denial_reason_from_rationale rationale =
      (if trimmed \<noteq> [] then Some (ToolDenialReason trimmed) else None)"
    by (simp add: denial_reason_from_rationale_def r trimmed_def sanitized_def Let_def)
  have "trimmed = [] \<longleftrightarrow> (\<forall>c \<in> set sanitized. c = 0x20 \<or> c = 0x0A)"
    unfolding trimmed_def by (rule trim_matches_Nil_iff)
  also have "\<dots> \<longleftrightarrow> list_all (\<lambda>c. is_control c \<or> c = 0x20) text"
    by (auto simp: sanitized_def list_all_iff is_forbidden_control_def is_control_def
        split: if_splits)
  finally have none: "trimmed = [] \<longleftrightarrow> list_all (\<lambda>c. is_control c \<or> c = 0x20) text" .
  have clean: "\<not> is_forbidden_control c" if "c \<in> set sanitized" for c
    using that by (auto simp: sanitized_def)
  have short: "str_len trimmed \<le> str_len text"
    unfolding trimmed_def sanitized_def by (rule order_trans [OF str_len_trim_le sanitized_len])
  have "denial_reason_try_new trimmed = Ok (ToolDenialReason trimmed)" if ne: "trimmed \<noteq> []"
  proof -
    have mem: "hd trimmed \<in> set sanitized" "last trimmed \<in> set sanitized"
      using set_trim_matches ne unfolding trimmed_def by (meson hd_in_set last_in_set subsetD)+
    have "\<not> is_posix_scalar (hd trimmed)" "\<not> is_posix_scalar (last trimmed)"
      using trim_matches_ends ne clean [OF mem(1)] clean [OF mem(2)] posix_forbidden
      unfolding trimmed_def by blast+
    moreover have "\<not> list_ex is_forbidden_control trimmed"
      using set_trim_matches clean unfolding trimmed_def list_ex_iff by blast
    ultimately show ?thesis using ne short len by (simp add: denial_reason_try_new_Ok_iff)
  qed
  with derived none short show ?thesis by simp
qed

theorem derived_denial_reason_admitted_witness:
  "denial_reason_from_rationale (ToolDecisionRationale [0x09, 0x6E, 0x6F, 0x85, 0x0A]) =
     Some (ToolDenialReason [0x6E, 0x6F]) \<and>
   denial_reason_try_new [0x6E, 0x6F] = Ok (ToolDenialReason [0x6E, 0x6F])"
proof -
  have "rationale_try_new [0x09, 0x6E, 0x6F, 0x85, 0x0A] =
      Ok (ToolDecisionRationale [0x09, 0x6E, 0x6F, 0x85, 0x0A])"
    by (simp add: rationale_try_new_def max_rationale_bytes_def contains_nul_def len_utf8_def)
  moreover have "denial_reason_from_rationale (ToolDecisionRationale [0x09, 0x6E, 0x6F, 0x85, 0x0A]) =
      Some (ToolDenialReason [0x6E, 0x6F])"
    by (simp add: denial_reason_from_rationale_def trim_matches_def is_forbidden_control_def
        is_control_def)
  ultimately show ?thesis
    using derived_denial_reason_admitted [of "[0x09, 0x6E, 0x6F, 0x85, 0x0A]"] by auto
qed

end
