(* ===== verification/Tool_Approval.thy ===== *)
theory Tool_Approval
  imports Tool_Policy
begin

text \<open>
  Approval of one logical tool request: the decision with its provenance, the durable user
  command that decides it, the stored evidence it is restored from, and the one-shot user
  override of a delegate denial. Sources: \<^verbatim>\<open>approval.rs\<close>, \<^verbatim>\<open>decide.rs\<close> and
  \<^verbatim>\<open>override_denial.rs\<close> in \<^verbatim>\<open>src/crates/domain/src/tool/\<close>.
\<close>

section \<open>Resolutions\<close>

datatype tool_approval_decision = Approve | Deny "tool_denial_reason option"

record tool_approval_resolution =
  ar_request :: tool_request_id
  ar_decision :: tool_approval_decision
  ar_source :: tool_decision_source
  ar_decider :: "tool_approval_decider option"
  ar_rationale :: "tool_decision_rationale option"

definition suppressed_tool_denial_reason :: rust_string where
  "suppressed_tool_denial_reason = ascii ''Tool arguments were suppressed by the credential boundary''"

definition resolution_policy_auto :: "tool_request_id \<Rightarrow> tool_approval_resolution" where
  "resolution_policy_auto request =
     \<lparr>ar_request = request, ar_decision = Approve, ar_source = Source_PolicyAuto,
      ar_decider = None, ar_rationale = None\<rparr>"

definition resolution_session_blanket :: "tool_request_id \<Rightarrow> tool_approval_resolution" where
  "resolution_session_blanket request =
     \<lparr>ar_request = request, ar_decision = Approve, ar_source = Source_SessionBlanket,
      ar_decider = None, ar_rationale = None\<rparr>"

definition resolution_runtime_safety :: "tool_request_id \<Rightarrow> tool_approval_resolution" where
  "resolution_runtime_safety request =
     \<lparr>ar_request = request,
      ar_decision = Deny (Some (ToolDenialReason suppressed_tool_denial_reason)),
      ar_source = Source_RuntimeSafety, ar_decider = None, ar_rationale = None\<rparr>"

definition resolution_approval_timeout :: "tool_request_id \<Rightarrow> tool_approval_resolution" where
  "resolution_approval_timeout request =
     \<lparr>ar_request = request,
      ar_decision = Deny (Some (ToolDenialReason (ascii ''approval_wait_timeout''))),
      ar_source = Source_RuntimeSafety, ar_decider = None, ar_rationale = None\<rparr>"

definition resolution_lifecycle_closure :: "tool_request_id \<Rightarrow> tool_approval_resolution" where
  "resolution_lifecycle_closure request =
     \<lparr>ar_request = request, ar_decision = Deny None, ar_source = Source_LifecycleClosure,
      ar_decider = None, ar_rationale = None\<rparr>"

definition resolution_user ::
  "durable_command_id \<Rightarrow> tool_request_id \<Rightarrow> tool_approval_decision \<Rightarrow> tool_approval_resolution"
where
  "resolution_user command request decision =
     \<lparr>ar_request = request, ar_decision = decision, ar_source = Source_UserCommand,
      ar_decider = Some (Decider_User command), ar_rationale = None\<rparr>"

definition resolution_user_override ::
  "tool_request_id \<Rightarrow> durable_command_id \<Rightarrow> tool_request_id \<Rightarrow> tool_approval_resolution" where
  "resolution_user_override request command denied_request =
     \<lparr>ar_request = request, ar_decision = Approve, ar_source = Source_UserOverride,
      ar_decider = Some (Decider_UserOverride command denied_request), ar_rationale = None\<rparr>"

definition resolution_delegate :: "delegate_tool_approval \<Rightarrow> tool_approval_resolution option" where
  "resolution_delegate approval =
     (let decided = (\<lambda>decision.
        Some \<lparr>ar_request = da_request approval, ar_decision = decision,
              ar_source = Source_Delegate,
              ar_decider = Some (Decider_Delegate (da_model approval) (da_call approval)),
              ar_rationale = Some (da_rationale approval)\<rparr>)
      in case da_recommendation approval of
           Recommend_Approve \<Rightarrow> decided Approve
         | Recommend_Deny \<Rightarrow> decided (Deny (denial_reason_from_rationale (da_rationale approval)))
         | EscalateToHuman \<Rightarrow> None)"

definition is_approved :: "tool_approval_resolution \<Rightarrow> bool" where
  "is_approved r \<longleftrightarrow> ar_decision r = Approve"

lemmas resolution_defs =
  resolution_policy_auto_def resolution_session_blanket_def resolution_runtime_safety_def
  resolution_approval_timeout_def resolution_lifecycle_closure_def resolution_user_def
  resolution_user_override_def

section \<open>The user's decision command\<close>

record decide_tool_request =
  dt_command_id :: durable_command_id
  dt_request :: tool_request_id
  dt_decision :: tool_approval_decision

text \<open>\<^verbatim>\<open>Uuid::is_nil\<close> and \<^verbatim>\<open>Uuid::is_max\<close>.\<close>

definition is_sentinel :: "'a ident \<Rightarrow> bool" where
  "is_sentinel i \<longleftrightarrow> as_uuid i = 0 \<or> as_uuid i = - 1"

definition decide_try_new ::
  "durable_command_id \<Rightarrow> tool_request_id \<Rightarrow> tool_approval_decision
     \<Rightarrow> durable_command_id + decide_tool_request" where
  "decide_try_new command request decision =
     (if is_sentinel command then Err command
      else Ok \<lparr>dt_command_id = command, dt_request = request, dt_decision = decision\<rparr>)"

datatype decide_rejected_result =
    AwaitingApprovalJudge tool_request_id
  | Decide_RequestNotFound tool_request_id
  | Decide_AlreadyResolved tool_request_id
  | NotEarliestUndecided tool_request_id tool_request_id

datatype decide_result =
    Decide_Applied tool_approval_resolution
  | Decide_Rejected decide_rejected_result

record prepared_decide =
  pd_command :: decide_tool_request
  pd_result :: decide_result

type_synonym decide_preparation_error = "decide_tool_request \<times> tool_request_id"

definition prepare_applied ::
  "decide_tool_request \<Rightarrow> tool_request \<Rightarrow> decide_preparation_error + prepared_decide" where
  "prepare_applied command request =
     (if tr_id request \<noteq> dt_request command then Err (command, tr_id request)
      else Ok \<lparr>pd_command = command,
               pd_result = Decide_Applied
                 (resolution_user (dt_command_id command) (dt_request command) (dt_decision command))\<rparr>)"

definition prepare_lifecycle_closure_applied ::
  "decide_tool_request \<Rightarrow> tool_request \<Rightarrow> decide_preparation_error + prepared_decide" where
  "prepare_lifecycle_closure_applied command request =
     (if tr_id request \<noteq> dt_request command \<or> dt_decision command \<noteq> Deny None
      then Err (command, tr_id request)
      else Ok \<lparr>pd_command = command,
               pd_result = Decide_Applied (resolution_lifecycle_closure (dt_request command))\<rparr>)"

definition prepare_approval_timeout_applied ::
  "decide_tool_request \<Rightarrow> tool_request \<Rightarrow> decide_preparation_error + prepared_decide" where
  "prepare_approval_timeout_applied command request =
     (let resolution = resolution_approval_timeout (dt_request command) in
      if tr_id request \<noteq> dt_request command \<or> dt_decision command \<noteq> ar_decision resolution
      then Err (command, tr_id request)
      else Ok \<lparr>pd_command = command, pd_result = Decide_Applied resolution\<rparr>)"

definition prepare_request_not_found :: "decide_tool_request \<Rightarrow> prepared_decide" where
  "prepare_request_not_found command =
     \<lparr>pd_command = command, pd_result = Decide_Rejected (Decide_RequestNotFound (dt_request command))\<rparr>"

definition prepare_already_resolved :: "decide_tool_request \<Rightarrow> prepared_decide" where
  "prepare_already_resolved command =
     \<lparr>pd_command = command, pd_result = Decide_Rejected (Decide_AlreadyResolved (dt_request command))\<rparr>"

definition prepare_awaiting_approval_judge :: "decide_tool_request \<Rightarrow> prepared_decide" where
  "prepare_awaiting_approval_judge command =
     \<lparr>pd_command = command, pd_result = Decide_Rejected (AwaitingApprovalJudge (dt_request command))\<rparr>"

definition prepare_not_earliest :: "decide_tool_request \<Rightarrow> tool_request_id \<Rightarrow> prepared_decide" where
  "prepare_not_earliest command earliest =
     \<lparr>pd_command = command,
      pd_result = Decide_Rejected (NotEarliestUndecided (dt_request command) earliest)\<rparr>"

section \<open>Stored evidence\<close>

datatype stored_tool_approval_evidence =
    Stored_UserCommand prepared_decide
  | Stored_Delegate delegate_tool_approval "tool_denial_reason option"
  | Stored_PolicyAuto tool_request_id
  | Stored_SessionBlanket tool_request_id dangerous_tool_auto_approval
  | Stored_RuntimeSafety tool_request_id
  | Stored_LifecycleClosure tool_request_id
  | Stored_UserOverride tool_request_id durable_command_id tool_request_id tool_approval_posture

fun evidence_resolution ::
  "stored_tool_approval_evidence \<Rightarrow> tool_approval_resolution option" where
  "evidence_resolution (Stored_UserCommand command) =
     (case pd_result command of
        Decide_Applied applied \<Rightarrow>
          if dt_request (pd_command command) = ar_request applied \<and>
             ar_source applied = Source_UserCommand
          then Some applied else None
      | Decide_Rejected _ \<Rightarrow> None)"
| "evidence_resolution (Stored_Delegate approval stored_denial_reason) =
     (case resolution_delegate approval of
        None \<Rightarrow> None
      | Some resolution \<Rightarrow>
          (case ar_decision resolution of
             Approve \<Rightarrow> if stored_denial_reason = None then Some resolution else None
           | Deny reason \<Rightarrow> if reason = stored_denial_reason then Some resolution else None))"
| "evidence_resolution (Stored_PolicyAuto request) = Some (resolution_policy_auto request)"
| "evidence_resolution (Stored_SessionBlanket request Dangerous_ApproveAll) =
     Some (resolution_session_blanket request)"
| "evidence_resolution (Stored_SessionBlanket request Dangerous_Disabled) = None"
| "evidence_resolution (Stored_RuntimeSafety request) = Some (resolution_runtime_safety request)"
| "evidence_resolution (Stored_LifecycleClosure request) =
     Some (resolution_lifecycle_closure request)"
| "evidence_resolution (Stored_UserOverride request command denied_request Posture_Delegated) =
     Some (resolution_user_override request command denied_request)"
| "evidence_resolution (Stored_UserOverride request command denied_request Posture_Auto) = None"
| "evidence_resolution (Stored_UserOverride request command denied_request Posture_Human) = None"

definition reconstitute_approval ::
  "stored_tool_approval_evidence \<Rightarrow> stored_tool_approval_evidence + tool_approval_resolution" where
  "reconstitute_approval evidence =
     (case evidence_resolution evidence of
        Some resolution \<Rightarrow> Ok resolution
      | None \<Rightarrow> Err evidence)"

section \<open>The initial outcome of a proposal\<close>

datatype initial_tool_approval =
    Initial_Inadmissible
  | Initial_Confirm
  | Initial_AlwaysConfirm
  | Initial_Human
  | Initial_Delegated
  | Initial_PolicyAuto
  | Initial_SessionBlanket
  | Initial_RuntimeSafetyDeny
  | Initial_UserOverride durable_command_id tool_request_id

fun initial_resolution ::
  "initial_tool_approval \<Rightarrow> tool_request_id \<Rightarrow> tool_approval_resolution option" where
  "initial_resolution Initial_PolicyAuto request = Some (resolution_policy_auto request)"
| "initial_resolution Initial_SessionBlanket request = Some (resolution_session_blanket request)"
| "initial_resolution Initial_RuntimeSafetyDeny request = Some (resolution_runtime_safety request)"
| "initial_resolution (Initial_UserOverride command denied_request) request =
     Some (resolution_user_override request command denied_request)"
| "initial_resolution Initial_Confirm request = None"
| "initial_resolution Initial_AlwaysConfirm request = None"
| "initial_resolution Initial_Human request = None"
| "initial_resolution Initial_Delegated request = None"
| "initial_resolution Initial_Inadmissible request = None"

fun initial_posture :: "initial_tool_approval \<Rightarrow> tool_approval_posture" where
  "initial_posture Initial_Confirm = Posture_Human"
| "initial_posture Initial_AlwaysConfirm = Posture_Human"
| "initial_posture Initial_Human = Posture_Human"
| "initial_posture Initial_Inadmissible = Posture_Human"
| "initial_posture Initial_Delegated = Posture_Delegated"
| "initial_posture (Initial_UserOverride _ _) = Posture_Delegated"
| "initial_posture Initial_PolicyAuto = Posture_Auto"
| "initial_posture Initial_SessionBlanket = Posture_Auto"
| "initial_posture Initial_RuntimeSafetyDeny = Posture_Auto"

fun requires_decision :: "initial_tool_approval \<Rightarrow> bool" where
  "requires_decision Initial_Confirm = True"
| "requires_decision Initial_AlwaysConfirm = True"
| "requires_decision Initial_Human = True"
| "requires_decision Initial_Delegated = True"
| "requires_decision _ = False"

definition from_model_proposal ::
  "tool_request_id \<Rightarrow> session_id \<Rightarrow> turn_id \<Rightarrow> model_call_id \<Rightarrow> tool_request_ordinal
     \<Rightarrow> tool_call_proposal \<Rightarrow> initial_tool_approval \<Rightarrow> tool_request" where
  "from_model_proposal i session turn call ordinal proposal approval =
     \<lparr>tr_id = i, tr_session = session, tr_turn = turn, tr_producing_call = call,
      tr_ordinal = ordinal, tr_name = tp_name proposal, tr_arguments = tp_arguments proposal,
      tr_approval_posture = initial_posture approval,
      tr_inadmissible_reason = tp_inadmissible_reason proposal\<rparr>"

section \<open>Overriding a delegate denial\<close>

record recorded_user_override =
  uo_command :: durable_command_id
  uo_session :: session_id
  uo_denied_request :: tool_request_id
  uo_judge_call :: model_call_id
  uo_tool :: tool_name
  uo_arguments :: normalized_tool_arguments

definition matches_proposal :: "recorded_user_override \<Rightarrow> tool_call_proposal \<Rightarrow> bool" where
  "matches_proposal recorded proposal \<longleftrightarrow>
     uo_tool recorded = tp_name proposal \<and> uo_arguments recorded = tp_arguments proposal"

record override_denied =
  od_command_id :: durable_command_id
  od_session :: session_id
  od_denied_request :: tool_request_id

definition override_try_new ::
  "durable_command_id \<Rightarrow> session_id \<Rightarrow> tool_request_id \<Rightarrow> durable_command_id + override_denied" where
  "override_try_new command session denied_request =
     (if is_sentinel command then Err command
      else Ok \<lparr>od_command_id = command, od_session = session, od_denied_request = denied_request\<rparr>)"

datatype override_rejected_result =
    Override_RequestNotFound tool_request_id
  | RequestNotInSession session_id tool_request_id
  | NotDelegateDenied tool_request_id
  | NotTerminallyDenied tool_request_id
  | AlreadyOverridden tool_request_id

datatype override_result =
    Override_Applied recorded_user_override
  | Override_Rejected override_rejected_result

record prepared_override =
  po_command :: override_denied
  po_result :: override_result

type_synonym override_preparation_error = "override_denied \<times> tool_request_id"

definition override_request_not_found :: "override_denied \<Rightarrow> prepared_override" where
  "override_request_not_found command =
     \<lparr>po_command = command,
      po_result = Override_Rejected (Override_RequestNotFound (od_denied_request command))\<rparr>"

definition prepare_request_not_in_session :: "override_denied \<Rightarrow> prepared_override" where
  "prepare_request_not_in_session command =
     \<lparr>po_command = command,
      po_result = Override_Rejected (RequestNotInSession (od_session command) (od_denied_request command))\<rparr>"

definition prepare_not_delegate_denied :: "override_denied \<Rightarrow> prepared_override" where
  "prepare_not_delegate_denied command =
     \<lparr>po_command = command,
      po_result = Override_Rejected (NotDelegateDenied (od_denied_request command))\<rparr>"

definition prepare_not_terminally_denied :: "override_denied \<Rightarrow> prepared_override" where
  "prepare_not_terminally_denied command =
     \<lparr>po_command = command,
      po_result = Override_Rejected (NotTerminallyDenied (od_denied_request command))\<rparr>"

definition prepare_already_overridden :: "override_denied \<Rightarrow> prepared_override" where
  "prepare_already_overridden command =
     \<lparr>po_command = command,
      po_result = Override_Rejected (AlreadyOverridden (od_denied_request command))\<rparr>"

lemmas override_rejections = prepare_request_not_in_session_def prepare_not_delegate_denied_def
  prepare_not_terminally_denied_def prepare_already_overridden_def

text \<open>The judge call of a delegate denial, from the decider.\<close>

definition delegate_denial_call :: "tool_approval_resolution option \<Rightarrow> model_call_id option" where
  "delegate_denial_call approval =
     (case approval of
        Some approval \<Rightarrow>
          (case ar_decision approval of
             Deny _ \<Rightarrow>
               (case ar_decider approval of
                  Some (Decider_Delegate _ call) \<Rightarrow> Some call
                | Some (Decider_User _) \<Rightarrow> None
                | Some (Decider_UserOverride _ _) \<Rightarrow> None
                | None \<Rightarrow> None)
           | Approve \<Rightarrow> None)
      | None \<Rightarrow> None)"

definition prepare_override ::
  "override_denied \<Rightarrow> tool_request \<Rightarrow> tool_approval_resolution option
     \<Rightarrow> tool_request_resolution option \<Rightarrow> durable_command_id option
     \<Rightarrow> override_preparation_error + prepared_override" where
  "prepare_override command request approval terminal_resolution existing =
     (if tr_id request \<noteq> od_denied_request command then Err (command, tr_id request)
      else if (case approval of Some a \<Rightarrow> ar_request a \<noteq> od_denied_request command | None \<Rightarrow> False)
      then Err (command, ar_request (the approval))
      else Ok
        (if tr_session request \<noteq> od_session command
         then prepare_request_not_in_session command
         else case delegate_denial_call approval of
           None \<Rightarrow> prepare_not_delegate_denied command
         | Some judge_call \<Rightarrow>
             if terminal_resolution \<noteq> Some (Resolution_Denied (od_denied_request command))
             then prepare_not_terminally_denied command
             else if existing \<noteq> None
             then prepare_already_overridden command
             else \<lparr>po_command = command,
                   po_result = Override_Applied
                     \<lparr>uo_command = od_command_id command, uo_session = od_session command,
                      uo_denied_request = od_denied_request command, uo_judge_call = judge_call,
                      uo_tool = tr_name request, uo_arguments = tr_arguments request\<rparr>\<rparr>))"

definition override_reconstitute_applied ::
  "override_denied \<Rightarrow> recorded_user_override \<Rightarrow> override_preparation_error + prepared_override" where
  "override_reconstitute_applied command recorded =
     (if uo_command recorded \<noteq> od_command_id command \<or> uo_session recorded \<noteq> od_session command \<or>
         uo_denied_request recorded \<noteq> od_denied_request command
      then Err (command, uo_denied_request recorded)
      else Ok \<lparr>po_command = command, po_result = Override_Applied recorded\<rparr>)"

section \<open>Provenance\<close>

text \<open>
  The resolutions a running system can hold: those of an initial policy outcome, of the three
  ways a decision command is applied, of a checked delegate result, and those restored from
  evidence that holds only such values.
\<close>

fun live_evidence :: "(tool_approval_resolution \<Rightarrow> bool) \<Rightarrow> stored_tool_approval_evidence \<Rightarrow> bool" where
  "live_evidence P (Stored_UserCommand command) =
     (case pd_result command of Decide_Applied r \<Rightarrow> P r | Decide_Rejected _ \<Rightarrow> True)"
| "live_evidence P (Stored_Delegate approval _) =
     (\<exists>request model call recommendation rationale.
        delegate_approval_try_new request model call recommendation rationale = Ok approval)"
| "live_evidence P _ = True"

inductive produced :: "tool_approval_resolution \<Rightarrow> bool" where
  produced_initial: "initial_resolution initial request = Some r \<Longrightarrow> produced r"
| produced_user:
    "prepare_applied command request = Ok p \<Longrightarrow> pd_result p = Decide_Applied r \<Longrightarrow> produced r"
| produced_closure:
    "prepare_lifecycle_closure_applied command request = Ok p \<Longrightarrow> pd_result p = Decide_Applied r \<Longrightarrow>
     produced r"
| produced_timeout:
    "prepare_approval_timeout_applied command request = Ok p \<Longrightarrow> pd_result p = Decide_Applied r \<Longrightarrow>
     produced r"
| produced_delegate:
    "delegate_approval_try_new request model call recommendation rationale = Ok approval \<Longrightarrow>
     resolution_delegate approval = Some r \<Longrightarrow> produced r"
| produced_stored_user:
    "reconstitute_approval (Stored_UserCommand p) = Ok r \<Longrightarrow> pd_result p = Decide_Applied r' \<Longrightarrow>
     produced r' \<Longrightarrow> produced r"
| produced_stored:
    "reconstitute_approval evidence = Ok r \<Longrightarrow> live_evidence (\<lambda>_. False) evidence \<Longrightarrow> produced r"

fun sealed :: "tool_approval_resolution \<Rightarrow> bool" where
  "sealed r =
     (case ar_source r of
        Source_UserCommand \<Rightarrow>
          (\<exists>command. ar_decider r = Some (Decider_User command)) \<and> ar_rationale r = None
      | Source_PolicyAuto \<Rightarrow> ar_decision r = Approve \<and> ar_decider r = None \<and> ar_rationale r = None
      | Source_SessionBlanket \<Rightarrow>
          ar_decision r = Approve \<and> ar_decider r = None \<and> ar_rationale r = None
      | Source_SessionOverride \<Rightarrow> False
      | Source_Delegate \<Rightarrow>
          (\<exists>model call rationale.
             ar_decider r = Some (Decider_Delegate model call) \<and> ar_rationale r = Some rationale \<and>
             (ar_decision r = Approve \<or>
              ar_decision r = Deny (denial_reason_from_rationale rationale)))
      | Source_RuntimeSafety \<Rightarrow>
          (\<exists>reason. ar_decision r = Deny (Some reason)) \<and> ar_decider r = None \<and>
          ar_rationale r = None
      | Source_LifecycleClosure \<Rightarrow>
          ar_decision r = Deny None \<and> ar_decider r = None \<and> ar_rationale r = None
      | Source_UserOverride \<Rightarrow>
          ar_decision r = Approve \<and> ar_rationale r = None \<and>
          (\<exists>command denied. ar_decider r = Some (Decider_UserOverride command denied)))"

lemma initial_sealed: "initial_resolution initial request = Some r \<Longrightarrow> sealed r"
  by (cases initial) (auto simp: resolution_defs)

lemma delegate_sealed: "resolution_delegate approval = Some r \<Longrightarrow> sealed r"
  by (auto simp: resolution_delegate_def Let_def split: delegate_approval_recommendation.splits)

lemma evidence_delegate:
  "evidence_resolution (Stored_Delegate approval reason) = Some r \<longleftrightarrow>
     resolution_delegate approval = Some r \<and>
     reason = (case ar_decision r of Approve \<Rightarrow> None | Deny why \<Rightarrow> why)"
  by (auto split: option.splits tool_approval_decision.splits if_splits)

lemma stored_sealed:
  "evidence_resolution evidence = Some r \<Longrightarrow> live_evidence (\<lambda>_. False) evidence \<Longrightarrow> sealed r"
proof (induction evidence rule: evidence_resolution.induct)
  case (2 approval reason)
  then show ?case by (metis evidence_delegate delegate_sealed)
qed (auto simp: resolution_defs split: decide_result.splits if_splits)

lemma produced_sealed: "produced r \<Longrightarrow> sealed r"
proof (induction rule: produced.induct)
  case (produced_initial initial request r)
  then show ?case by (rule initial_sealed)
next
  case (produced_user command request p r)
  then show ?case by (auto simp: prepare_applied_def resolution_user_def split: if_splits)
next
  case (produced_closure command request p r)
  then show ?case
    by (auto simp: prepare_lifecycle_closure_applied_def resolution_lifecycle_closure_def
        split: if_splits)
next
  case (produced_timeout command request p r)
  then show ?case
    by (auto simp: prepare_approval_timeout_applied_def resolution_approval_timeout_def Let_def
        split: if_splits)
next
  case (produced_delegate request model call recommendation rationale approval r)
  then show ?case by (blast intro: delegate_sealed)
next
  case (produced_stored_user p r r')
  then have "r = r'" by (auto simp: reconstitute_approval_def split: if_splits)
  with produced_stored_user show ?case by simp
next
  case (produced_stored evidence r)
  then show ?case
    by (auto simp: reconstitute_approval_def simp del: sealed.simps split: option.splits
        dest: stored_sealed)
qed

text \<open>C28. Provenance is sealed: in every resolution the system can hold the decider and the
  rationale agree with the recorded source, automatic sources approve and safety and closure
  sources deny, a delegate denial carries exactly the reason its rationale derives, and the
  reserved session-override source never occurs.\<close>

theorem approval_provenance_sealed: "produced r \<Longrightarrow> sealed r"
  by (rule produced_sealed)

theorem approval_provenance_sealed_witness:
  "produced (resolution_policy_auto (Ident 5)) \<and> sealed (resolution_policy_auto (Ident 5))"
proof -
  have "initial_resolution Initial_PolicyAuto (Ident 5) = Some (resolution_policy_auto (Ident 5))"
    by simp
  then have "produced (resolution_policy_auto (Ident 5))" by (rule produced_initial)
  with approval_provenance_sealed [of "resolution_policy_auto (Ident 5)"] show ?thesis by blast
qed

text \<open>C29. Stored evidence restores exactly the resolution that was made. Each of the seven kinds
  of evidence is accounted for: an applied user command restores the resolution the command made; a
  delegate result the resolution it gives, when its derived reason is the stored one; policy,
  blanket, safety and override evidence the resolution of the initial outcome that recorded it,
  blanket evidence only under the blanket posture and override evidence only under the posture of
  an override; and closure evidence the denial that the closure applied. Refused evidence is handed
  back, in particular an applied closure or timeout presented as a user command.\<close>

theorem approval_evidence_round_trip:
  assumes applied: "prepare_applied command request = Ok p"
    and closure: "prepare_lifecycle_closure_applied command' request' = Ok p'"
    and timeout: "prepare_approval_timeout_applied command'' request'' = Ok p''"
  shows "(\<exists>r. pd_result p = Decide_Applied r \<and> ar_request r = tr_id request \<and>
            ar_decision r = dt_decision command \<and>
            reconstitute_approval (Stored_UserCommand p) = Ok r) \<and>
         reconstitute_approval (Stored_UserCommand p') = Err (Stored_UserCommand p') \<and>
         reconstitute_approval (Stored_UserCommand p'') = Err (Stored_UserCommand p'') \<and>
         (\<exists>r. pd_result p' = Decide_Applied r \<and> \<not> is_approved r \<and>
            reconstitute_approval (Stored_LifecycleClosure (tr_id request')) = Ok r) \<and>
         (reconstitute_approval (Stored_Delegate approval reason) = Ok r \<longleftrightarrow>
            resolution_delegate approval = Some r \<and>
            reason = (case ar_decision r of Approve \<Rightarrow> None | Deny why \<Rightarrow> why)) \<and>
         (\<exists>r. initial_resolution Initial_PolicyAuto i = Some r \<and> is_approved r \<and>
            reconstitute_approval (Stored_PolicyAuto i) = Ok r) \<and>
         (\<exists>r. initial_resolution Initial_RuntimeSafetyDeny i = Some r \<and> \<not> is_approved r \<and>
            reconstitute_approval (Stored_RuntimeSafety i) = Ok r) \<and>
         (\<exists>r. initial_resolution Initial_SessionBlanket i = Some r \<and> is_approved r \<and>
            reconstitute_approval (Stored_SessionBlanket i dangerous) =
              (if dangerous = Dangerous_ApproveAll then Ok r
               else Err (Stored_SessionBlanket i dangerous))) \<and>
         (\<exists>r. initial_resolution (Initial_UserOverride c denied) i = Some r \<and> is_approved r \<and>
            reconstitute_approval (Stored_UserOverride i c denied posture) =
              (if posture = initial_posture (Initial_UserOverride c denied) then Ok r
               else Err (Stored_UserOverride i c denied posture)))"
proof (intro conjI, goal_cases)
  case 1
  show ?case
    using applied
    by (auto simp: prepare_applied_def reconstitute_approval_def resolution_user_def split: if_splits)
next
  case 2
  show ?case
    using closure
    by (auto simp: prepare_lifecycle_closure_applied_def reconstitute_approval_def
        resolution_lifecycle_closure_def split: if_splits)
next
  case 3
  show ?case
    using timeout
    by (auto simp: prepare_approval_timeout_applied_def reconstitute_approval_def
        resolution_approval_timeout_def Let_def split: if_splits)
next
  case 4
  show ?case
    using closure
    by (auto simp: prepare_lifecycle_closure_applied_def reconstitute_approval_def
        resolution_lifecycle_closure_def is_approved_def split: if_splits)
next
  case 5
  show ?case
    unfolding reconstitute_approval_def evidence_delegate [symmetric]
    by (auto simp del: evidence_resolution.simps split: option.splits)
next
  case 6
  show ?case by (simp add: reconstitute_approval_def resolution_policy_auto_def is_approved_def)
next
  case 7
  show ?case by (simp add: reconstitute_approval_def resolution_runtime_safety_def is_approved_def)
next
  case 8
  show ?case
    by (cases dangerous) (simp_all add: reconstitute_approval_def resolution_session_blanket_def is_approved_def)
next
  case 9
  show ?case
    by (cases posture) (simp_all add: reconstitute_approval_def resolution_user_override_def is_approved_def)
qed

theorem approval_evidence_round_trip_witness:
  "let request = request_input_new (Ident 5) (Ident 2) (Ident 3) (Ident 4) 0 (ToolName [0x61])
         \<lparr>args_kind = Args_Json, args_value = [0x7B, 0x7D]\<rparr>;
       command = (\<lambda>d. \<lparr>dt_command_id = Ident 9, dt_request = Ident 5, dt_decision = d\<rparr>);
       p = (case prepare_lifecycle_closure_applied (command (Deny None)) request of
              Ok p \<Rightarrow> p | Err _ \<Rightarrow> prepare_already_resolved (command Approve))
   in pd_result p = Decide_Applied (resolution_lifecycle_closure (Ident 5)) \<and>
      reconstitute_approval (Stored_UserCommand p) = Err (Stored_UserCommand p)"
proof -
  define request where "request = request_input_new (Ident 5) (Ident 2) (Ident 3) (Ident 4) 0
      (ToolName [0x61]) \<lparr>args_kind = Args_Json, args_value = [0x7B, 0x7D]\<rparr>"
  define command where
    "command = (\<lambda>d. \<lparr>dt_command_id = Ident 9, dt_request = Ident 5, dt_decision = d\<rparr>)"
  have i: "tr_id request = Ident 5" by (simp add: request_def request_input_new_def)
  have "prepare_applied (command Approve) request = Ok \<lparr>pd_command = command Approve,
      pd_result = Decide_Applied (resolution_user (Ident 9) (Ident 5) Approve)\<rparr>"
    by (simp add: prepare_applied_def command_def i)
  moreover have closure: "prepare_lifecycle_closure_applied (command (Deny None)) request =
      Ok \<lparr>pd_command = command (Deny None),
          pd_result = Decide_Applied (resolution_lifecycle_closure (Ident 5))\<rparr>"
    by (simp add: prepare_lifecycle_closure_applied_def command_def i)
  moreover have "prepare_approval_timeout_applied
      (command (ar_decision (resolution_approval_timeout (Ident 5)))) request =
      Ok \<lparr>pd_command = command (ar_decision (resolution_approval_timeout (Ident 5))),
          pd_result = Decide_Applied (resolution_approval_timeout (Ident 5))\<rparr>"
    by (simp add: prepare_approval_timeout_applied_def command_def i resolution_approval_timeout_def)
  ultimately have "reconstitute_approval (Stored_UserCommand \<lparr>pd_command = command (Deny None),
          pd_result = Decide_Applied (resolution_lifecycle_closure (Ident 5))\<rparr>) =
      Err (Stored_UserCommand \<lparr>pd_command = command (Deny None),
          pd_result = Decide_Applied (resolution_lifecycle_closure (Ident 5))\<rparr>)"
    by (rule approval_evidence_round_trip [THEN conjunct2, THEN conjunct1])
  with closure show ?thesis unfolding Let_def request_def [symmetric] command_def [symmetric] by simp
qed

text \<open>C30. A user override is recorded exactly for a terminally delivered delegate denial of a
  request of the command's own session that has no override yet, and then it names that denial,
  its judge call and exactly the denied tool and arguments; read back with its command, the record
  gives the result that was prepared.\<close>

theorem override_recorded_exactly:
  assumes "produced a" and "ar_request a = od_denied_request command"
    and "tr_id request = od_denied_request command"
  shows "((\<exists>p. prepare_override command request (Some a) terminal existing = Ok p \<and>
            po_result p = Override_Applied recorded) \<longleftrightarrow>
         tr_session request = od_session command \<and>
         ar_source a = Source_Delegate \<and> \<not> is_approved a \<and>
         terminal = Some (Resolution_Denied (od_denied_request command)) \<and> existing = None \<and>
         (\<exists>model call. ar_decider a = Some (Decider_Delegate model call) \<and>
            recorded = \<lparr>uo_command = od_command_id command, uo_session = od_session command,
              uo_denied_request = od_denied_request command, uo_judge_call = call,
              uo_tool = tr_name request, uo_arguments = tr_arguments request\<rparr>)) \<and>
         (\<forall>p. prepare_override command request (Some a) terminal existing = Ok p \<and>
            po_result p = Override_Applied recorded \<longrightarrow>
            override_reconstitute_applied command recorded = Ok p)"
proof -
  have "sealed a" by (rule produced_sealed) (rule assms(1))
  then have call: "delegate_denial_call (Some a) =
      (if ar_source a = Source_Delegate \<and> \<not> is_approved a
       then (case ar_decider a of Some (Decider_Delegate _ call) \<Rightarrow> Some call | _ \<Rightarrow> None) else None)"
    by (cases "ar_source a")
      (auto simp: delegate_denial_call_def is_approved_def split: tool_approval_decision.splits)
  show ?thesis
  proof (cases "ar_source a = Source_Delegate \<and> \<not> is_approved a")
    case True
    with \<open>sealed a\<close> obtain model judge where
      "ar_decider a = Some (Decider_Delegate model judge)" by auto
    with True call show ?thesis
      using assms(2,3)
      by (auto simp: prepare_override_def override_rejections override_reconstitute_applied_def)
  next
    case False
    with call show ?thesis
      using assms(2,3)
      by (auto simp: prepare_override_def override_rejections override_reconstitute_applied_def)
  qed
qed

theorem override_recorded_exactly_witness:
  "let request = with_approval_posture Posture_Delegated
         (request_input_new (Ident 5) (Ident 2) (Ident 3) (Ident 4) 0 (ToolName [0x61])
           \<lparr>args_kind = Args_Json, args_value = [0x7B, 0x7D]\<rparr>);
       approval = \<lparr>da_request = Ident 5, da_posture = Posture_Delegated, da_model = Ident 7,
         da_call = Ident 8, da_recommendation = Recommend_Deny,
         da_rationale = ToolDecisionRationale [0x6E, 0x6F]\<rparr>;
       command = \<lparr>od_command_id = Ident 9, od_session = Ident 2, od_denied_request = Ident 5\<rparr>
   in \<exists>p recorded. prepare_override command request (resolution_delegate approval)
          (Some (Resolution_Denied (Ident 5))) None = Ok p \<and>
        po_result p = Override_Applied recorded \<and> uo_judge_call recorded = Ident 8 \<and>
        matches_proposal recorded (proposal_new (ToolName [0x61])
          \<lparr>args_kind = Args_Json, args_value = [0x7B, 0x7D]\<rparr>)"
proof -
  define request where "request = with_approval_posture Posture_Delegated
      (request_input_new (Ident 5) (Ident 2) (Ident 3) (Ident 4) 0 (ToolName [0x61])
        \<lparr>args_kind = Args_Json, args_value = [0x7B, 0x7D]\<rparr>)"
  define approval where "approval = \<lparr>da_request = Ident 5, da_posture = Posture_Delegated,
      da_model = Ident 7, da_call = Ident 8, da_recommendation = Recommend_Deny,
      da_rationale = ToolDecisionRationale [0x6E, 0x6F]\<rparr>"
  define command :: override_denied where
    "command = \<lparr>od_command_id = Ident 9, od_session = Ident 2, od_denied_request = Ident 5\<rparr>"
  obtain r where r: "resolution_delegate approval = Some r" and r_req: "ar_request r = Ident 5"
    and r_src: "ar_source r = Source_Delegate" "\<not> is_approved r"
    and r_dec: "ar_decider r = Some (Decider_Delegate (Ident 7) (Ident 8))"
    by (simp add: resolution_delegate_def approval_def is_approved_def)
  have "delegate_approval_try_new request (Ident 7) (Ident 8) Recommend_Deny
      (ToolDecisionRationale [0x6E, 0x6F]) = Ok approval"
    by (simp add: delegate_approval_try_new_def request_def with_approval_posture_def
        request_input_new_def approval_def)
  then have "produced r" using r by (rule produced_delegate)
  then have "\<exists>p. prepare_override command request (Some r)
        (Some (Resolution_Denied (Ident 5))) None = Ok p \<and>
      po_result p = Override_Applied \<lparr>uo_command = Ident 9, uo_session = Ident 2,
        uo_denied_request = Ident 5, uo_judge_call = Ident 8, uo_tool = tr_name request,
        uo_arguments = tr_arguments request\<rparr>"
    using r_req r_src r_dec
    by (subst override_recorded_exactly [THEN conjunct1])
      (simp_all add: command_def request_def with_approval_posture_def request_input_new_def)
  then show ?thesis
    unfolding Let_def request_def [symmetric] approval_def [symmetric] command_def [symmetric] r
    by (fastforce simp: matches_proposal_def proposal_new_def request_def with_approval_posture_def
        request_input_new_def)
qed

end
