(* ===== verification/Tool_Attempt.thy ===== *)
theory Tool_Attempt
  imports Tool_Approval
begin

text \<open>
  One physical tool attempt, \<^verbatim>\<open>src/crates/domain/src/tool_attempt.rs\<close>: it is prepared from an
  approved request, authorised once under an exact dispatch fence, and ended by preflight
  errors, fenced executor evidence, a foreground child wait or crash classification. The
  single-use runner-issuance cell shared between clones is an address in an explicit store.
\<close>

section \<open>Generations and approved requests\<close>

type_synonym tool_dispatch_generation = u64

definition dispatch_generation_try_from_u64 :: "u64 \<Rightarrow> tool_dispatch_generation option" where
  "dispatch_generation_try_from_u64 value = (if value = 0 then None else Some value)"

definition dispatch_generation_first :: tool_dispatch_generation where
  "dispatch_generation_first = 1"

definition dispatch_generation_checked_next ::
  "tool_dispatch_generation \<Rightarrow> tool_dispatch_generation option" where
  "dispatch_generation_checked_next g = checked_succ g"

record approved_tool_request =
  ap_request :: tool_request
  ap_approval :: tool_approval_resolution

definition try_from_resolution ::
  "tool_request \<Rightarrow> tool_approval_resolution
     \<Rightarrow> (tool_request \<times> tool_approval_resolution) + approved_tool_request" where
  "try_from_resolution request approval =
     (if tr_inadmissible_reason request \<noteq> None \<or> tr_id request \<noteq> ar_request approval \<or>
         ar_decision approval \<noteq> Approve
      then Err (request, approval)
      else Ok \<lparr>ap_request = request, ap_approval = approval\<rparr>)"

section \<open>Errors and evidence\<close>

datatype tool_execution_error_kind =
    Error_UnknownTool
  | Error_InvalidArguments
  | Error_PreauthorizationRejected
  | Error_ExecutionFailed
  | Error_ResultTooLarge
  | Error_ResultContainsNull
  | Error_CrashLost

datatype tool_execution_error_detail = ToolExecutionErrorDetail (error_detail_str: rust_string)

datatype tool_execution_error_detail_failure =
    Detail_Empty
  | Detail_TooLong nat
  | Detail_SurroundingWhitespace
  | Detail_ContainsControl

definition max_tool_error_detail_bytes :: nat where
  "max_tool_error_detail_bytes = 4096"

definition error_detail_try_new ::
  "rust_string \<Rightarrow> (rust_string \<times> tool_execution_error_detail_failure) + tool_execution_error_detail"
where
  "error_detail_try_new value =
     (let failure =
        if value = [] then Some Detail_Empty
        else if str_len value > max_tool_error_detail_bytes then Some (Detail_TooLong (str_len value))
        else if has_surrounding_posix_whitespace value then Some Detail_SurroundingWhitespace
        else if list_ex is_control value then Some Detail_ContainsControl
        else None
      in case failure of Some f \<Rightarrow> Err (value, f) | None \<Rightarrow> Ok (ToolExecutionErrorDetail value))"

record tool_execution_error =
  te_kind :: tool_execution_error_kind
  te_detail :: "tool_execution_error_detail option"

text \<open>\<^verbatim>\<open>format!("{n}")\<close> of an unsigned integer.\<close>

fun decimal :: "nat \<Rightarrow> rust_string" where
  "decimal n = (if n < 10 then [word_of_nat (48 + n)]
                else decimal (n div 10) @ [word_of_nat (48 + n mod 10)])"

declare decimal.simps [simp del]

fun execution_error :: "tool_inadmissible_reason \<Rightarrow> tool_execution_error" where
  "execution_error (ProposalLimitExceeded limit) =
     \<lparr>te_kind = Error_ExecutionFailed,
      te_detail = Some (ToolExecutionErrorDetail (ascii ''proposal_limit_exceeded: maximum '' @
        decimal (unat limit) @ ascii '' proposals per response''))\<rparr>"
| "execution_error (ArgumentBytesExceeded limit bytes) =
     \<lparr>te_kind = Error_InvalidArguments,
      te_detail = Some (ToolExecutionErrorDetail (ascii ''argument payload has '' @
        decimal (unat bytes) @ ascii '' bytes; maximum '' @ decimal (unat limit) @
        ascii '' bytes''))\<rparr>"
| "execution_error PlacementLost =
     \<lparr>te_kind = Error_ExecutionFailed,
      te_detail = Some (ToolExecutionErrorDetail (ascii ''placement_lost''))\<rparr>"

datatype current_tool_attempt_state = Attempt_Prepared | Attempt_InFlight

datatype tool_attempt_end =
    End_Completed tool_result_content
  | End_KnownFailed tool_execution_error
  | End_AwaitingChild tool_request_id session_id
  | End_Ambiguous

datatype tool_attempt_disposition =
    Disposition_Completed
  | Disposition_KnownFailed
  | Disposition_AwaitingChild
  | Disposition_Ambiguous

fun end_disposition :: "tool_attempt_end \<Rightarrow> tool_attempt_disposition" where
  "end_disposition (End_Completed _) = Disposition_Completed"
| "end_disposition (End_KnownFailed _) = Disposition_KnownFailed"
| "end_disposition (End_AwaitingChild _ _) = Disposition_AwaitingChild"
| "end_disposition End_Ambiguous = Disposition_Ambiguous"

datatype tool_attempt_observation =
    Observed_Completed tool_result_content
  | Observed_KnownFailed tool_execution_error
  | Observed_Ambiguous

record dispatch_correlation =
  dc_session :: session_id
  dc_turn :: turn_id
  dc_issuing_attempt :: turn_attempt_id
  dc_request :: tool_request_id
  dc_attempt :: tool_attempt_id
  dc_generation :: tool_dispatch_generation

datatype issued_executor_fence = IssuedExecutorFence (fence_correlation: dispatch_correlation)

record correlated_observation =
  co_correlation :: dispatch_correlation
  co_observation :: tool_attempt_observation

definition fence_bind ::
  "issued_executor_fence \<Rightarrow> tool_attempt_observation \<Rightarrow> correlated_observation" where
  "fence_bind fence observation =
     \<lparr>co_correlation = fence_correlation fence, co_observation = observation\<rparr>"

text \<open>\<^verbatim>\<open>session_delegation/wait.rs\<close>: the subject of a foreground wait.\<close>

record child_wait =
  cw_awaiting_request :: tool_request_id
  cw_spawning_request :: tool_request_id
  cw_child :: session_id

section \<open>The runner-issuance store\<close>

text \<open>
  An \<^verbatim>\<open>Arc<AtomicU8>\<close> is the index of its cell. \<^verbatim>\<open>Arc::new\<close> appends a cell,
  \<^verbatim>\<open>compare_exchange\<close> reports whether the exchange took place.
\<close>

type_synonym issuance_cell = nat
type_synonym issuance_store = "8 word list"

definition runner_issuance_available :: "8 word" where
  "runner_issuance_available = 0"

definition runner_issuance_issued :: "8 word" where
  "runner_issuance_issued = 1"

definition runner_issuance_retired :: "8 word" where
  "runner_issuance_retired = 2"

definition new_cell :: "8 word \<Rightarrow> issuance_store \<Rightarrow> issuance_cell \<times> issuance_store" where
  "new_cell v st = (length st, st @ [v])"

definition compare_exchange ::
  "issuance_cell \<Rightarrow> 8 word \<Rightarrow> 8 word \<Rightarrow> issuance_store \<Rightarrow> bool \<times> issuance_store" where
  "compare_exchange c expected new st =
     (if c < length st \<and> st ! c = expected then (True, st[c := new]) else (False, st))"

section \<open>Attempts\<close>

record current_tool_attempt =
  ca_attempt :: tool_attempt_id
  ca_request :: tool_request_id
  ca_session :: session_id
  ca_turn :: turn_id
  ca_issuing_attempt :: turn_attempt_id
  ca_effect_class :: tool_effect_class
  ca_generation :: tool_dispatch_generation
  ca_state :: current_tool_attempt_state

record authorized_tool_attempt =
  au_attempt :: current_tool_attempt
  au_correlation :: dispatch_correlation
  au_runner_issuance :: issuance_cell

record ended_tool_attempt =
  ea_attempt :: tool_attempt_id
  ea_request :: tool_request_id
  ea_session :: session_id
  ea_turn :: turn_id
  ea_issuing_attempt :: turn_attempt_id
  ea_effect_class :: tool_effect_class
  ea_generation :: tool_dispatch_generation
  ea_end :: tool_attempt_end

datatype tool_attempt_transition_failure =
    Attempt_InvalidState
  | Attempt_CorrelationMismatch
  | InvalidPreflightError
  | InvalidObservationError
  | EffectFreeCannotBeAmbiguous
  | InvalidChildWait

type_synonym attempt_error = "current_tool_attempt \<times> tool_attempt_transition_failure"

definition prepare_attempt ::
  "approved_tool_request \<Rightarrow> tool_attempt_id \<Rightarrow> turn_attempt_id \<Rightarrow> tool_effect_class
     \<Rightarrow> current_tool_attempt" where
  "prepare_attempt approved attempt issuing effect =
     \<lparr>ca_attempt = attempt, ca_request = tr_id (ap_request approved),
      ca_session = tr_session (ap_request approved), ca_turn = tr_turn (ap_request approved),
      ca_issuing_attempt = issuing, ca_effect_class = effect,
      ca_generation = dispatch_generation_first, ca_state = Attempt_Prepared\<rparr>"

definition attempt_correlation :: "current_tool_attempt \<Rightarrow> dispatch_correlation" where
  "attempt_correlation a =
     \<lparr>dc_session = ca_session a, dc_turn = ca_turn a, dc_issuing_attempt = ca_issuing_attempt a,
      dc_request = ca_request a, dc_attempt = ca_attempt a, dc_generation = ca_generation a\<rparr>"

definition end_attempt :: "current_tool_attempt \<Rightarrow> tool_attempt_end \<Rightarrow> ended_tool_attempt" where
  "end_attempt a e =
     \<lparr>ea_attempt = ca_attempt a, ea_request = ca_request a, ea_session = ca_session a,
      ea_turn = ca_turn a, ea_issuing_attempt = ca_issuing_attempt a,
      ea_effect_class = ca_effect_class a, ea_generation = ca_generation a, ea_end = e\<rparr>"

text \<open>\<^verbatim>\<open>authorize\<close> and \<^verbatim>\<open>resume_in_flight\<close> with the batch's shared issuance cell.\<close>

definition authorize_with_runner_issuance ::
  "current_tool_attempt \<Rightarrow> issuance_cell \<Rightarrow> attempt_error + authorized_tool_attempt" where
  "authorize_with_runner_issuance a cell =
     (if ca_state a \<noteq> Attempt_Prepared then Err (a, Attempt_InvalidState)
      else Ok \<lparr>au_attempt = a\<lparr>ca_state := Attempt_InFlight\<rparr>,
               au_correlation = attempt_correlation a, au_runner_issuance = cell\<rparr>)"

definition authorize ::
  "current_tool_attempt \<Rightarrow> issuance_store
     \<Rightarrow> (attempt_error + authorized_tool_attempt) \<times> issuance_store" where
  "authorize a st =
     (if ca_state a \<noteq> Attempt_Prepared then (Err (a, Attempt_InvalidState), st)
      else let (cell, st') = new_cell runner_issuance_available st in
        (authorize_with_runner_issuance a cell, st'))"

definition resume_in_flight_with_runner_issuance ::
  "current_tool_attempt \<Rightarrow> issuance_cell \<Rightarrow> attempt_error + authorized_tool_attempt" where
  "resume_in_flight_with_runner_issuance a cell =
     (if ca_state a \<noteq> Attempt_InFlight then Err (a, Attempt_InvalidState)
      else Ok \<lparr>au_attempt = a, au_correlation = attempt_correlation a,
               au_runner_issuance = cell\<rparr>)"

definition resume_in_flight ::
  "current_tool_attempt \<Rightarrow> issuance_store
     \<Rightarrow> (attempt_error + authorized_tool_attempt) \<times> issuance_store" where
  "resume_in_flight a st =
     (if ca_state a \<noteq> Attempt_InFlight then (Err (a, Attempt_InvalidState), st)
      else let (cell, st') = new_cell runner_issuance_available st in
        (resume_in_flight_with_runner_issuance a cell, st'))"

definition executor_fence :: "authorized_tool_attempt \<Rightarrow> issued_executor_fence" where
  "executor_fence authorized = IssuedExecutorFence (au_correlation authorized)"

definition claim_runner_issuance ::
  "authorized_tool_attempt \<Rightarrow> issuance_store \<Rightarrow> bool \<times> issuance_store" where
  "claim_runner_issuance authorized st =
     compare_exchange (au_runner_issuance authorized) runner_issuance_available
       runner_issuance_issued st"

definition end_preflight_error ::
  "current_tool_attempt \<Rightarrow> tool_execution_error \<Rightarrow> attempt_error + ended_tool_attempt" where
  "end_preflight_error a err =
     (if ca_state a \<noteq> Attempt_Prepared then Err (a, Attempt_InvalidState)
      else if te_kind err \<notin> {Error_UnknownTool, Error_InvalidArguments, Error_PreauthorizationRejected}
      then Err (a, InvalidPreflightError)
      else Ok (end_attempt a (End_KnownFailed err)))"

definition end_placement_lost ::
  "current_tool_attempt \<Rightarrow> attempt_error + ended_tool_attempt" where
  "end_placement_lost a =
     (if ca_state a \<noteq> Attempt_Prepared then Err (a, Attempt_InvalidState)
      else Ok (end_attempt a (End_KnownFailed (execution_error PlacementLost))))"

definition apply_terminal_observation ::
  "current_tool_attempt \<Rightarrow> correlated_observation \<Rightarrow> attempt_error + ended_tool_attempt" where
  "apply_terminal_observation a observation =
     (if ca_state a \<noteq> Attempt_InFlight then Err (a, Attempt_InvalidState)
      else if co_correlation observation \<noteq> attempt_correlation a
      then Err (a, Attempt_CorrelationMismatch)
      else case co_observation observation of
        Observed_Completed result \<Rightarrow> Ok (end_attempt a (End_Completed result))
      | Observed_KnownFailed err \<Rightarrow>
          if te_kind err \<in> {Error_ExecutionFailed, Error_ResultTooLarge, Error_ResultContainsNull}
          then Ok (end_attempt a (End_KnownFailed err))
          else Err (a, InvalidObservationError)
      | Observed_Ambiguous \<Rightarrow>
          if ca_effect_class a = ExternalEffect then Ok (end_attempt a End_Ambiguous)
          else Err (a, EffectFreeCannotBeAmbiguous))"

definition end_foreground_child_wait ::
  "current_tool_attempt \<Rightarrow> child_wait \<Rightarrow> attempt_error + ended_tool_attempt" where
  "end_foreground_child_wait a wait =
     (if ca_state a \<noteq> Attempt_InFlight then Err (a, Attempt_InvalidState)
      else if ca_effect_class a \<noteq> EffectFree \<or> ca_request a \<noteq> cw_awaiting_request wait
      then Err (a, InvalidChildWait)
      else Ok (end_attempt a (End_AwaitingChild (cw_spawning_request wait) (cw_child wait))))"

datatype tool_attempt_crash_outcome =
    Crash_KnownFailed (crash_ended: ended_tool_attempt)
  | Crash_Ambiguous (crash_ended: ended_tool_attempt)

definition classify_crash_loss :: "current_tool_attempt \<Rightarrow> tool_attempt_crash_outcome" where
  "classify_crash_loss a =
     (case (ca_state a, ca_effect_class a) of
        (Attempt_InFlight, ExternalEffect) \<Rightarrow> Crash_Ambiguous (end_attempt a End_Ambiguous)
      | _ \<Rightarrow> Crash_KnownFailed
          (end_attempt a (End_KnownFailed \<lparr>te_kind = Error_CrashLost, te_detail = None\<rparr>)))"

record tool_dispatch_authority =
  td_request :: tool_request
  td_attempt :: current_tool_attempt
  td_fence :: issued_executor_fence

definition dispatch_authority_try_new ::
  "tool_request \<Rightarrow> authorized_tool_attempt \<Rightarrow> tool_dispatch_authority option" where
  "dispatch_authority_try_new request authorized =
     (let attempt = au_attempt authorized in
      if tr_id request = ca_request attempt \<and> tr_session request = ca_session attempt \<and>
         tr_turn request = ca_turn attempt
      then Some \<lparr>td_request = request, td_attempt = attempt, td_fence = executor_fence authorized\<rparr>
      else None)"

section \<open>Reconstitution\<close>

datatype tool_attempt_reconstitution_state =
    Stored_Prepared
  | Stored_InFlight
  | Stored_Ended tool_attempt_end

record tool_attempt_input =
  ti_attempt :: tool_attempt_id
  ti_request :: tool_request_id
  ti_session :: session_id
  ti_turn :: turn_id
  ti_issuing_attempt :: turn_attempt_id
  ti_effect_class :: tool_effect_class
  ti_generation :: tool_dispatch_generation
  ti_state :: tool_attempt_reconstitution_state

datatype reconstituted_tool_attempt =
    Current current_tool_attempt
  | Ended ended_tool_attempt

fun effect_class_allows_reconstituted_state ::
  "tool_effect_class \<Rightarrow> tool_attempt_reconstitution_state \<Rightarrow> bool" where
  "effect_class_allows_reconstituted_state ExternalEffect (Stored_Ended (End_AwaitingChild _ _)) =
     False"
| "effect_class_allows_reconstituted_state _ _ = True"

definition reconstitute_attempt ::
  "tool_attempt_input \<Rightarrow> tool_attempt_input + reconstituted_tool_attempt" where
  "reconstitute_attempt i =
     (if ti_generation i \<noteq> dispatch_generation_first \<or>
         \<not> effect_class_allows_reconstituted_state (ti_effect_class i) (ti_state i)
      then Err i
      else let current = (\<lambda>s. Current
        \<lparr>ca_attempt = ti_attempt i, ca_request = ti_request i, ca_session = ti_session i,
         ca_turn = ti_turn i, ca_issuing_attempt = ti_issuing_attempt i,
         ca_effect_class = ti_effect_class i, ca_generation = ti_generation i, ca_state = s\<rparr>)
      in Ok (case ti_state i of
        Stored_Prepared \<Rightarrow> current Attempt_Prepared
      | Stored_InFlight \<Rightarrow> current Attempt_InFlight
      | Stored_Ended e \<Rightarrow> Ended
        \<lparr>ea_attempt = ti_attempt i, ea_request = ti_request i, ea_session = ti_session i,
         ea_turn = ti_turn i, ea_issuing_attempt = ti_issuing_attempt i,
         ea_effect_class = ti_effect_class i, ea_generation = ti_generation i, ea_end = e\<rparr>))"

section \<open>Rendered request-level reasons\<close>

lemma error_detail_try_new_Ok_iff:
  "error_detail_try_new value = Ok d \<longleftrightarrow>
     d = ToolExecutionErrorDetail value \<and> value \<noteq> [] \<and>
     str_len value \<le> max_tool_error_detail_bytes \<and>
     \<not> is_posix_scalar (hd value) \<and> \<not> is_posix_scalar (last value) \<and> \<not> list_ex is_control value"
  by (auto simp: error_detail_try_new_def surrounding_whitespace_iff Let_def
      split: option.splits if_splits)

definition printable :: "scalar \<Rightarrow> bool" where
  "printable c \<longleftrightarrow> 0x20 \<le> c \<and> c < 0x7F"

lemma printable_not_control: "printable c \<Longrightarrow> \<not> is_control c"
  by (auto simp: printable_def is_control_def)

lemma printable_len: "list_all printable s \<Longrightarrow> str_len s = length s"
proof (induction s)
  case (Cons c s)
  then have "c < 0x7F" by (simp add: printable_def)
  then have "c < 0x80" by (rule order.strict_trans) simp
  with Cons show ?case by (simp add: len_utf8_def)
qed simp

lemma digit_printable: "d < 10 \<Longrightarrow> printable (word_of_nat (48 + d))"
proof -
  assume d: "d < 10"
  define w :: scalar where "w = word_of_nat (48 + d)"
  have "unat w = 48 + d"
    unfolding w_def using d by (simp only: unsigned_of_nat) (simp add: take_bit_nat_eq_self)
  then have "printable w" using d by (auto simp: printable_def word_le_nat_alt word_less_nat_alt)
  then show ?thesis by (simp only: w_def)
qed

lemma decimal_printable: "list_all printable (decimal n)"
proof (induction n rule: decimal.induct)
  case (1 n)
  then show ?case
    by (subst decimal.simps)
      (auto simp del: of_nat_add of_nat_numeral simp: digit_printable)
qed

lemma decimal_length: "0 < k \<Longrightarrow> n < 10 ^ k \<Longrightarrow> length (decimal n) \<le> k"
proof (induction k arbitrary: n)
  case (Suc k)
  show ?case
  proof (cases "n < 10")
    case True
    then show ?thesis by (subst decimal.simps) simp
  next
    case False
    with Suc.prems have "n div 10 < 10 ^ k" "0 < k" by (auto intro: gr0I simp: less_mult_imp_div_less mult.commute)
    with Suc.IH [of "n div 10"] False show ?thesis by (subst decimal.simps) simp
  qed
qed simp

lemma decimal_u64_length: "length (decimal (unat (w :: u64))) \<le> 20"
proof (rule decimal_length)
  have "unat w < 2 ^ 64" using unsigned_less [of w] by simp
  then show "unat w < 10 ^ 20" by simp
qed simp

lemma rendered_admitted:
  assumes "list_all printable value" and "length value \<le> max_tool_error_detail_bytes"
    and "value \<noteq> []" and "hd value \<noteq> 0x20" and "last value \<noteq> 0x20"
  shows "error_detail_try_new value = Ok (ToolExecutionErrorDetail value)"
proof -
  have "\<not> is_posix_scalar c" if "printable c" "c \<noteq> 0x20" for c
    using that by (auto simp: is_posix_scalar_def printable_def)
  moreover have "printable (hd value)" "printable (last value)"
    using assms(1,3) by (auto simp: list_all_iff)
  moreover have "\<not> list_ex is_control value"
    using assms(1) printable_not_control by (auto simp: list_all_iff list_ex_iff)
  ultimately show ?thesis using assms by (simp add: error_detail_try_new_Ok_iff printable_len)
qed

text \<open>C33. The error rendered for a request refused before dispatch always carries a detail that
  the checked detail type admits, for every 64-bit limit and byte count.\<close>

theorem rendered_reason_admitted:
  "\<exists>detail. te_detail (execution_error reason) = Some detail \<and>
     error_detail_try_new (error_detail_str detail) = Ok detail"
proof (cases reason)
  case (ProposalLimitExceeded limit)
  have "length (decimal (unat limit)) \<le> 20" by (rule decimal_u64_length)
  then have "error_detail_try_new (ascii ''proposal_limit_exceeded: maximum '' @
      decimal (unat limit) @ ascii '' proposals per response'') = Ok (ToolExecutionErrorDetail
      (ascii ''proposal_limit_exceeded: maximum '' @ decimal (unat limit) @
       ascii '' proposals per response''))"
    by (intro rendered_admitted)
      (simp_all add: decimal_printable ascii_def printable_def max_tool_error_detail_bytes_def)
  with ProposalLimitExceeded show ?thesis by simp
next
  case (ArgumentBytesExceeded limit bytes)
  have "length (decimal (unat limit)) \<le> 20" "length (decimal (unat bytes)) \<le> 20"
    by (rule decimal_u64_length)+
  then have "error_detail_try_new (ascii ''argument payload has '' @ decimal (unat bytes) @
      ascii '' bytes; maximum '' @ decimal (unat limit) @ ascii '' bytes'') =
      Ok (ToolExecutionErrorDetail (ascii ''argument payload has '' @ decimal (unat bytes) @
      ascii '' bytes; maximum '' @ decimal (unat limit) @ ascii '' bytes''))"
    by (intro rendered_admitted)
      (simp_all add: decimal_printable ascii_def printable_def max_tool_error_detail_bytes_def)
  with ArgumentBytesExceeded show ?thesis by simp
next
  case PlacementLost
  have "error_detail_try_new (ascii ''placement_lost'') =
      Ok (ToolExecutionErrorDetail (ascii ''placement_lost''))"
    by (intro rendered_admitted)
      (simp_all add: ascii_def printable_def max_tool_error_detail_bytes_def)
  with PlacementLost show ?thesis by simp
qed

section \<open>Life of an attempt\<close>

text \<open>One durable transition of a physical attempt; an ended attempt has none.\<close>

inductive attempt_move :: "reconstituted_tool_attempt \<Rightarrow> reconstituted_tool_attempt \<Rightarrow> bool" where
  move_authorize:
    "authorize_with_runner_issuance a cell = Ok authorized \<Longrightarrow>
     attempt_move (Current a) (Current (au_attempt authorized))"
| move_preflight: "end_preflight_error a err = Ok e \<Longrightarrow> attempt_move (Current a) (Ended e)"
| move_placement_lost: "end_placement_lost a = Ok e \<Longrightarrow> attempt_move (Current a) (Ended e)"
| move_observe: "apply_terminal_observation a observation = Ok e \<Longrightarrow> attempt_move (Current a) (Ended e)"
| move_child_wait: "end_foreground_child_wait a wait = Ok e \<Longrightarrow> attempt_move (Current a) (Ended e)"
| move_crash: "attempt_move (Current a) (Ended (crash_ended (classify_crash_loss a)))"

inductive_cases attempt_move_CurrentE: "attempt_move (Current a) s"
inductive_cases attempt_move_EndedE: "attempt_move (Ended e) s"

text \<open>The ends an attempt of an effect class can honestly reach.\<close>

fun live_end :: "tool_effect_class \<Rightarrow> tool_attempt_end \<Rightarrow> bool" where
  "live_end effect (End_Completed result) = True"
| "live_end effect (End_KnownFailed err) = (te_kind err = Error_CrashLost \<longrightarrow> te_detail err = None)"
| "live_end effect (End_AwaitingChild spawning child) = (effect = EffectFree)"
| "live_end effect End_Ambiguous = (effect = ExternalEffect)"

lemma end_attempt_state [simp]: "end_attempt (a\<lparr>ca_state := s\<rparr>) e = end_attempt a e"
  by (simp add: end_attempt_def)

lemma attempt_correlation_state [simp]: "attempt_correlation (a\<lparr>ca_state := s\<rparr>) = attempt_correlation a"
  by (simp add: attempt_correlation_def)

text \<open>A state of the attempt first prepared as \<open>p\<close>.\<close>

definition attempt_of :: "current_tool_attempt \<Rightarrow> reconstituted_tool_attempt \<Rightarrow> bool" where
  "attempt_of p s \<longleftrightarrow>
     (\<exists>state. s = Current (p\<lparr>ca_state := state\<rparr>)) \<or>
     (\<exists>e. s = Ended (end_attempt p e) \<and> live_end (ca_effect_class p) e)"

lemma crash_live:
  "\<exists>e. crash_ended (classify_crash_loss (p\<lparr>ca_state := state\<rparr>)) = end_attempt p e \<and>
     live_end (ca_effect_class p) e"
  by (cases state; cases "ca_effect_class p") (auto simp: classify_crash_loss_def)

lemma attempt_of_move: "attempt_move s t \<Longrightarrow> attempt_of p s \<Longrightarrow> attempt_of p t"
proof (induction rule: attempt_move.induct)
  case (move_authorize a cell authorized)
  then show ?case
    by (auto simp: attempt_of_def authorize_with_runner_issuance_def split: if_splits)
next
  case (move_preflight a err e)
  then show ?case by (auto simp: attempt_of_def end_preflight_error_def split: if_splits)
next
  case (move_placement_lost a e)
  then show ?case by (auto simp: attempt_of_def end_placement_lost_def split: if_splits)
next
  case (move_observe a observation e)
  then show ?case
    by (auto simp: attempt_of_def apply_terminal_observation_def
        split: if_splits tool_attempt_observation.splits)
next
  case (move_child_wait a wait e)
  then show ?case by (auto simp: attempt_of_def end_foreground_child_wait_def split: if_splits)
next
  case (move_crash a)
  then show ?case using crash_live by (auto simp: attempt_of_def)
qed

lemma attempt_of_moves: "attempt_move\<^sup>*\<^sup>* s t \<Longrightarrow> attempt_of p s \<Longrightarrow> attempt_of p t"
  by (induction rule: rtranclp_induct) (auto intro: attempt_of_move)

lemma attempt_of_start: "ca_state p = Attempt_Prepared \<Longrightarrow> attempt_of p (Current p)"
  unfolding attempt_of_def by (rule disjI1) (metis (full_types) current_tool_attempt.cases_scheme
      current_tool_attempt.select_convs(8) current_tool_attempt.update_convs(8))

lemma ended_final: "attempt_move\<^sup>*\<^sup>* (Ended e) s \<Longrightarrow> s = Ended e"
  by (induction rule: rtranclp_induct) (auto elim: attempt_move_EndedE)

lemma authorize_move:
  "ca_state p = Attempt_Prepared \<Longrightarrow>
   attempt_move (Current p) (Current (p\<lparr>ca_state := Attempt_InFlight\<rparr>))"
  using move_authorize [of p 0] by (simp add: authorize_with_runner_issuance_def)

lemma observe_move:
  assumes "ca_state p = Attempt_InFlight"
    and "apply_terminal_observation p \<lparr>co_correlation = attempt_correlation p, co_observation = obs\<rparr> =
      Ok (end_attempt p e)"
  shows "attempt_move (Current p) (Ended (end_attempt p e))"
  using assms(2) by (rule move_observe)

text \<open>Every honest end is reached from a prepared attempt.\<close>

lemma live_end_reached:
  assumes p: "ca_state p = Attempt_Prepared" and e: "live_end (ca_effect_class p) e"
  shows "attempt_move\<^sup>*\<^sup>* (Current p) (Ended (end_attempt p e))"
proof -
  define q where "q = p\<lparr>ca_state := Attempt_InFlight\<rparr>"
  have pq: "attempt_move\<^sup>*\<^sup>* (Current p) (Current q)"
    unfolding q_def using authorize_move [OF p] by (rule r_into_rtranclp)
  have q: "ca_state q = Attempt_InFlight" "end_attempt q = end_attempt p"
      "ca_effect_class q = ca_effect_class p"
    by (simp_all add: q_def fun_eq_iff)
  have observed: ?thesis if "apply_terminal_observation q
      \<lparr>co_correlation = attempt_correlation q, co_observation = obs\<rparr> = Ok (end_attempt q e)" for obs
    using pq observe_move [OF q(1) that] q(2) by (simp add: rtranclp.rtrancl_into_rtrancl)
  show ?thesis
  proof (cases e)
    case (End_Completed result)
    then show ?thesis using q
      by (intro observed [of "Observed_Completed result"]) (simp add: apply_terminal_observation_def)
  next
    case (End_KnownFailed err)
    consider "te_kind err = Error_CrashLost"
      | "te_kind err \<in> {Error_UnknownTool, Error_InvalidArguments, Error_PreauthorizationRejected}"
      | "te_kind err \<in> {Error_ExecutionFailed, Error_ResultTooLarge, Error_ResultContainsNull}"
      by (cases "te_kind err") auto
    then show ?thesis
    proof cases
      case 1
      with e End_KnownFailed have "err = \<lparr>te_kind = Error_CrashLost, te_detail = None\<rparr>" by simp
      then have "crash_ended (classify_crash_loss p) = end_attempt p e"
        using p End_KnownFailed by (simp add: classify_crash_loss_def)
      with move_crash [of p] show ?thesis by auto
    next
      case 2
      then have "end_preflight_error p err = Ok (end_attempt p e)"
        using p End_KnownFailed by (auto simp: end_preflight_error_def)
      then show ?thesis by (blast intro: move_preflight)
    next
      case 3
      then show ?thesis using q End_KnownFailed
        by (intro observed [of "Observed_KnownFailed err"])
          (auto simp: apply_terminal_observation_def)
    qed
  next
    case (End_AwaitingChild spawning child)
    then have "end_foreground_child_wait q \<lparr>cw_awaiting_request = ca_request q,
        cw_spawning_request = spawning, cw_child = child\<rparr> = Ok (end_attempt p e)"
      using q e by (simp add: end_foreground_child_wait_def)
    then have "attempt_move (Current q) (Ended (end_attempt p e))" by (rule move_child_wait)
    with pq show ?thesis by (rule rtranclp.rtrancl_into_rtrancl)
  next
    case End_Ambiguous
    then show ?thesis using q e
      by (intro observed [of Observed_Ambiguous]) (simp add: apply_terminal_observation_def)
  qed
qed

text \<open>C31. A prepared attempt ends exactly in the honest ends of its effect class: ambiguity only
  for external effects, a foreground child wait only without effects, a crash loss without
  fabricated detail. It keeps every identity it was prepared with, and an ended attempt stays as
  it ended.\<close>

theorem attempt_ends_exactly:
  assumes p: "p = prepare_attempt approved attempt issuing effect"
  shows "(attempt_move\<^sup>*\<^sup>* (Current p) (Ended e) \<longleftrightarrow>
            (\<exists>end. e = end_attempt p end \<and> live_end effect end)) \<and>
         (attempt_move\<^sup>*\<^sup>* (Ended e) s \<longleftrightarrow> s = Ended e)"
proof -
  have state: "ca_state p = Attempt_Prepared" and effect: "ca_effect_class p = effect"
    by (simp_all add: p prepare_attempt_def)
  have "\<exists>end. e = end_attempt p end \<and> live_end effect end"
    if "attempt_move\<^sup>*\<^sup>* (Current p) (Ended e)"
  proof -
    have "attempt_of p (Ended e)" by (rule attempt_of_moves [OF that attempt_of_start [OF state]])
    then show ?thesis by (auto simp: attempt_of_def effect)
  qed
  moreover have "attempt_move\<^sup>*\<^sup>* (Current p) (Ended e)"
    if "\<exists>end. e = end_attempt p end \<and> live_end effect end"
    using that live_end_reached [OF state] by (auto simp: effect)
  ultimately show ?thesis using ended_final by blast
qed

theorem attempt_ends_exactly_witness:
  "let request = request_input_new (Ident 5) (Ident 2) (Ident 3) (Ident 4) 0 (ToolName [0x61])
         \<lparr>args_kind = Args_Json, args_value = [0x7B, 0x7D]\<rparr>;
       p = prepare_attempt \<lparr>ap_request = request, ap_approval = resolution_policy_auto (Ident 5)\<rparr>
         (Ident 6) (Ident 7) ExternalEffect
   in attempt_move\<^sup>*\<^sup>* (Current p) (Ended (end_attempt p End_Ambiguous)) \<and>
      \<not> attempt_move\<^sup>*\<^sup>* (Current p) (Ended (end_attempt p (End_AwaitingChild (Ident 5) (Ident 8))))"
proof -
  define p where "p = prepare_attempt \<lparr>ap_request = request_input_new (Ident 5) (Ident 2) (Ident 3)
      (Ident 4) 0 (ToolName [0x61]) \<lparr>args_kind = Args_Json, args_value = [0x7B, 0x7D]\<rparr>,
      ap_approval = resolution_policy_auto (Ident 5)\<rparr> (Ident 6) (Ident 7) ExternalEffect"
  show ?thesis
    unfolding Let_def p_def [symmetric]
    by (simp add: attempt_ends_exactly [OF p_def, THEN conjunct1])
      (simp add: end_attempt_def)
qed

section \<open>Fencing\<close>

text \<open>C8. Executor evidence ends an attempt exactly when the attempt is in flight and agrees with
  the issued fence on session, turn, issuing attempt, request, physical attempt and dispatch
  generation, and the evidence is one an executor may give for its effect class; every other
  attempt is handed back unchanged.\<close>

theorem observation_fenced:
  assumes "authorize_with_runner_issuance a cell = Ok authorized"
  shows "(apply_terminal_observation b (fence_bind (executor_fence authorized) observation) = Ok e \<longleftrightarrow>
            ca_state b = Attempt_InFlight \<and> ca_session b = ca_session a \<and> ca_turn b = ca_turn a \<and>
            ca_issuing_attempt b = ca_issuing_attempt a \<and> ca_request b = ca_request a \<and>
            ca_attempt b = ca_attempt a \<and> ca_generation b = ca_generation a \<and>
            (case observation of
               Observed_Completed result \<Rightarrow> e = end_attempt b (End_Completed result)
             | Observed_KnownFailed err \<Rightarrow>
                 te_kind err \<in> {Error_ExecutionFailed, Error_ResultTooLarge, Error_ResultContainsNull} \<and>
                 e = end_attempt b (End_KnownFailed err)
             | Observed_Ambiguous \<Rightarrow>
                 ca_effect_class b = ExternalEffect \<and> e = end_attempt b End_Ambiguous)) \<and>
         (apply_terminal_observation b (fence_bind (executor_fence authorized) observation) =
            Err (b', failure) \<longrightarrow> b' = b)"
proof -
  have "au_correlation authorized = attempt_correlation a"
    using assms by (auto simp: authorize_with_runner_issuance_def split: if_splits)
  then have fence: "co_correlation (fence_bind (executor_fence authorized) observation) =
      attempt_correlation a" "co_observation (fence_bind (executor_fence authorized) observation) =
      observation"
    by (simp_all add: fence_bind_def executor_fence_def)
  have same: "attempt_correlation a = attempt_correlation b \<longleftrightarrow>
      ca_session b = ca_session a \<and> ca_turn b = ca_turn a \<and>
      ca_issuing_attempt b = ca_issuing_attempt a \<and> ca_request b = ca_request a \<and>
      ca_attempt b = ca_attempt a \<and> ca_generation b = ca_generation a"
    by (auto simp: attempt_correlation_def)
  show ?thesis
    unfolding apply_terminal_observation_def fence same
    by (auto split: tool_attempt_observation.splits if_splits)
qed

theorem observation_fenced_witness:
  "let a = prepare_attempt \<lparr>ap_request = request_input_new (Ident 5) (Ident 2) (Ident 3) (Ident 4) 0
         (ToolName [0x61]) \<lparr>args_kind = Args_Json, args_value = [0x7B, 0x7D]\<rparr>,
         ap_approval = resolution_policy_auto (Ident 5)\<rparr> (Ident 6) (Ident 7) ExternalEffect;
       live = a\<lparr>ca_state := Attempt_InFlight\<rparr>;
       fence = IssuedExecutorFence (attempt_correlation a)
   in apply_terminal_observation live (fence_bind fence Observed_Ambiguous) =
        Ok (end_attempt a End_Ambiguous) \<and>
      (\<forall>e. apply_terminal_observation (live\<lparr>ca_attempt := Ident 9\<rparr>)
         (fence_bind fence Observed_Ambiguous) \<noteq> Ok e)"
proof -
  define a where "a = prepare_attempt \<lparr>ap_request = request_input_new (Ident 5) (Ident 2) (Ident 3)
      (Ident 4) 0 (ToolName [0x61]) \<lparr>args_kind = Args_Json, args_value = [0x7B, 0x7D]\<rparr>,
      ap_approval = resolution_policy_auto (Ident 5)\<rparr> (Ident 6) (Ident 7) ExternalEffect"
  define authorized where "authorized = \<lparr>au_attempt = a\<lparr>ca_state := Attempt_InFlight\<rparr>,
      au_correlation = attempt_correlation a, au_runner_issuance = 0\<rparr>"
  have a: "ca_attempt a = Ident 6" "ca_effect_class a = ExternalEffect" "ca_state a = Attempt_Prepared"
    by (simp_all add: a_def prepare_attempt_def)
  then have issued: "authorize_with_runner_issuance a 0 = Ok authorized"
    by (simp add: authorize_with_runner_issuance_def authorized_def)
  have fence: "executor_fence authorized = IssuedExecutorFence (attempt_correlation a)"
    by (simp add: executor_fence_def authorized_def)
  note exact = observation_fenced [OF issued, THEN conjunct1, unfolded fence]
  have "apply_terminal_observation (a\<lparr>ca_state := Attempt_InFlight\<rparr>)
      (fence_bind (IssuedExecutorFence (attempt_correlation a)) Observed_Ambiguous) =
      Ok (end_attempt a End_Ambiguous)"
    by (simp add: exact a)
  moreover have "apply_terminal_observation (a\<lparr>ca_state := Attempt_InFlight, ca_attempt := Ident 9\<rparr>)
      (fence_bind (IssuedExecutorFence (attempt_correlation a)) Observed_Ambiguous) \<noteq> Ok e" for e
    by (simp add: exact a)
  ultimately show ?thesis unfolding Let_def a_def [symmetric] by blast
qed

section \<open>Stored attempts\<close>

fun stored_attempt :: "reconstituted_tool_attempt \<Rightarrow> tool_attempt_input" where
  "stored_attempt (Current a) =
     \<lparr>ti_attempt = ca_attempt a, ti_request = ca_request a, ti_session = ca_session a,
      ti_turn = ca_turn a, ti_issuing_attempt = ca_issuing_attempt a,
      ti_effect_class = ca_effect_class a, ti_generation = ca_generation a,
      ti_state = (case ca_state a of Attempt_Prepared \<Rightarrow> Stored_Prepared
                  | Attempt_InFlight \<Rightarrow> Stored_InFlight)\<rparr>"
| "stored_attempt (Ended e) =
     \<lparr>ti_attempt = ea_attempt e, ti_request = ea_request e, ti_session = ea_session e,
      ti_turn = ea_turn e, ti_issuing_attempt = ea_issuing_attempt e,
      ti_effect_class = ea_effect_class e, ti_generation = ea_generation e,
      ti_state = Stored_Ended (ea_end e)\<rparr>"

lemma allows_live_end:
  "live_end effect e \<Longrightarrow> effect_class_allows_reconstituted_state effect (Stored_Ended e)"
  by (cases e; cases effect) auto

lemma attempt_of_stored:
  assumes "attempt_of p s" and "ca_generation p = dispatch_generation_first"
  shows "reconstitute_attempt (stored_attempt s) = Ok s"
proof -
  consider state where "s = Current (p\<lparr>ca_state := state\<rparr>)"
    | e where "s = Ended (end_attempt p e)" "live_end (ca_effect_class p) e"
    using assms(1) by (auto simp: attempt_of_def)
  then show ?thesis
  proof cases
    case 1
    with assms(2) show ?thesis by (cases state) (simp_all add: reconstitute_attempt_def)
  next
    case 2
    with assms(2) show ?thesis
      by (simp add: reconstitute_attempt_def end_attempt_def allows_live_end)
  qed
qed

text \<open>C32. Storing any state an attempt can be in and reconstituting it gives the same state back,
  and whatever reconstitution accepts stores as the same facts.\<close>

theorem attempt_storage_round_trip:
  assumes "attempt_move\<^sup>*\<^sup>* (Current (prepare_attempt approved attempt issuing effect)) s"
  shows "reconstitute_attempt (stored_attempt s) = Ok s \<and>
         (reconstitute_attempt i = Ok r \<longrightarrow> stored_attempt r = i)"
proof
  define p where "p = prepare_attempt approved attempt issuing effect"
  have "attempt_of p (Current p)" by (rule attempt_of_start) (simp add: p_def prepare_attempt_def)
  then have "attempt_of p s" using attempt_of_moves assms by (simp add: p_def)
  then show "reconstitute_attempt (stored_attempt s) = Ok s"
    by (rule attempt_of_stored) (simp add: p_def prepare_attempt_def)
  show "reconstitute_attempt i = Ok r \<longrightarrow> stored_attempt r = i"
    by (cases "ti_state i") (auto simp: reconstitute_attempt_def split: if_splits)
qed

theorem attempt_storage_round_trip_witness:
  "let p = prepare_attempt \<lparr>ap_request = request_input_new (Ident 5) (Ident 2) (Ident 3) (Ident 4) 0
         (ToolName [0x61]) \<lparr>args_kind = Args_Json, args_value = [0x7B, 0x7D]\<rparr>,
         ap_approval = resolution_policy_auto (Ident 5)\<rparr> (Ident 6) (Ident 7) EffectFree
   in reconstitute_attempt (stored_attempt (Ended (crash_ended (classify_crash_loss p)))) =
        Ok (Ended (crash_ended (classify_crash_loss p)))"
  unfolding Let_def
  by (rule attempt_storage_round_trip [THEN conjunct1]) (rule r_into_rtranclp, rule move_crash)

end
