(* ===== verification/Context_Frontier.thy ===== *)
theory Context_Frontier
  imports Std_Collections "HOL-Library.Sublist"
begin

text \<open>
  Immutable context-frontier snapshots, \<^verbatim>\<open>src/crates/domain/src/context_frontier.rs\<close>. A snapshot
  shares structure with the snapshot it was derived from: a lineage map from snapshot identity
  to an allocation token lets prefix and content comparisons answer by pointer equality, and a
  validation cache keyed by the same tokens skips entries already checked. Both shortcuts are
  proved to give the answers of the plain comparison of the ordered entries.
\<close>

section \<open>References\<close>

record context_frontier =
  owning_session :: session_id
  snapshot :: context_frontier_id

datatype semantic_transcript_entry_ref =
  SemanticTranscriptEntryRef (source_session: session_id) (transcript_entry: semantic_transcript_entry_id)

text \<open>The derived \<^verbatim>\<open>Ord\<close> compares the fields in declaration order.\<close>

instantiation semantic_transcript_entry_ref :: linorder
begin

definition less_eq_semantic_transcript_entry_ref ::
  "semantic_transcript_entry_ref \<Rightarrow> semantic_transcript_entry_ref \<Rightarrow> bool" where
  "less_eq_semantic_transcript_entry_ref a b \<longleftrightarrow>
     source_session a < source_session b \<or>
     source_session a = source_session b \<and> transcript_entry a \<le> transcript_entry b"

definition less_semantic_transcript_entry_ref ::
  "semantic_transcript_entry_ref \<Rightarrow> semantic_transcript_entry_ref \<Rightarrow> bool" where
  "less_semantic_transcript_entry_ref a b \<longleftrightarrow>
     source_session a < source_session b \<or>
     source_session a = source_session b \<and> transcript_entry a < transcript_entry b"

instance
  by standard
    (auto simp: less_eq_semantic_transcript_entry_ref_def less_semantic_transcript_entry_ref_def
      semantic_transcript_entry_ref.expand)

end

type_synonym entry_ref = semantic_transcript_entry_ref

section \<open>Shared content\<close>

text \<open>
  \<^verbatim>\<open>Arc<ContentToken>\<close> is the address of its allocation. Each operation that calls
  \<^verbatim>\<open>Arc::new(ContentToken)\<close> takes the allocated token as its first argument; that the
  allocator never hands out an address twice is the world relation below. The persistent
  vector, set and map are the list, the ordered set and the ordered map.
\<close>

type_synonym content_token = nat

record frontier_content_node =
  node_ordered_entries :: "entry_ref list"
  appended_start :: nat
  node_token :: content_token

record frontier_content =
  content_ordered_entries :: "entry_ref list"
  membership :: "entry_ref list"
  lineage :: "(context_frontier_id \<times> content_token) list"
  token :: content_token
  validation_nodes :: "frontier_content_node list"
  immediate_prefix :: "context_frontier option"
  appended_entry_count :: nat

record reconstitution_content =
  rc_frontier :: frontier_content
  rc_first_duplicate :: "entry_ref option"

record resolved_snapshot =
  rs_frontier :: context_frontier
  rs_content :: frontier_content

text \<open>The \<^verbatim>\<open>OnceLock\<close> of materialised entries caches the vector's contents and is omitted.\<close>

record reconstitution_input =
  ri_owning_session :: session_id
  ri_snapshot :: context_frontier_id
  ri_content :: reconstitution_content

definition from_distinct ::
  "content_token \<Rightarrow> context_frontier_id \<Rightarrow> entry_ref list \<Rightarrow> frontier_content" where
  "from_distinct fresh snap entries =
     \<lparr>content_ordered_entries = entries, membership = bs_of_list entries,
      lineage = bt_insert snap fresh [], token = fresh,
      validation_nodes =
        [\<lparr>node_ordered_entries = entries, appended_start = 0, node_token = fresh\<rparr>],
      immediate_prefix = None, appended_entry_count = length entries\<rparr>"

definition is_shared_prefix_of ::
  "frontier_content \<Rightarrow> context_frontier_id \<Rightarrow> content_token \<Rightarrow> frontier_content \<Rightarrow> bool" where
  "is_shared_prefix_of content snap tok later \<longleftrightarrow>
     length (content_ordered_entries content) \<le> length (content_ordered_entries later) \<and>
     (case bt_get (lineage later) snap of None \<Rightarrow> False | Some later_token \<Rightarrow> tok = later_token)"

text \<open>The loop over entries that records the first duplicate and inserts everything else.\<close>

fun track_duplicate :: "entry_ref \<Rightarrow> entry_ref list \<times> entry_ref option
    \<Rightarrow> entry_ref list \<times> entry_ref option" where
  "track_duplicate entry (members, duplicate) =
     (if duplicate = None \<and> entry \<in> set members then (members, Some entry)
      else (bs_insert entry members, duplicate))"

definition from_complete ::
  "content_token \<Rightarrow> context_frontier_id \<Rightarrow> entry_ref list \<Rightarrow> reconstitution_content" where
  "from_complete fresh snap entries =
     (let (members, duplicate) = fold track_duplicate entries ([], None) in
      \<lparr>rc_frontier = (from_distinct fresh snap entries)\<lparr>membership := members\<rparr>,
       rc_first_duplicate = duplicate\<rparr>)"

text \<open>The successor content shared by both derivations.\<close>

definition append_content ::
  "content_token \<Rightarrow> frontier_content \<Rightarrow> context_frontier \<Rightarrow> context_frontier_id
     \<Rightarrow> entry_ref list \<Rightarrow> entry_ref list \<Rightarrow> frontier_content" where
  "append_content fresh content source snap members appended =
     (let entries = content_ordered_entries content @ appended in
      \<lparr>content_ordered_entries = entries, membership = members,
       lineage = bt_insert snap fresh (lineage content), token = fresh,
       validation_nodes = validation_nodes content @
         [\<lparr>node_ordered_entries = entries, appended_start = length entries - length appended,
           node_token = fresh\<rparr>],
       immediate_prefix = Some source, appended_entry_count = length appended\<rparr>)"

definition rc_derive_appending ::
  "content_token \<Rightarrow> reconstitution_content \<Rightarrow> session_id \<Rightarrow> context_frontier_id
     \<Rightarrow> context_frontier_id \<Rightarrow> entry_ref list \<Rightarrow> reconstitution_content" where
  "rc_derive_appending fresh content owner source_snapshot snap appended =
     (let (members, duplicate) =
        fold track_duplicate appended (membership (rc_frontier content), rc_first_duplicate content)
      in \<lparr>rc_frontier = append_content fresh (rc_frontier content)
            \<lparr>owning_session = owner, snapshot = source_snapshot\<rparr> snap members appended,
          rc_first_duplicate = duplicate\<rparr>)"

section \<open>Reconstitution input\<close>

definition input_new ::
  "content_token \<Rightarrow> session_id \<Rightarrow> context_frontier_id \<Rightarrow> entry_ref list \<Rightarrow> reconstitution_input"
where
  "input_new fresh owner snap entries =
     \<lparr>ri_owning_session = owner, ri_snapshot = snap, ri_content = from_complete fresh snap entries\<rparr>"

definition input_derive_appending ::
  "content_token \<Rightarrow> reconstitution_input \<Rightarrow> context_frontier_id \<Rightarrow> entry_ref list
     \<Rightarrow> reconstitution_input" where
  "input_derive_appending fresh input snap appended =
     \<lparr>ri_owning_session = ri_owning_session input, ri_snapshot = snap,
      ri_content = rc_derive_appending fresh (ri_content input) (ri_owning_session input)
        (ri_snapshot input) snap appended\<rparr>"

definition input_entries :: "reconstitution_input \<Rightarrow> entry_ref list" where
  "input_entries input = content_ordered_entries (rc_frontier (ri_content input))"

section \<open>Snapshots\<close>

datatype construction_rejection = Construction_DuplicateEntry entry_ref

type_synonym construction_error =
  "session_id \<times> context_frontier_id \<times> entry_ref list \<times> construction_rejection"

datatype derivation_rejection =
    ReusedSourceSnapshotIdentity
  | Derivation_DuplicateEntry entry_ref

type_synonym derivation_error = "context_frontier_id \<times> entry_ref list \<times> derivation_rejection"

text \<open>\<^verbatim>\<open>find(|entry| !seen.insert(*entry))\<close>: the first entry already in the set.\<close>

fun find_repeated :: "entry_ref list \<Rightarrow> entry_ref list \<Rightarrow> entry_ref option" where
  "find_repeated seen [] = None"
| "find_repeated seen (entry # rest) =
     (if entry \<in> set seen then Some entry else find_repeated (bs_insert entry seen) rest)"

definition first_duplicate :: "entry_ref list \<Rightarrow> entry_ref option" where
  "first_duplicate entries = find_repeated [] entries"

definition try_from_candidate ::
  "content_token \<Rightarrow> session_id \<Rightarrow> context_frontier_id \<Rightarrow> entry_ref list
     \<Rightarrow> construction_error + resolved_snapshot" where
  "try_from_candidate fresh owner snap entries =
     (case first_duplicate entries of
        Some duplicate \<Rightarrow> Err (owner, snap, entries, Construction_DuplicateEntry duplicate)
      | None \<Rightarrow>
          Ok \<lparr>rs_frontier = \<lparr>owning_session = owner, snapshot = snap\<rparr>,
              rs_content = from_distinct fresh snap entries\<rparr>)"

definition try_from_reconstitution_input ::
  "reconstitution_input \<Rightarrow> construction_error + resolved_snapshot" where
  "try_from_reconstitution_input input =
     (case rc_first_duplicate (ri_content input) of
        Some duplicate \<Rightarrow>
          Err (ri_owning_session input, ri_snapshot input, input_entries input,
               Construction_DuplicateEntry duplicate)
      | None \<Rightarrow>
          Ok \<lparr>rs_frontier =
                \<lparr>owning_session = ri_owning_session input, snapshot = ri_snapshot input\<rparr>,
              rs_content = rc_frontier (ri_content input)\<rparr>)"

definition reconstitute_input :: "reconstitution_input \<Rightarrow> resolved_snapshot option" where
  "reconstitute_input input =
     (case try_from_reconstitution_input input of Err _ \<Rightarrow> None | Ok s \<Rightarrow> Some s)"

text \<open>\<^verbatim>\<open>membership.insert_mut\<close> of the entries before the first duplicate; all of them if none.\<close>

definition derive_appending_candidate ::
  "content_token \<Rightarrow> resolved_snapshot \<Rightarrow> context_frontier_id \<Rightarrow> entry_ref list
     \<Rightarrow> derivation_error + resolved_snapshot" where
  "derive_appending_candidate fresh s next_snapshot appended =
     (if next_snapshot = snapshot (rs_frontier s)
      then Err (next_snapshot, appended, ReusedSourceSnapshotIdentity)
      else case find_repeated (membership (rs_content s)) appended of
        Some entry \<Rightarrow> Err (next_snapshot, appended, Derivation_DuplicateEntry entry)
      | None \<Rightarrow>
          Ok \<lparr>rs_frontier = \<lparr>owning_session = owning_session (rs_frontier s),
                             snapshot = next_snapshot\<rparr>,
              rs_content = append_content fresh (rs_content s) (rs_frontier s) next_snapshot
                (fold bs_insert appended (membership (rs_content s))) appended\<rparr>)"

definition entry_count :: "resolved_snapshot \<Rightarrow> nat" where
  "entry_count s = length (content_ordered_entries (rs_content s))"

definition ordered_entries :: "resolved_snapshot \<Rightarrow> entry_ref list" where
  "ordered_entries s = content_ordered_entries (rs_content s)"

definition same_semantic_content :: "resolved_snapshot \<Rightarrow> resolved_snapshot \<Rightarrow> bool" where
  "same_semantic_content s other \<longleftrightarrow>
     entry_count s = entry_count other \<and>
       (is_shared_prefix_of (rs_content s) (snapshot (rs_frontier s)) (token (rs_content s))
          (rs_content other) \<or>
        is_shared_prefix_of (rs_content other) (snapshot (rs_frontier other))
          (token (rs_content other)) (rs_content s)) \<or>
     content_ordered_entries (rs_content s) = content_ordered_entries (rs_content other)"

definition is_semantic_prefix_of :: "resolved_snapshot \<Rightarrow> resolved_snapshot \<Rightarrow> bool" where
  "is_semantic_prefix_of s later =
     (if is_shared_prefix_of (rs_content s) (snapshot (rs_frontier s)) (token (rs_content s))
           (rs_content later)
      then True
      else if entry_count s > entry_count later then False
      else ordered_entries s = take (entry_count s) (ordered_entries later))"

definition immediate_semantic_prefix :: "resolved_snapshot \<Rightarrow> context_frontier option" where
  "immediate_semantic_prefix s = immediate_prefix (rs_content s)"

text \<open>\<^verbatim>\<open>FrontierEntryRange\<close> run forwards to its end.\<close>

function frontier_entry_range :: "entry_ref list \<Rightarrow> nat \<Rightarrow> nat \<Rightarrow> entry_ref list" where
  "frontier_entry_range entries front back =
     (if front = back then []
      else if front < length entries
      then entries ! front # frontier_entry_range entries (front + 1) back
      else [])"
  by pat_completeness auto
termination
  by (relation "measure (\<lambda>(entries, front, back). length entries - front)") auto

declare frontier_entry_range.simps [simp del]

definition appended_entries :: "resolved_snapshot \<Rightarrow> entry_ref list" where
  "appended_entries s =
     frontier_entry_range (content_ordered_entries (rs_content s))
       (entry_count s - appended_entry_count (rs_content s)) (entry_count s)"

definition has_semantic_prefix_and_suffix ::
  "resolved_snapshot \<Rightarrow> resolved_snapshot \<Rightarrow> entry_ref list \<Rightarrow> bool" where
  "has_semantic_prefix_and_suffix s pre tail =
     (if \<not> is_semantic_prefix_of pre s \<or> entry_count s \<noteq> entry_count pre + length tail
      then False
      else list_all (\<lambda>(offset, expected).
             entry_count pre + offset < entry_count s \<and>
             content_ordered_entries (rs_content s) ! (entry_count pre + offset) = expected)
           (zip [0..<length tail] tail))"

definition ordered_entries_range :: "resolved_snapshot \<Rightarrow> nat \<Rightarrow> nat \<Rightarrow> entry_ref list" where
  "ordered_entries_range s start end' =
     frontier_entry_range (content_ordered_entries (rs_content s)) start end'"

section \<open>Cached validation\<close>

text \<open>The reversed scan collects the nodes after the last validated one, newest first.\<close>

fun unvalidated_suffix ::
  "content_token list \<Rightarrow> frontier_content_node list \<Rightarrow> frontier_content_node list" where
  "unvalidated_suffix cache [] = []"
| "unvalidated_suffix cache (node # older) =
     (if node_token node \<in> set cache then [] else node # unvalidated_suffix cache older)"

fun validate_nodes ::
  "(entry_ref \<Rightarrow> bool) \<Rightarrow> frontier_content_node list \<Rightarrow> content_token list
     \<Rightarrow> entry_ref option \<times> content_token list" where
  "validate_nodes contains [] cache = (None, cache)"
| "validate_nodes contains (node # nodes) cache =
     (case find (\<lambda>entry. \<not> contains entry)
             (frontier_entry_range (node_ordered_entries node) (appended_start node)
               (length (node_ordered_entries node))) of
        Some entry \<Rightarrow> (Some entry, cache)
      | None \<Rightarrow> validate_nodes contains nodes (bs_insert (node_token node) cache))"

definition first_missing_entry ::
  "(entry_ref \<Rightarrow> bool) \<Rightarrow> reconstitution_input \<Rightarrow> content_token list
     \<Rightarrow> entry_ref option \<times> content_token list" where
  "first_missing_entry contains input cache =
     validate_nodes contains
       (rev (unvalidated_suffix cache (rev (validation_nodes (rc_frontier (ri_content input))))))
       cache"

section \<open>The world of allocated contents\<close>

text \<open>
  Every snapshot and every reconstitution input built so far, with the number of tokens
  allocated. Each operation that allocates gets the next token.
\<close>

inductive frontier_world ::
  "content_token \<Rightarrow> resolved_snapshot set \<Rightarrow> reconstitution_input set \<Rightarrow> bool" where
  world_start: "frontier_world 0 {} {}"
| world_candidate:
    "frontier_world n S I \<Longrightarrow> try_from_candidate n owner snap entries = Ok s \<Longrightarrow>
     frontier_world (Suc n) (insert s S) I"
| world_derive:
    "frontier_world n S I \<Longrightarrow> s \<in> S \<Longrightarrow> derive_appending_candidate n s snap appended = Ok s' \<Longrightarrow>
     frontier_world (Suc n) (insert s' S) I"
| world_input:
    "frontier_world n S I \<Longrightarrow>
     frontier_world (Suc n) S (insert (input_new n owner snap entries) I)"
| world_input_derive:
    "frontier_world n S I \<Longrightarrow> i \<in> I \<Longrightarrow>
     frontier_world (Suc n) S (insert (input_derive_appending n i snap appended) I)"
| world_reconstitute:
    "frontier_world n S I \<Longrightarrow> i \<in> I \<Longrightarrow> try_from_reconstitution_input i = Ok s \<Longrightarrow>
     frontier_world n (insert s S) I"

text \<open>
  \<open>E\<close> gives the entries of each allocated token. Every recorded token is allocated, and what it
  stands for is a prefix of the content that records it.
\<close>

definition node_link :: "frontier_content_node \<Rightarrow> frontier_content_node \<Rightarrow> bool" where
  "node_link a b \<longleftrightarrow> prefix (node_ordered_entries a) (node_ordered_entries b) \<and>
     appended_start b = length (node_ordered_entries a)"

definition content_ok :: "(content_token \<Rightarrow> entry_ref list) \<Rightarrow> nat \<Rightarrow> frontier_content \<Rightarrow> bool" where
  "content_ok E n c \<longleftrightarrow>
     token c < n \<and> E (token c) = content_ordered_entries c \<and>
     (\<forall>(snap, t) \<in> set (lineage c). t < n \<and> prefix (E t) (content_ordered_entries c)) \<and>
     (\<forall>node \<in> set (validation_nodes c).
        node_token node < n \<and> E (node_token node) = node_ordered_entries node) \<and>
     validation_nodes c \<noteq> [] \<and> appended_start (hd (validation_nodes c)) = 0 \<and>
     successively node_link (validation_nodes c) \<and>
     node_ordered_entries (last (validation_nodes c)) = content_ordered_entries c"

lemma content_ok_extend: "content_ok E n c \<Longrightarrow> content_ok (E(n := entries)) (Suc n) c"
  by (fastforce simp: content_ok_def)

lemma content_ok_from_distinct:
  "content_ok (E(n := entries)) (Suc n) ((from_distinct n snap entries)\<lparr>membership := ms\<rparr>)"
  "content_ok (E(n := entries)) (Suc n) (from_distinct n snap entries)"
  by (auto simp: content_ok_def from_distinct_def)

lemma content_ok_append:
  assumes "content_ok E n c"
  shows "content_ok (E(n := content_ordered_entries c @ appended)) (Suc n)
    (append_content n c source snap ms appended)"
proof -
  let ?E = "E(n := content_ordered_entries c @ appended)"
  have old: "content_ok ?E (Suc n) c" using assms by (rule content_ok_extend)
  have "\<forall>(s, t) \<in> set (bt_insert snap n (lineage c)). t < Suc n \<and> prefix (?E t) (content_ordered_entries c @ appended)"
  proof (clarify)
    fix s t assume "(s, t) \<in> set (bt_insert snap n (lineage c))"
    then consider "t = n" | "(s, t) \<in> set (lineage c)"
      using set_bt_insert_subset [of snap n "lineage c"] by auto
    then show "t < Suc n \<and> prefix (?E t) (content_ordered_entries c @ appended)"
    proof cases
      case 2
      with old have "t < Suc n \<and> prefix (?E t) (content_ordered_entries c)" unfolding content_ok_def by blast
      then show ?thesis by (metis prefix_prefix)
    qed simp
  qed
  then show ?thesis
    using old
    by (auto simp: content_ok_def append_content_def Let_def successively_append_iff node_link_def)
qed

lemma shared_prefix_sound:
  assumes "content_ok E n c" and "content_ok E n later" and "is_shared_prefix_of c snap (token c) later"
  shows "prefix (content_ordered_entries c) (content_ordered_entries later)"
  using assms by (auto simp: is_shared_prefix_of_def content_ok_def dest!: map_of_SomeD split: option.splits)

section \<open>Duplicates\<close>

lemma find_repeated_None: "find_repeated seen es = None \<longleftrightarrow> distinct es \<and> set es \<inter> set seen = {}"
  by (induction seen es rule: find_repeated.induct) auto

lemma find_repeated_Some:
  "find_repeated seen es = Some e \<Longrightarrow>
     \<exists>pre post. es = pre @ e # post \<and> distinct pre \<and> set pre \<inter> set seen = {} \<and> e \<in> set pre \<union> set seen"
proof (induction seen es rule: find_repeated.induct)
  case (2 seen entry rest)
  show ?case
  proof (cases "entry \<in> set seen")
    case True
    with 2(2) show ?thesis by (intro exI [of _ "[]"] exI [of _ rest]) auto
  next
    case False
    with 2 obtain pre post where "rest = pre @ e # post" "distinct pre"
      "set pre \<inter> set (bs_insert entry seen) = {}" "e \<in> set pre \<union> set (bs_insert entry seen)" by auto
    with False show ?thesis by (intro exI [of _ "entry # pre"] exI [of _ post]) auto
  qed
qed simp

lemma find_repeated_append:
  "find_repeated seen (xs @ ys) =
     (case find_repeated seen xs of Some e \<Rightarrow> Some e | None \<Rightarrow> find_repeated (fold bs_insert xs seen) ys)"
  by (induction seen xs rule: find_repeated.induct) (auto split: option.splits)

lemma track_duplicate_found: "fold track_duplicate es (ms, Some d) = (fold bs_insert es ms, Some d)"
  by (induction es arbitrary: ms) auto

lemma track_duplicate_first: "snd (fold track_duplicate es (ms, None)) = find_repeated ms es"
  by (induction es arbitrary: ms) (auto simp: track_duplicate_found)

lemma track_duplicate_members:
  "find_repeated ms es = None \<Longrightarrow> fst (fold track_duplicate es (ms, None)) = fold bs_insert es ms"
  by (induction es arbitrary: ms) (auto split: if_splits)

lemmas track_duplicate_facts = track_duplicate_found track_duplicate_first track_duplicate_members

definition duplicates_ok :: "reconstitution_content \<Rightarrow> bool" where
  "duplicates_ok rc \<longleftrightarrow>
     rc_first_duplicate rc = first_duplicate (content_ordered_entries (rc_frontier rc)) \<and>
     (rc_first_duplicate rc = None \<longrightarrow>
        membership (rc_frontier rc) = fold bs_insert (content_ordered_entries (rc_frontier rc)) [])"

lemma duplicates_ok_from_complete: "duplicates_ok (from_complete n snap es)"
  by (simp add: duplicates_ok_def from_complete_def from_distinct_def first_duplicate_def
      case_prod_beta track_duplicate_facts)

lemma duplicates_ok_derive:
  assumes "duplicates_ok rc"
  shows "duplicates_ok (rc_derive_appending n rc owner source snap appended)"
proof (cases "rc_first_duplicate rc")
  case None
  with assms show ?thesis
    by (simp add: duplicates_ok_def rc_derive_appending_def append_content_def first_duplicate_def
        find_repeated_append case_prod_beta Let_def track_duplicate_facts)
next
  case (Some d)
  with assms show ?thesis
    by (auto simp: duplicates_ok_def rc_derive_appending_def append_content_def first_duplicate_def
        find_repeated_append case_prod_beta Let_def track_duplicate_found split: option.splits)
qed

definition snapshot_ok :: "resolved_snapshot \<Rightarrow> bool" where
  "snapshot_ok s \<longleftrightarrow> distinct (ordered_entries s) \<and> set (membership (rs_content s)) = set (ordered_entries s)"

lemma frontier_world_ok:
  "frontier_world n S I \<Longrightarrow>
     \<exists>E. (\<forall>s \<in> S. content_ok E n (rs_content s) \<and> snapshot_ok s) \<and>
         (\<forall>i \<in> I. content_ok E n (rc_frontier (ri_content i)) \<and> duplicates_ok (ri_content i))"
proof (induction rule: frontier_world.induct)
  case world_start
  show ?case by simp
next
  case (world_candidate n S I owner snap entries s)
  then obtain E where E: "\<forall>s \<in> S. content_ok E n (rs_content s) \<and> snapshot_ok s"
    "\<forall>i \<in> I. content_ok E n (rc_frontier (ri_content i)) \<and> duplicates_ok (ri_content i)" by blast
  from world_candidate.hyps(2) have s: "first_duplicate entries = None" "rs_content s = from_distinct n snap entries"
    by (auto simp: try_from_candidate_def split: option.splits)
  then have "snapshot_ok s"
    by (auto simp: snapshot_ok_def ordered_entries_def from_distinct_def first_duplicate_def find_repeated_None)
  with E s show ?case
    by (intro exI [of _ "E(n := entries)"]) (auto simp del: fun_upd_apply intro: content_ok_extend content_ok_from_distinct)
next
  case (world_derive n S I s snap appended s')
  then obtain E where E: "\<forall>s \<in> S. content_ok E n (rs_content s) \<and> snapshot_ok s"
    "\<forall>i \<in> I. content_ok E n (rc_frontier (ri_content i)) \<and> duplicates_ok (ri_content i)" by blast
  from world_derive.hyps(3) have s': "find_repeated (membership (rs_content s)) appended = None"
    "rs_content s' = append_content n (rs_content s) (rs_frontier s) snap
       (fold bs_insert appended (membership (rs_content s))) appended"
    by (auto simp: derive_appending_candidate_def split: option.splits if_splits)
  have "snapshot_ok s" "content_ok E n (rs_content s)" using E world_derive.hyps(2) by auto
  with s' have "snapshot_ok s'"
    by (auto simp: snapshot_ok_def ordered_entries_def append_content_def Let_def find_repeated_None set_fold_bs_insert)
  with E s' \<open>content_ok E n (rs_content s)\<close> show ?case
    by (intro exI [of _ "E(n := content_ordered_entries (rs_content s) @ appended)"])
      (auto simp del: fun_upd_apply intro: content_ok_extend content_ok_append)
next
  case (world_input n S I owner snap entries)
  then obtain E where E: "\<forall>s \<in> S. content_ok E n (rs_content s) \<and> snapshot_ok s"
    "\<forall>i \<in> I. content_ok E n (rc_frontier (ri_content i)) \<and> duplicates_ok (ri_content i)" by blast
  have "\<exists>ms. rc_frontier (from_complete n snap entries) = (from_distinct n snap entries)\<lparr>membership := ms\<rparr>"
    by (auto simp: from_complete_def split: prod.splits)
  then have "content_ok (E(n := entries)) (Suc n) (rc_frontier (from_complete n snap entries))"
    using content_ok_from_distinct(1) by metis
  with E show ?case
    by (intro exI [of _ "E(n := entries)"])
      (auto simp: input_new_def duplicates_ok_from_complete simp del: fun_upd_apply intro: content_ok_extend)
next
  case (world_input_derive n S I i snap appended)
  then obtain E where E: "\<forall>s \<in> S. content_ok E n (rs_content s) \<and> snapshot_ok s"
    "\<forall>i \<in> I. content_ok E n (rc_frontier (ri_content i)) \<and> duplicates_ok (ri_content i)" by blast
  let ?rc = "rc_derive_appending n (ri_content i) (ri_owning_session i) (ri_snapshot i) snap appended"
  have "\<exists>src ms. rc_frontier ?rc = append_content n (rc_frontier (ri_content i)) src snap ms appended"
    by (auto simp: rc_derive_appending_def split: prod.splits)
  then have "content_ok (E(n := input_entries i @ appended)) (Suc n) (rc_frontier ?rc)"
    using content_ok_append E world_input_derive.hyps(2) unfolding input_entries_def by metis
  with E show ?case
    by (intro exI [of _ "E(n := input_entries i @ appended)"])
      (use world_input_derive.hyps(2) in \<open>auto simp: input_derive_appending_def simp del: fun_upd_apply intro: content_ok_extend duplicates_ok_derive\<close>)
next
  case (world_reconstitute n S I i s)
  then obtain E where E: "\<forall>s \<in> S. content_ok E n (rs_content s) \<and> snapshot_ok s"
    "\<forall>i \<in> I. content_ok E n (rc_frontier (ri_content i)) \<and> duplicates_ok (ri_content i)" by blast
  from world_reconstitute.hyps(3) have s: "rc_first_duplicate (ri_content i) = None" "rs_content s = rc_frontier (ri_content i)"
    by (auto simp: try_from_reconstitution_input_def split: option.splits)
  then have "snapshot_ok s"
    using E world_reconstitute.hyps(2)
    by (auto simp: snapshot_ok_def ordered_entries_def duplicates_ok_def first_duplicate_def find_repeated_None set_fold_bs_insert)
  with E s world_reconstitute.hyps(2) show ?case by (intro exI [of _ E]) auto
qed

section \<open>Comparisons\<close>

lemma prefix_iff_take: "prefix xs ys \<longleftrightarrow> length xs \<le> length ys \<and> xs = take (length xs) ys"
  by (metis append_eq_conv_conj prefixE prefix_length_le take_is_prefix)

lemma semantic_prefix_iff:
  assumes "content_ok E n (rs_content s)" and "content_ok E n (rs_content t)"
  shows "is_semantic_prefix_of s t \<longleftrightarrow> prefix (ordered_entries s) (ordered_entries t)"
proof -
  have "prefix (ordered_entries s) (ordered_entries t)"
    if "is_shared_prefix_of (rs_content s) (snapshot (rs_frontier s)) (token (rs_content s)) (rs_content t)"
    using shared_prefix_sound [OF assms that] by (simp add: ordered_entries_def)
  then show ?thesis
    by (auto simp: is_semantic_prefix_of_def entry_count_def prefix_iff_take simp flip: ordered_entries_def)
qed

lemma same_content_iff:
  assumes "content_ok E n (rs_content s)" and "content_ok E n (rs_content t)"
  shows "same_semantic_content s t \<longleftrightarrow> ordered_entries s = ordered_entries t"
proof -
  have "ordered_entries s = ordered_entries t"
    if "entry_count s = entry_count t"
      "is_shared_prefix_of (rs_content s) (snapshot (rs_frontier s)) (token (rs_content s)) (rs_content t)"
    using shared_prefix_sound [OF assms that(2)] that(1)
    by (auto simp: ordered_entries_def entry_count_def elim!: prefixE)
  moreover have "ordered_entries s = ordered_entries t"
    if "entry_count s = entry_count t"
      "is_shared_prefix_of (rs_content t) (snapshot (rs_frontier t)) (token (rs_content t)) (rs_content s)"
    using shared_prefix_sound [OF assms(2,1) that(2)] that(1)
    by (auto simp: ordered_entries_def entry_count_def elim!: prefixE)
  ultimately show ?thesis
    by (auto simp: same_semantic_content_def ordered_entries_def)
qed

lemma prefix_and_suffix_iff:
  assumes "content_ok E n (rs_content s)" and "content_ok E n (rs_content pre)"
  shows "has_semantic_prefix_and_suffix s pre tail \<longleftrightarrow> ordered_entries s = ordered_entries pre @ tail"
proof
  assume h: "has_semantic_prefix_and_suffix s pre tail"
  then have p: "prefix (ordered_entries pre) (ordered_entries s)"
    and len: "length (ordered_entries s) = length (ordered_entries pre) + length tail"
    and all: "\<forall>i < length tail. ordered_entries s ! (length (ordered_entries pre) + i) = tail ! i"
    using semantic_prefix_iff [OF assms(2,1)]
    by (auto simp: has_semantic_prefix_and_suffix_def list_all_length entry_count_def ordered_entries_def
        split: if_splits)
  from p obtain rest where rest: "ordered_entries s = ordered_entries pre @ rest" by (rule prefixE)
  with len all have "rest = tail" by (intro nth_equalityI) auto
  with rest show "ordered_entries s = ordered_entries pre @ tail" by simp
next
  assume eq: "ordered_entries s = ordered_entries pre @ tail"
  then have "is_semantic_prefix_of pre s" using semantic_prefix_iff [OF assms(2,1)] by simp
  with eq show "has_semantic_prefix_and_suffix s pre tail"
    by (auto simp: has_semantic_prefix_and_suffix_def list_all_length entry_count_def ordered_entries_def nth_append)
qed

lemma frontier_entry_range_slice:
  "front \<le> back \<Longrightarrow> frontier_entry_range es front back = take (back - front) (drop front es)"
proof (induction es front "back" rule: frontier_entry_range.induct)
  case (1 es front upto)
  show ?case
  proof (cases "front = upto \<or> front \<ge> length es")
    case True
    then show ?thesis by (auto simp: frontier_entry_range.simps [of es front])
  next
    case False
    with 1 show ?thesis
      by (auto simp: frontier_entry_range.simps [of es front] Cons_nth_drop_Suc [symmetric] take_Suc_conv_app_nth
          Suc_diff_Suc [symmetric] simp del: Cons_nth_drop_Suc)
  qed
qed

lemma derived_appended_entries:
  assumes "derive_appending_candidate n s snap appended = Ok s'"
  shows "ordered_entries s' = ordered_entries s @ appended" and "appended_entries s' = appended"
    and "immediate_semantic_prefix s' = Some (rs_frontier s)"
    and "rs_frontier s' = \<lparr>owning_session = owning_session (rs_frontier s), snapshot = snap\<rparr>"
  using assms
  by (auto simp: derive_appending_candidate_def ordered_entries_def appended_entries_def entry_count_def
      append_content_def Let_def immediate_semantic_prefix_def frontier_entry_range_slice split: if_splits option.splits)

lemma derive_Ok_iff:
  assumes "snapshot_ok s"
  shows "(\<exists>s'. derive_appending_candidate n s snap appended = Ok s') \<longleftrightarrow>
    snap \<noteq> snapshot (rs_frontier s) \<and> distinct (ordered_entries s @ appended)"
  using assms
  by (auto simp: derive_appending_candidate_def snapshot_ok_def find_repeated_None split: option.splits)
    (metis disjoint_iff find_repeated_None option.distinct(1))+

section \<open>The validation cache\<close>

definition node_range :: "frontier_content_node \<Rightarrow> entry_ref list" where
  "node_range node = drop (appended_start node) (node_ordered_entries node)"

lemma find_append:
  "find P (xs @ ys) = (case find P xs of Some x \<Rightarrow> Some x | None \<Rightarrow> find P ys)"
  by (induction xs) auto

lemma find_None_set: "find P xs = None \<longleftrightarrow> (\<forall>x \<in> set xs. \<not> P x)"
  by (auto simp: find_None_iff)

lemma entry_range_node:
  "appended_start node \<le> length (node_ordered_entries node) \<Longrightarrow>
     frontier_entry_range (node_ordered_entries node) (appended_start node) (length (node_ordered_entries node))
       = node_range node"
  by (simp add: frontier_entry_range_slice node_range_def)

definition nodes_ok :: "nat \<Rightarrow> frontier_content_node list \<Rightarrow> bool" where
  "nodes_ok start nodes \<longleftrightarrow> successively node_link nodes \<and>
     (nodes \<noteq> [] \<longrightarrow> appended_start (hd nodes) = start \<and> start \<le> length (node_ordered_entries (hd nodes)))"

lemma nodes_ok_Cons:
  "nodes_ok start (node # nodes) \<longleftrightarrow>
     appended_start node = start \<and> start \<le> length (node_ordered_entries node) \<and>
     nodes_ok (length (node_ordered_entries node)) nodes \<and>
     (nodes \<noteq> [] \<longrightarrow> prefix (node_ordered_entries node) (node_ordered_entries (hd nodes)))"
  by (cases nodes) (auto simp: nodes_ok_def node_link_def dest: prefix_length_le)

lemma nodes_ranges:
  "nodes_ok start nodes \<Longrightarrow> nodes \<noteq> [] \<Longrightarrow>
     concat (map node_range nodes) = drop start (node_ordered_entries (last nodes)) \<and>
     prefix (node_ordered_entries (hd nodes)) (node_ordered_entries (last nodes))"
proof (induction nodes arbitrary: start)
  case (Cons node nodes)
  show ?case
  proof (cases "nodes = []")
    case False
    with Cons.prems have ok: "nodes_ok (length (node_ordered_entries node)) nodes" "appended_start node = start"
      "start \<le> length (node_ordered_entries node)"
      and p: "prefix (node_ordered_entries node) (node_ordered_entries (hd nodes))"
      by (auto simp: nodes_ok_Cons)
    from Cons.IH [OF ok(1) False] have ih:
      "concat (map node_range nodes) = drop (length (node_ordered_entries node)) (node_ordered_entries (last nodes))"
      "prefix (node_ordered_entries (hd nodes)) (node_ordered_entries (last nodes))" by auto
    from p ih(2) have "prefix (node_ordered_entries node) (node_ordered_entries (last nodes))"
      by (rule prefix_order.trans)
    then obtain rest where "node_ordered_entries (last nodes) = node_ordered_entries node @ rest" by (rule prefixE)
    with ih ok False show ?thesis by (simp add: node_range_def [of node])
  qed (use Cons.prems in \<open>auto simp: nodes_ok_Cons node_range_def\<close>)
qed simp

lemma validate_nodes_result:
  "nodes_ok start nodes \<Longrightarrow>
     fst (validate_nodes contains nodes cache) = find (\<lambda>e. \<not> contains e) (concat (map node_range nodes))"
proof (induction nodes arbitrary: start cache)
  case (Cons node nodes)
  then have "nodes_ok (length (node_ordered_entries node)) nodes"
    "appended_start node \<le> length (node_ordered_entries node)" by (auto simp: nodes_ok_Cons)
  with Cons.IH show ?case by (auto simp: entry_range_node find_append split: option.splits)
qed simp

definition cache_ok :: "(content_token \<Rightarrow> entry_ref list) \<Rightarrow> (entry_ref \<Rightarrow> bool) \<Rightarrow> content_token list \<Rightarrow> bool" where
  "cache_ok E contains cache \<longleftrightarrow> (\<forall>t \<in> set cache. \<forall>e \<in> set (E t). contains e)"

lemma validate_nodes_cache:
  "nodes_ok start nodes \<Longrightarrow> cache_ok E contains cache \<Longrightarrow>
   \<forall>node \<in> set nodes. E (node_token node) = node_ordered_entries node \<Longrightarrow>
   nodes \<noteq> [] \<longrightarrow> (\<forall>e \<in> set (take start (node_ordered_entries (hd nodes))). contains e) \<Longrightarrow>
   cache_ok E contains (snd (validate_nodes contains nodes cache))"
proof (induction nodes arbitrary: start cache)
  case (Cons node nodes)
  let ?es = "node_ordered_entries node"
  from Cons.prems(1) have ok: "nodes_ok (length ?es) nodes" "appended_start node = start" "start \<le> length ?es"
    and p: "nodes \<noteq> [] \<longrightarrow> prefix ?es (node_ordered_entries (hd nodes))" by (auto simp: nodes_ok_Cons)
  have range: "frontier_entry_range ?es start (length ?es) = node_range node"
    using ok entry_range_node [of node] by simp
  show ?case
  proof (cases "find (\<lambda>e. \<not> contains e) (node_range node)")
    case None
    then have "\<forall>e \<in> set (drop start ?es). contains e" using ok(2) by (simp add: find_None_set node_range_def)
    with Cons.prems(4) have all: "\<forall>e \<in> set ?es. contains e"
      using append_take_drop_id [of start ?es] by (metis Un_iff list.discI list.sel(1) set_append)
    then have "cache_ok E contains (bs_insert (node_token node) cache)"
      using Cons.prems(2,3) by (auto simp: cache_ok_def)
    moreover have "\<forall>e \<in> set (take (length ?es) (node_ordered_entries (hd nodes))). contains e" if "nodes \<noteq> []"
      using p that all by (metis prefix_iff_take)
    ultimately show ?thesis
      using Cons.IH [OF ok(1)] Cons.prems(3) None ok(2) range by simp
  qed (use Cons.prems ok range in simp)
qed simp

lemma unvalidated_suffix_split:
  "\<exists>older. nodes = older @ rev (unvalidated_suffix cache (rev nodes)) \<and>
     (older \<noteq> [] \<longrightarrow> node_token (last older) \<in> set cache)"
proof (induction nodes rule: rev_induct)
  case (snoc node nodes)
  show ?case
  proof (cases "node_token node \<in> set cache")
    case True
    then show ?thesis by (intro exI [of _ "nodes @ [node]"]) simp
  next
    case False
    with snoc obtain older where "nodes = older @ rev (unvalidated_suffix cache (rev nodes))"
      "older \<noteq> [] \<longrightarrow> node_token (last older) \<in> set cache" by blast
    with False show ?thesis by (intro exI [of _ older]) simp
  qed
qed simp

lemma nodes_ok_append:
  "nodes_ok start (xs @ ys) \<Longrightarrow> xs \<noteq> [] \<Longrightarrow> nodes_ok (length (node_ordered_entries (last xs))) ys"
proof (induction xs arbitrary: start)
  case (Cons x xs)
  then show ?case by (cases "xs = []") (auto simp: nodes_ok_Cons)
qed simp

lemma first_missing_entry_correct:
  assumes ok: "content_ok E n (rc_frontier (ri_content i))" and cache: "cache_ok E contains cache"
  shows "fst (first_missing_entry contains i cache) = find (\<lambda>e. \<not> contains e) (input_entries i)"
    and "cache_ok E contains (snd (first_missing_entry contains i cache))"
proof -
  let ?nodes = "validation_nodes (rc_frontier (ri_content i))"
  obtain older new where split: "?nodes = older @ new"
    and validated: "older \<noteq> [] \<longrightarrow> node_token (last older) \<in> set cache"
    and first: "first_missing_entry contains i cache = validate_nodes contains new cache"
    using unvalidated_suffix_split [of ?nodes cache] unfolding first_missing_entry_def by blast
  have chain: "nodes_ok 0 ?nodes" and toks: "\<forall>node \<in> set ?nodes. E (node_token node) = node_ordered_entries node"
    and ne: "?nodes \<noteq> []" and last: "node_ordered_entries (last ?nodes) = input_entries i"
    using ok by (auto simp: content_ok_def nodes_ok_def input_entries_def)
  define base where "base = (if older = [] then [] else node_ordered_entries (last older))"
  have base_ok: "\<forall>e \<in> set base. contains e"
  proof (cases "older = []")
    case False
    then have "last older \<in> set ?nodes" unfolding split by simp
    with False validated cache toks show ?thesis by (auto simp: base_def cache_ok_def)
  qed (simp add: base_def)
  have new_ok: "nodes_ok (length base) new"
  proof (cases "older = []")
    case True
    with split chain show ?thesis by (simp add: base_def)
  next
    case False
    with nodes_ok_append [of 0 older new] split chain show ?thesis by (simp add: base_def)
  qed
  have "concat (map node_range ?nodes) = input_entries i" using nodes_ranges [OF chain ne] last by simp
  moreover have "concat (map node_range older) = base"
  proof (cases "older = []")
    case False
    have "nodes_ok 0 older" using chain False
      unfolding split nodes_ok_def by (simp add: successively_append_iff)
    with nodes_ranges [OF this False] False show ?thesis by (simp add: base_def)
  qed (simp add: base_def)
  ultimately have all: "input_entries i = base @ concat (map node_range new)"
    unfolding split by simp
  have "find (\<lambda>e. \<not> contains e) base = None" using base_ok by (simp add: find_None_set)
  then show "fst (first_missing_entry contains i cache) = find (\<lambda>e. \<not> contains e) (input_entries i)"
    unfolding all find_append first
    using validate_nodes_result [OF new_ok, of contains cache] by simp
  have hd: "\<forall>e \<in> set (take (length base) (node_ordered_entries (hd new))). contains e" if "new \<noteq> []"
  proof (cases "older = []")
    case False
    have "node_link (last older) (hd new)"
      using chain False that unfolding split nodes_ok_def by (simp add: successively_append_iff)
    then show ?thesis using base_ok False by (simp add: node_link_def base_def) (metis prefix_iff_take)
  qed (simp add: base_def)
  show "cache_ok E contains (snd (first_missing_entry contains i cache))"
    unfolding first
    by (rule validate_nodes_cache [OF new_ok cache]) (use toks split hd in auto)
qed

section \<open>Properties\<close>

definition sample_entry_ref :: "128 word \<Rightarrow> entry_ref" where
  "sample_entry_ref n = SemanticTranscriptEntryRef (Ident 1) (Ident n)"

definition sample_snapshot :: resolved_snapshot where
  "sample_snapshot = \<lparr>rs_frontier = \<lparr>owning_session = Ident 1, snapshot = Ident 10\<rparr>,
     rs_content = from_distinct 0 (Ident 10) [sample_entry_ref 1]\<rparr>"

definition sample_successor :: resolved_snapshot where
  "sample_successor = \<lparr>rs_frontier = \<lparr>owning_session = Ident 1, snapshot = Ident 11\<rparr>,
     rs_content = append_content 1 (rs_content sample_snapshot) (rs_frontier sample_snapshot) (Ident 11)
       (fold bs_insert [sample_entry_ref 2] (membership (rs_content sample_snapshot))) [sample_entry_ref 2]\<rparr>"

definition sample_input :: reconstitution_input where
  "sample_input = input_new 2 (Ident 1) (Ident 12) [sample_entry_ref 1]"

definition sample_input_successor :: reconstitution_input where
  "sample_input_successor = input_derive_appending 3 sample_input (Ident 13) [sample_entry_ref 1]"

lemma sample_world:
  "frontier_world 4 {sample_successor, sample_snapshot} {sample_input_successor, sample_input}"
proof -
  have a: "try_from_candidate 0 (Ident 1) (Ident 10) [sample_entry_ref 1] = Ok sample_snapshot"
    by code_simp
  have b: "derive_appending_candidate 1 sample_snapshot (Ident 11) [sample_entry_ref 2] = Ok sample_successor"
    by code_simp
  have w1: "frontier_world (Suc 0) {sample_snapshot} {}" by (rule world_candidate [OF world_start a])
  have w2: "frontier_world (Suc (Suc 0)) {sample_successor, sample_snapshot} {}"
    by (rule world_derive [OF w1]) (use b in simp_all)
  have "frontier_world (Suc (Suc (Suc 0))) {sample_successor, sample_snapshot} {sample_input}"
    using world_input [OF w2, of "Ident 1" "Ident 12" "[sample_entry_ref 1]"]
    by (simp add: sample_input_def numeral_2_eq_2)
  from world_input_derive [OF this, of sample_input "Ident 13" "[sample_entry_ref 1]"] show ?thesis
    by (simp add: sample_input_successor_def numeral_3_eq_3 eval_nat_numeral)
qed

text \<open>
  C4. Among snapshots of one world of allocations, the pointer-sharing comparisons answer
  exactly as comparing the ordered entries: prefix, equality of content, and decomposition into
  a prefix and a suffix.
\<close>

theorem frontier_comparisons_exact:
  assumes "frontier_world n S I" and "s \<in> S" and "t \<in> S"
  shows "(is_semantic_prefix_of s t \<longleftrightarrow> prefix (ordered_entries s) (ordered_entries t)) \<and>
    (same_semantic_content s t \<longleftrightarrow> ordered_entries s = ordered_entries t) \<and>
    (has_semantic_prefix_and_suffix s t tail \<longleftrightarrow> ordered_entries s = ordered_entries t @ tail)"
proof -
  obtain E where "content_ok E n (rs_content s)" "content_ok E n (rs_content t)"
    using frontier_world_ok [OF assms(1)] assms(2,3) by blast
  then show ?thesis
    using semantic_prefix_iff same_content_iff prefix_and_suffix_iff by blast
qed

theorem frontier_comparisons_exact_witness:
  "(is_semantic_prefix_of sample_snapshot sample_successor \<longleftrightarrow>
      prefix (ordered_entries sample_snapshot) (ordered_entries sample_successor)) \<and>
   (same_semantic_content sample_snapshot sample_successor \<longleftrightarrow>
      ordered_entries sample_snapshot = ordered_entries sample_successor) \<and>
   (has_semantic_prefix_and_suffix sample_snapshot sample_successor [] \<longleftrightarrow>
      ordered_entries sample_snapshot = ordered_entries sample_successor @ [])"
  by (rule frontier_comparisons_exact [OF sample_world]) simp_all

text \<open>
  C24. Appending to a snapshot is accepted exactly when the new identity differs from the source
  and no reference occurs twice in the source's entries followed by the appended ones. The
  successor then has exactly those entries, in that order and distinct, keeps the owner, and
  reports the source as its immediate prefix and the appended entries as its suffix.
\<close>

theorem frontier_append_exact:
  assumes "frontier_world n S I" and "s \<in> S"
  shows "((\<exists>s'. derive_appending_candidate n s snap appended = Ok s') \<longleftrightarrow>
      snap \<noteq> snapshot (rs_frontier s) \<and> distinct (ordered_entries s @ appended)) \<and>
    (\<forall>s'. derive_appending_candidate n s snap appended = Ok s' \<longrightarrow>
       ordered_entries s' = ordered_entries s @ appended \<and> appended_entries s' = appended \<and>
       immediate_semantic_prefix s' = Some (rs_frontier s) \<and>
       rs_frontier s' = \<lparr>owning_session = owning_session (rs_frontier s), snapshot = snap\<rparr>)"
proof -
  have "snapshot_ok s" using frontier_world_ok [OF assms(1)] assms(2) by blast
  from derive_Ok_iff [OF this] derived_appended_entries show ?thesis by (intro conjI allI impI) simp_all
qed

theorem frontier_append_exact_witness:
  "\<exists>s'. derive_appending_candidate 4 sample_successor (Ident 20) [sample_entry_ref 3] = Ok s' \<and>
     ordered_entries s' = [sample_entry_ref 1, sample_entry_ref 2, sample_entry_ref 3] \<and>
     appended_entries s' = [sample_entry_ref 3]"
proof -
  have f: "Ident 20 \<noteq> snapshot (rs_frontier sample_successor)"
    "distinct (ordered_entries sample_successor @ [sample_entry_ref 3])"
    and e: "ordered_entries sample_successor @ [sample_entry_ref 3] = [sample_entry_ref 1, sample_entry_ref 2, sample_entry_ref 3]"
    by code_simp+
  note exact = frontier_append_exact [OF sample_world insertI1, of "Ident 20" "[sample_entry_ref 3]"]
  from exact f obtain s' where "derive_appending_candidate 4 sample_successor (Ident 20) [sample_entry_ref 3] = Ok s'"
    by blast
  with exact show ?thesis unfolding e by blast
qed

text \<open>
  C25. However a stored input was assembled, in one piece or by sharing prefixes, it
  reconstitutes exactly when its complete membership has no repeated reference, and is
  otherwise rejected with the first repeated reference of the complete list.
\<close>

theorem frontier_reconstitution_exact:
  assumes "frontier_world n S I" and "i \<in> I"
  shows "try_from_reconstitution_input i =
    (case first_duplicate (input_entries i) of
       Some duplicate \<Rightarrow> Err (ri_owning_session i, ri_snapshot i, input_entries i,
         Construction_DuplicateEntry duplicate)
     | None \<Rightarrow> Ok \<lparr>rs_frontier = \<lparr>owning_session = ri_owning_session i, snapshot = ri_snapshot i\<rparr>,
         rs_content = rc_frontier (ri_content i)\<rparr>) \<and>
    (first_duplicate (input_entries i) = None \<longleftrightarrow> distinct (input_entries i))"
proof -
  have "duplicates_ok (ri_content i)" using frontier_world_ok [OF assms(1)] assms(2) by blast
  then show ?thesis
    by (simp add: try_from_reconstitution_input_def duplicates_ok_def input_entries_def
        first_duplicate_def find_repeated_None)
qed

theorem frontier_reconstitution_exact_witness:
  "try_from_reconstitution_input sample_input_successor =
    (case first_duplicate (input_entries sample_input_successor) of
       Some duplicate \<Rightarrow> Err (ri_owning_session sample_input_successor,
         ri_snapshot sample_input_successor, input_entries sample_input_successor,
         Construction_DuplicateEntry duplicate)
     | None \<Rightarrow> Ok \<lparr>rs_frontier = \<lparr>owning_session = ri_owning_session sample_input_successor,
           snapshot = ri_snapshot sample_input_successor\<rparr>,
         rs_content = rc_frontier (ri_content sample_input_successor)\<rparr>) \<and>
    (first_duplicate (input_entries sample_input_successor) = None \<longleftrightarrow>
       distinct (input_entries sample_input_successor))"
  by (rule frontier_reconstitution_exact [OF sample_world]) simp

text \<open>
  C26. Validating inputs through the shared cache finds, for every input, exactly the first entry
  that a scan of its complete membership finds missing, whichever inputs went through the cache
  before.
\<close>

theorem cached_validation_exact:
  assumes "frontier_world n S I" and "set earlier \<subseteq> I" and "i \<in> I"
  shows "fst (first_missing_entry contains i
      (fold (\<lambda>j cache. snd (first_missing_entry contains j cache)) earlier []))
    = find (\<lambda>entry. \<not> contains entry) (input_entries i)"
proof -
  obtain E where E: "\<forall>j \<in> I. content_ok E n (rc_frontier (ri_content j))"
    using frontier_world_ok [OF assms(1)] by blast
  have "cache_ok E contains (fold (\<lambda>j cache. snd (first_missing_entry contains j cache)) js cache)"
    if "cache_ok E contains cache" and "set js \<subseteq> I" for js cache
    using that
  proof (induction js arbitrary: cache)
    case (Cons j js)
    then have "content_ok E n (rc_frontier (ri_content j))" using E by simp
    with Cons.prems(1) have "cache_ok E contains (snd (first_missing_entry contains j cache))"
      by (intro first_missing_entry_correct(2))
    with Cons show ?case by simp
  qed simp
  from this [OF _ assms(2), of "[]"]
  have "cache_ok E contains (fold (\<lambda>j cache. snd (first_missing_entry contains j cache)) earlier [])"
    by (simp add: cache_ok_def [of E contains "[]"])
  with first_missing_entry_correct(1) E assms(3) show ?thesis by blast
qed

theorem cached_validation_exact_witness:
  "fst (first_missing_entry (\<lambda>_. True) sample_input_successor
      (fold (\<lambda>j cache. snd (first_missing_entry (\<lambda>_. True) j cache)) [sample_input] []))
    = find (\<lambda>entry. \<not> True) (input_entries sample_input_successor)"
  by (rule cached_validation_exact [OF sample_world]) simp_all

end
