(* ===== verification/Runner_Catalog.thy ===== *)
theory Runner_Catalog
  imports Tool_Policy Std_Collections "HOL-Library.List_Lexorder"
begin

text \<open>
  Runner names, generations and the daemon-owned catalog,
  \<^verbatim>\<open>src/crates/domain/src/runner/\<close> (\<^verbatim>\<open>names.rs\<close>, \<^verbatim>\<open>catalog.rs\<close>). Names are checked texts in the
  order of \<^verbatim>\<open>String\<close>; the catalog is checked once and then only read.
\<close>

section \<open>Names\<close>

datatype runner_tag = RunnerTag
datatype runner_enrollment_tag = RunnerEnrollmentTag
datatype runner_authentication_tag = RunnerAuthenticationTag
datatype runner_lease_tag = RunnerLeaseTag

type_synonym runner_id = "runner_tag ident"
type_synonym runner_enrollment_id = "runner_enrollment_tag ident"
type_synonym runner_authentication_id = "runner_authentication_tag ident"
type_synonym runner_lease_id = "runner_lease_tag ident"

text \<open>
  The text newtypes differ only in their check; the tag keeps them apart. \<^verbatim>\<open>String\<close> compares
  its UTF-8 bytes, which is the lexicographic order of the scalar values.
\<close>

datatype (dead 'tag) text_name = TextName (text_str: rust_string)

instantiation text_name :: (type) linorder
begin

definition less_eq_text_name :: "'a text_name \<Rightarrow> 'a text_name \<Rightarrow> bool" where
  "less_eq_text_name a b \<longleftrightarrow> text_str a \<le> text_str b"

definition less_text_name :: "'a text_name \<Rightarrow> 'a text_name \<Rightarrow> bool" where
  "less_text_name a b \<longleftrightarrow> text_str a < text_str b"

instance
  by standard (auto simp: less_eq_text_name_def less_text_name_def text_name.expand)

end

instantiation tool_name :: linorder
begin

definition less_eq_tool_name :: "tool_name \<Rightarrow> tool_name \<Rightarrow> bool" where
  "less_eq_tool_name a b \<longleftrightarrow> tool_name_str a \<le> tool_name_str b"

definition less_tool_name :: "tool_name \<Rightarrow> tool_name \<Rightarrow> bool" where
  "less_tool_name a b \<longleftrightarrow> tool_name_str a < tool_name_str b"

instance
  by standard (auto simp: less_eq_tool_name_def less_tool_name_def tool_name.expand)

end

datatype capability_class_tag = CapabilityClassTag
datatype credential_profile_tag = CredentialProfileTag
datatype working_directory_tag = WorkingDirectoryTag
datatype repository_key_tag = RepositoryKeyTag
datatype clone_url_digest_tag = CloneUrlDigestTag
datatype workspace_revision_tag = WorkspaceRevisionTag
datatype workspace_branch_tag = WorkspaceBranchTag
datatype workspace_path_tag = WorkspacePathTag

type_synonym runner_capability_class = "capability_class_tag text_name"
type_synonym credential_profile_name = "credential_profile_tag text_name"
type_synonym runner_working_directory = "working_directory_tag text_name"
type_synonym workspace_repository_key = "repository_key_tag text_name"
type_synonym canonical_clone_url_digest = "clone_url_digest_tag text_name"
type_synonym workspace_revision = "workspace_revision_tag text_name"
type_synonym workspace_branch_name = "workspace_branch_tag text_name"
type_synonym workspace_relative_path = "workspace_path_tag text_name"

datatype runner_sandbox_profile = Sandbox_Ambient | Sandbox_WorkspaceRestricted

instantiation runner_sandbox_profile :: linorder
begin

definition less_eq_runner_sandbox_profile :: "runner_sandbox_profile \<Rightarrow> runner_sandbox_profile \<Rightarrow> bool" where
  "less_eq_runner_sandbox_profile a b \<longleftrightarrow> a = Sandbox_Ambient \<or> b = Sandbox_WorkspaceRestricted"

definition less_runner_sandbox_profile :: "runner_sandbox_profile \<Rightarrow> runner_sandbox_profile \<Rightarrow> bool" where
  "less_runner_sandbox_profile a b \<longleftrightarrow> a = Sandbox_Ambient \<and> b = Sandbox_WorkspaceRestricted"

instance
proof
  fix a b c :: runner_sandbox_profile
  note defs = less_eq_runner_sandbox_profile_def less_runner_sandbox_profile_def
  show "a < b \<longleftrightarrow> a \<le> b \<and> \<not> b \<le> a" by (cases a; cases b) (simp_all add: defs)
  show "a \<le> a" by (cases a) (simp_all add: defs)
  show "a \<le> b \<Longrightarrow> b \<le> c \<Longrightarrow> a \<le> c" by (cases a; cases b; cases c) (simp_all add: defs)
  show "a \<le> b \<Longrightarrow> b \<le> a \<Longrightarrow> a = b" by (cases a; cases b) (simp_all add: defs)
  show "a \<le> b \<or> b \<le> a" by (cases a; cases b) (simp_all add: defs)
qed

end

datatype workspace_capability = WorktreePerSession

instantiation workspace_capability :: linorder
begin

definition less_eq_workspace_capability :: "workspace_capability \<Rightarrow> workspace_capability \<Rightarrow> bool" where
  "less_eq_workspace_capability a b \<longleftrightarrow> True"

definition less_workspace_capability :: "workspace_capability \<Rightarrow> workspace_capability \<Rightarrow> bool" where
  "less_workspace_capability a b \<longleftrightarrow> False"

instance
proof
  fix a b c :: workspace_capability
  note defs = less_eq_workspace_capability_def less_workspace_capability_def
  show "a < b \<longleftrightarrow> a \<le> b \<and> \<not> b \<le> a" by (simp add: defs)
  show "a \<le> a" by (simp add: defs)
  show "a \<le> b \<Longrightarrow> b \<le> c \<Longrightarrow> a \<le> c" by (simp add: defs)
  show "a \<le> b \<Longrightarrow> b \<le> a \<Longrightarrow> a = b" by (cases a; cases b) simp
  show "a \<le> b \<or> b \<le> a" by (simp add: defs)
qed

end

datatype runner_domain_error =
    Runner_Empty
  | Runner_ContainsNull
  | Runner_TooLong
  | InvalidName
  | InvalidHex
  | InvalidBranchName
  | InvalidRelativePath
  | InvalidToolInputSchema
  | DuplicateCapabilityClass runner_capability_class
  | DuplicateTool tool_name
  | DuplicateProfile credential_profile_name
  | DuplicateWorkspaceCapability workspace_capability
  | DuplicateSandboxProfile runner_sandbox_profile
  | TooManyPermissionOverrides
  | TooManyAdvertisedRepositories
  | UndeclaredProfileTool tool_name
  | UnsupportedDaemonIdempotency tool_name
  | EnrollmentRevoked
  | CapabilityClassNotAllowed runner_capability_class
  | ToolUndeclared tool_name
  | ToolLocusNotAllowed tool_name
  | CredentialProfileUndeclared credential_profile_name
  | WorkspaceCapabilityNotAllowed workspace_capability
  | SandboxProfileNotAllowed runner_sandbox_profile
  | RepositoryProfileUnavailable credential_profile_name
  | Runner_InvalidState
  | Runner_CorrelationMismatch
  | GenerationExhausted
  | Runner_AttemptIdentityReuse
  | SelectorMismatch
  | CredentialProfileUnavailable
  | WorkingDirectoryMismatch
  | WorkspaceCapabilityUnavailable
  | SandboxProfileUnavailable
  | RepositoryUnavailable
  | WorkspaceMismatch
  | ToolUnavailable
  | GrantRevoked
  | RegistrationChanged
  | RegistrationInProgress
  | CorruptStoredFacts

definition name_max_bytes :: nat where
  "name_max_bytes = 64"

definition exact_value_max_bytes :: nat where
  "exact_value_max_bytes = 4096"

definition workspace_branch_max_bytes :: nat where
  "workspace_branch_max_bytes = 255"

definition is_ascii_alphanumeric_byte :: "8 word \<Rightarrow> bool" where
  "is_ascii_alphanumeric_byte b \<longleftrightarrow>
     is_ascii_digit b \<or> is_ascii_lowercase b \<or> 0x41 \<le> b \<and> b \<le> 0x5A"

definition validate_name :: "rust_string \<Rightarrow> runner_domain_error + rust_string" where
  "validate_name value =
     (if value = [] then Err Runner_Empty
      else if contains_nul value then Err Runner_ContainsNull
      else if str_len value > name_max_bytes then Err Runner_TooLong
      else if \<not> (case as_bytes value of [] \<Rightarrow> False | b # _ \<Rightarrow> is_ascii_alphanumeric_byte b) \<or>
              \<not> list_all (\<lambda>b. is_ascii_alphanumeric_byte b \<or> b \<in> {0x2E, 0x5F, 0x2D}) (as_bytes value)
      then Err InvalidName
      else Ok value)"

definition validate_exact :: "rust_string \<Rightarrow> runner_domain_error + rust_string" where
  "validate_exact value =
     (if value = [] then Err Runner_Empty
      else if contains_nul value then Err Runner_ContainsNull
      else if str_len value > exact_value_max_bytes then Err Runner_TooLong
      else Ok value)"

definition validate_lower_hex :: "rust_string \<Rightarrow> nat list \<Rightarrow> runner_domain_error + rust_string" where
  "validate_lower_hex value lengths =
     (if str_len value \<notin> set lengths \<or>
         \<not> list_all (\<lambda>b. is_ascii_digit b \<or> 0x61 \<le> b \<and> b \<le> 0x66) (as_bytes value)
      then Err InvalidHex
      else Ok value)"

text \<open>\<^verbatim>\<open>Result::map\<close> of a newtype constructor.\<close>

definition named :: "runner_domain_error + rust_string \<Rightarrow> runner_domain_error + 'tag text_name" where
  "named r = (case r of Err e \<Rightarrow> Err e | Ok value \<Rightarrow> Ok (TextName value))"

definition capability_class_try_new :: "rust_string \<Rightarrow> runner_domain_error + runner_capability_class" where
  "capability_class_try_new value = named (validate_name value)"

definition credential_profile_try_new :: "rust_string \<Rightarrow> runner_domain_error + credential_profile_name" where
  "credential_profile_try_new value = named (validate_name value)"

definition working_directory_try_new :: "rust_string \<Rightarrow> runner_domain_error + runner_working_directory" where
  "working_directory_try_new value = named (validate_exact value)"

definition repository_key_try_new :: "rust_string \<Rightarrow> runner_domain_error + workspace_repository_key" where
  "repository_key_try_new value = named (validate_name value)"

definition clone_url_digest_try_new ::
  "rust_string \<Rightarrow> runner_domain_error + canonical_clone_url_digest" where
  "clone_url_digest_try_new value = named (validate_lower_hex value [64])"

definition workspace_revision_try_new :: "rust_string \<Rightarrow> runner_domain_error + workspace_revision" where
  "workspace_revision_try_new value = named (validate_lower_hex value [40, 64])"

text \<open>\<^verbatim>\<open>str::split\<close> at one character: always at least one component.\<close>

fun split_at :: "scalar \<Rightarrow> rust_string \<Rightarrow> rust_string list" where
  "split_at sep [] = [[]]"
| "split_at sep (c # cs) =
     (if c = sep then [] # split_at sep cs
      else (case split_at sep cs of [] \<Rightarrow> [[c]] | w # ws \<Rightarrow> (c # w) # ws))"

definition starts_with :: "rust_string \<Rightarrow> rust_string \<Rightarrow> bool" where
  "starts_with pre value \<longleftrightarrow> take (length pre) value = pre"

definition ends_with :: "rust_string \<Rightarrow> rust_string \<Rightarrow> bool" where
  "ends_with post value \<longleftrightarrow> starts_with (rev post) (rev value)"

fun contains_str :: "rust_string \<Rightarrow> rust_string \<Rightarrow> bool" where
  "contains_str needle [] = (needle = [])"
| "contains_str needle (c # cs) = (starts_with needle (c # cs) \<or> contains_str needle cs)"

definition workspace_branch_try_new :: "rust_string \<Rightarrow> runner_domain_error + workspace_branch_name" where
  "workspace_branch_try_new value =
     (let invalid_component = list_ex (\<lambda>component. component = [] \<or>
            starts_with (ascii ''.'') component \<or> ends_with (ascii ''.lock'') component)
          (split_at 0x2F value)
      in if value = [] \<or> str_len value > workspace_branch_max_bytes \<or> value = ascii ''@'' \<or>
            starts_with (ascii ''-'') value \<or> ends_with (ascii ''.'') value \<or>
            contains_str (ascii ''..'') value \<or> contains_str [0x40, 0x7B] value \<or>
            list_ex (\<lambda>b. b \<le> 0x20 \<or> b = 0x7F \<or> b \<in> {0x7E, 0x5E, 0x3A, 0x3F, 0x2A, 0x5B, 0x5C})
              (as_bytes value) \<or>
            invalid_component
         then Err InvalidBranchName
         else Ok (TextName value))"

definition workspace_path_try_new :: "rust_string \<Rightarrow> runner_domain_error + workspace_relative_path" where
  "workspace_path_try_new value =
     (case validate_exact value of
        Err e \<Rightarrow> Err e
      | Ok exact \<Rightarrow>
          if starts_with (ascii ''/'') exact \<or>
             list_ex (\<lambda>component. component \<in> {[], ascii ''.'', ascii ''..''}) (split_at 0x2F exact)
          then Err InvalidRelativePath
          else Ok (TextName exact))"

datatype workspace_recovery =
    Recovery_Commit workspace_revision
  | Recovery_Branch workspace_branch_name workspace_revision
  | Recovery_UnbornBranch workspace_branch_name

datatype runner_selector =
    Selector_Identity runner_id
  | Selector_CapabilityClass runner_capability_class

type_synonym runner_generation = u64

definition generation_one :: runner_generation where
  "generation_one = 1"

definition generation_try_from_u64 :: "u64 \<Rightarrow> runner_generation option" where
  "generation_try_from_u64 value = (if value = 0 then None else Some value)"

definition generation_checked_next :: "runner_generation \<Rightarrow> runner_generation option" where
  "generation_checked_next g =
     (case checked_succ g of None \<Rightarrow> None | Some value \<Rightarrow> generation_try_from_u64 value)"

section \<open>Declarations\<close>

datatype tool_admissible_loci =
    DaemonOnly
  | RunnerOnly runner_selector
  | DaemonOrRunner runner_selector

datatype runner_tool_effect_class = Effect_Pure | Effect_Idempotent | Effect_SideEffecting

fun allows_daemon :: "tool_admissible_loci \<Rightarrow> bool" where
  "allows_daemon DaemonOnly = True"
| "allows_daemon (DaemonOrRunner _) = True"
| "allows_daemon (RunnerOnly _) = False"

fun loci_runner_selector :: "tool_admissible_loci \<Rightarrow> runner_selector option" where
  "loci_runner_selector DaemonOnly = None"
| "loci_runner_selector (RunnerOnly selector) = Some selector"
| "loci_runner_selector (DaemonOrRunner selector) = Some selector"

record runner_tool_model_definition =
  md_description :: rust_string
  md_input_schema :: normalized_tool_arguments

definition max_schema_bytes :: nat where
  "max_schema_bytes = 1024 * 1024"

text \<open>\<open>normal\<close> stands for \<^verbatim>\<open>NormalizedToolArguments::try_from_provider_text\<close>.\<close>

definition model_definition_try_new ::
  "(rust_string \<Rightarrow> tool_arguments_error + normalized_tool_arguments)
     \<Rightarrow> rust_string \<Rightarrow> rust_string \<Rightarrow> runner_domain_error + runner_tool_model_definition" where
  "model_definition_try_new normal description input_schema =
     (case validate_exact description of
        Err e \<Rightarrow> Err e
      | Ok description \<Rightarrow>
          (case normal input_schema of
             Err _ \<Rightarrow> Err InvalidToolInputSchema
           | Ok schema \<Rightarrow>
               if args_kind schema \<noteq> Args_Json \<or> \<not> starts_with [0x7B] (args_value schema) \<or>
                  str_len (args_value schema) > max_schema_bytes
               then Err InvalidToolInputSchema
               else Ok \<lparr>md_description = description, md_input_schema = schema\<rparr>))"

record runner_tool_declaration =
  td_name :: tool_name
  td_model :: runner_tool_model_definition
  td_permission :: tool_permission_default
  td_effect :: runner_tool_effect_class
  td_loci :: tool_admissible_loci

fun tool_effect_class_of :: "runner_tool_effect_class \<Rightarrow> tool_effect_class" where
  "tool_effect_class_of Effect_Pure = EffectFree"
| "tool_effect_class_of Effect_Idempotent = ExternalEffect"
| "tool_effect_class_of Effect_SideEffecting = ExternalEffect"

datatype credential_tool_approval = Approval_Automatic | Approval_SessionPolicy

record credential_profile_policy =
  cp_name :: credential_profile_name
  cp_approvals :: "(tool_name \<times> credential_tool_approval) list"

text \<open>The loop that collects a map and rejects a repeated key.\<close>

fun collect_unique ::
  "('k::linorder \<Rightarrow> runner_domain_error) \<Rightarrow> ('k \<times> 'v) list \<Rightarrow> ('k \<times> 'v) list
     \<Rightarrow> runner_domain_error + ('k \<times> 'v) list" where
  "collect_unique duplicate acc [] = Ok acc"
| "collect_unique duplicate acc ((k, v) # rest) =
     (if bt_contains acc k then Err (duplicate k)
      else collect_unique duplicate (bt_insert k v acc) rest)"

definition profile_policy_try_new ::
  "credential_profile_name \<Rightarrow> (tool_name \<times> credential_tool_approval) list
     \<Rightarrow> runner_domain_error + credential_profile_policy" where
  "profile_policy_try_new name approvals =
     (case collect_unique DuplicateTool [] approvals of
        Err e \<Rightarrow> Err e
      | Ok checked \<Rightarrow> Ok \<lparr>cp_name = name, cp_approvals = checked\<rparr>)"

definition approval_for :: "credential_profile_policy \<Rightarrow> tool_name \<Rightarrow> credential_tool_approval" where
  "approval_for policy tool =
     (case bt_get (cp_approvals policy) tool of
        None \<Rightarrow> Approval_SessionPolicy | Some approval \<Rightarrow> approval)"

datatype runner_tool_permission_override = Override_Auto | Override_Confirm

type_synonym runner_tool_permission_overrides =
  "(tool_name \<times> runner_tool_permission_override) list"

definition permission_override_max_entries :: nat where
  "permission_override_max_entries = 64"

fun collect_overrides ::
  "runner_tool_permission_overrides \<Rightarrow> runner_tool_permission_overrides
     \<Rightarrow> runner_domain_error + runner_tool_permission_overrides" where
  "collect_overrides acc [] = Ok acc"
| "collect_overrides acc ((tool, permission) # rest) =
     (if bt_contains acc tool then Err (DuplicateTool tool)
      else let acc' = bt_insert tool permission acc in
        if length acc' > permission_override_max_entries then Err TooManyPermissionOverrides
        else collect_overrides acc' rest)"

definition permission_overrides_try_new ::
  "(tool_name \<times> runner_tool_permission_override) list
     \<Rightarrow> runner_domain_error + runner_tool_permission_overrides" where
  "permission_overrides_try_new overrides = collect_overrides [] overrides"

record runner_repository_entry =
  re_key :: workspace_repository_key
  re_credential_profile :: "credential_profile_name option"

section \<open>The catalog\<close>

record runner_catalog =
  rc_classes :: "runner_capability_class list"
  rc_tools :: "(tool_name \<times> runner_tool_declaration) list"
  rc_profiles :: "(credential_profile_name \<times> credential_profile_policy) list"
  rc_workspaces :: "workspace_capability list"
  rc_sandboxes :: "runner_sandbox_profile list"

text \<open>The loop that collects a set and rejects a repeated element.\<close>

fun collect_distinct ::
  "('a::linorder \<Rightarrow> runner_domain_error) \<Rightarrow> 'a list \<Rightarrow> 'a list \<Rightarrow> runner_domain_error + 'a list" where
  "collect_distinct duplicate acc [] = Ok acc"
| "collect_distinct duplicate acc (x # rest) =
     (if x \<in> set acc then Err (duplicate x)
      else collect_distinct duplicate (bs_insert x acc) rest)"

fun collect_tools ::
  "runner_capability_class list \<Rightarrow> (tool_name \<times> runner_tool_declaration) list
     \<Rightarrow> runner_tool_declaration list
     \<Rightarrow> runner_domain_error + (tool_name \<times> runner_tool_declaration) list" where
  "collect_tools classes acc [] = Ok acc"
| "collect_tools classes acc (tool # rest) =
     (if td_effect tool = Effect_Idempotent \<and> allows_daemon (td_loci tool)
      then Err (UnsupportedDaemonIdempotency (td_name tool))
      else case loci_runner_selector (td_loci tool) of
        Some (Selector_CapabilityClass class) \<Rightarrow>
          if class \<notin> set classes then Err (CapabilityClassNotAllowed class)
          else if bt_contains acc (td_name tool) then Err (DuplicateTool (td_name tool))
          else collect_tools classes (bt_insert (td_name tool) tool acc) rest
      | _ \<Rightarrow>
          if bt_contains acc (td_name tool) then Err (DuplicateTool (td_name tool))
          else collect_tools classes (bt_insert (td_name tool) tool acc) rest)"

text \<open>The first profile tool that the catalog does not declare.\<close>

fun undeclared_profile_tool ::
  "(tool_name \<times> runner_tool_declaration) list \<Rightarrow> credential_profile_policy list \<Rightarrow> tool_name option"
where
  "undeclared_profile_tool tools [] = None"
| "undeclared_profile_tool tools (profile # rest) =
     (case find (\<lambda>tool. \<not> bt_contains tools tool) (map fst (cp_approvals profile)) of
        Some tool \<Rightarrow> Some tool
      | None \<Rightarrow> undeclared_profile_tool tools rest)"

definition catalog_try_new ::
  "runner_capability_class list \<Rightarrow> runner_tool_declaration list \<Rightarrow> credential_profile_policy list
     \<Rightarrow> workspace_capability list \<Rightarrow> runner_sandbox_profile list
     \<Rightarrow> runner_domain_error + runner_catalog" where
  "catalog_try_new classes tools profiles workspaces sandboxes =
     (case collect_distinct DuplicateCapabilityClass [] classes of
        Err e \<Rightarrow> Err e
      | Ok checked_classes \<Rightarrow>
      (case collect_tools checked_classes [] tools of
        Err e \<Rightarrow> Err e
      | Ok checked_tools \<Rightarrow>
      (case collect_unique DuplicateProfile [] (map (\<lambda>p. (cp_name p, p)) profiles) of
        Err e \<Rightarrow> Err e
      | Ok checked_profiles \<Rightarrow>
      (case undeclared_profile_tool checked_tools (map snd checked_profiles) of
        Some tool \<Rightarrow> Err (UndeclaredProfileTool tool)
      | None \<Rightarrow>
      (case collect_distinct DuplicateWorkspaceCapability [] workspaces of
        Err e \<Rightarrow> Err e
      | Ok checked_workspaces \<Rightarrow>
      (case collect_distinct DuplicateSandboxProfile [] sandboxes of
        Err e \<Rightarrow> Err e
      | Ok checked_sandboxes \<Rightarrow>
          Ok \<lparr>rc_classes = checked_classes, rc_tools = checked_tools,
              rc_profiles = checked_profiles, rc_workspaces = checked_workspaces,
              rc_sandboxes = checked_sandboxes\<rparr>))))))"

record runner_advertisement =
  av_default_working_directory :: "runner_working_directory option"
  av_classes :: "runner_capability_class list"
  av_tools :: "tool_name list"
  av_profiles :: "credential_profile_name list"
  av_workspaces :: "workspace_capability list"
  av_sandboxes :: "runner_sandbox_profile list"
  av_repositories :: "(workspace_repository_key \<times> runner_repository_entry) list"

definition max_repositories :: nat where
  "max_repositories = 64"

definition advertisement_new ::
  "runner_capability_class list \<Rightarrow> tool_name list \<Rightarrow> credential_profile_name list
     \<Rightarrow> workspace_capability list \<Rightarrow> runner_sandbox_profile list \<Rightarrow> runner_repository_entry list
     \<Rightarrow> runner_advertisement" where
  "advertisement_new classes tools profiles workspaces sandboxes repositories =
     \<lparr>av_default_working_directory = None, av_classes = bs_of_list classes,
      av_tools = bs_of_list tools, av_profiles = bs_of_list profiles,
      av_workspaces = bs_of_list workspaces, av_sandboxes = bs_of_list sandboxes,
      av_repositories = bt_collect (map (\<lambda>entry. (re_key entry, entry)) repositories)\<rparr>"

definition with_default_working_directory ::
  "runner_working_directory option \<Rightarrow> runner_advertisement \<Rightarrow> runner_advertisement" where
  "with_default_working_directory directory advertisement =
     advertisement\<lparr>av_default_working_directory := directory\<rparr>"

end
