(* ===== verification/Tool_Batch.thy ===== *)
theory Tool_Batch
  imports Tool_Attempt Context_Frontier Runner_Catalog
begin

text \<open>
  The logical tool batch of one producing model call, \<^verbatim>\<open>src/crates/domain/src/tool_execution/\<close>
  (\<^verbatim>\<open>batch.rs\<close>, \<^verbatim>\<open>batch/approval.rs\<close>, \<^verbatim>\<open>batch/attempt.rs\<close>), with the runner authorisation of
  \<^verbatim>\<open>runner/lease.rs\<close> that a batch issues. Requests are decided in proposal order, executed one
  at a time, and every physical attempt issues runner authority at most once.
\<close>

section \<open>State\<close>

datatype tool_batch_phase =
    Phase_AwaitingApproval tool_request_id
  | Phase_Executing turn_attempt_id
  | Phase_AwaitingRecovery tool_attempt_id
  | Phase_AwaitingChild tool_request_id tool_request_id session_id

record tool_batch =
  tb_session :: session_id
  tb_turn :: turn_id
  tb_producing_call :: model_call_id
  tb_yielded_snapshot :: resolved_snapshot
  tb_requests :: "tool_request list"
  tb_approvals :: "(tool_request_id \<times> tool_approval_resolution) list"
  tb_attempts :: "(tool_request_id \<times> reconstituted_tool_attempt) list"
  tb_retired_attempts :: "tool_attempt_id list"
  tb_runner_issuance :: "(tool_attempt_id \<times> issuance_cell) list"
  tb_phase :: tool_batch_phase

definition batch_approval :: "tool_batch \<Rightarrow> tool_request_id \<Rightarrow> tool_approval_resolution option" where
  "batch_approval b request = bt_get (tb_approvals b) request"

definition batch_attempt :: "tool_batch \<Rightarrow> tool_request_id \<Rightarrow> reconstituted_tool_attempt option" where
  "batch_attempt b request = bt_get (tb_attempts b) request"

text \<open>Cells are read with \<^verbatim>\<open>load\<close>; an address outside the store cannot occur and reads as
  available.\<close>

definition load_cell :: "issuance_store \<Rightarrow> issuance_cell \<Rightarrow> 8 word" where
  "load_cell st c = (if c < length st then st ! c else runner_issuance_available)"

definition runner_authorized_attempts :: "issuance_store \<Rightarrow> tool_batch \<Rightarrow> tool_attempt_id list" where
  "runner_authorized_attempts st b =
     map fst (filter (\<lambda>(_, cell). load_cell st cell \<noteq> runner_issuance_available) (tb_runner_issuance b))"

text \<open>
  \<^verbatim>\<open>PartialEq\<close> compares the issuance state, not the cells. The yielded snapshots are compared whole;
  their own \<^verbatim>\<open>PartialEq\<close> looks at the frontier and its entries only, so this equality implies that one.
\<close>

definition batch_eq :: "issuance_store \<Rightarrow> tool_batch \<Rightarrow> tool_batch \<Rightarrow> bool" where
  "batch_eq st a b \<longleftrightarrow>
     tb_session a = tb_session b \<and> tb_turn a = tb_turn b \<and>
     tb_producing_call a = tb_producing_call b \<and>
     tb_yielded_snapshot a = tb_yielded_snapshot b \<and> tb_requests a = tb_requests b \<and>
     tb_approvals a = tb_approvals b \<and> tb_attempts a = tb_attempts b \<and>
     tb_retired_attempts a = tb_retired_attempts b \<and>
     runner_authorized_attempts st a = runner_authorized_attempts st b \<and>
     tb_phase a = tb_phase b"

record awaiting_tool_approval =
  aa_session :: session_id
  aa_turn :: turn_id
  aa_request :: tool_request_id

definition awaiting_approval :: "tool_batch \<Rightarrow> awaiting_tool_approval option" where
  "awaiting_approval b =
     (case tb_phase b of
        Phase_AwaitingApproval request \<Rightarrow>
          Some \<lparr>aa_session = tb_session b, aa_turn = tb_turn b, aa_request = request\<rparr>
      | _ \<Rightarrow> None)"

record awaiting_tool_recovery =
  aw_session :: session_id
  aw_turn :: turn_id
  aw_producing_call :: model_call_id
  aw_yielded_frontier :: context_frontier_id
  aw_issuing_attempt :: turn_attempt_id
  aw_attempt :: tool_attempt_id

text \<open>\<^verbatim>\<open>find_map\<close> over the map's values.\<close>

fun find_map :: "('a \<Rightarrow> 'b option) \<Rightarrow> 'a list \<Rightarrow> 'b option" where
  "find_map f [] = None"
| "find_map f (x # xs) = (case f x of Some y \<Rightarrow> Some y | None \<Rightarrow> find_map f xs)"

definition awaiting_recovery :: "tool_batch \<Rightarrow> awaiting_tool_recovery option" where
  "awaiting_recovery b =
     (case tb_phase b of
        Phase_AwaitingRecovery attempt \<Rightarrow>
          find_map (\<lambda>candidate. case candidate of
              Ended ended \<Rightarrow>
                if ea_attempt ended = attempt \<and> ea_end ended = End_Ambiguous
                then Some \<lparr>aw_session = tb_session b, aw_turn = tb_turn b,
                       aw_producing_call = tb_producing_call b,
                       aw_yielded_frontier = snapshot (rs_frontier (tb_yielded_snapshot b)),
                       aw_issuing_attempt = ea_issuing_attempt ended, aw_attempt = attempt\<rparr>
                else None
            | Current _ \<Rightarrow> None)
            (map snd (tb_attempts b))
      | _ \<Rightarrow> None)"

section \<open>Decisions\<close>

text \<open>
  The two active turn phases a decision leads to. \<^verbatim>\<open>Running\<close> holds the newly prepared turn
  attempt of the supplied identity.
\<close>

datatype decision_active_phase =
    Active_AwaitingApproval tool_request_id
  | Active_Running turn_attempt_id

record prepared_batch_decision =
  bd_batch :: tool_batch
  bd_prepared_command :: prepared_decide
  bd_active_phase :: decision_active_phase

record prepared_delegate_decision =
  dd_batch :: tool_batch
  dd_approval :: delegate_tool_approval
  dd_resolution :: "tool_approval_resolution option"
  dd_active_phase :: decision_active_phase

datatype delegate_transition_failure =
    Delegate_NoUndecidedRequest
  | Delegate_RequestMismatch
  | Delegate_ContinuationAttemptMismatch

datatype batch_decision_failure =
    Decision_NoUndecidedRequest
  | Decision_CommandCorrelationMismatch
  | Decision_ContinuationAttemptMismatch

type_synonym batch_decision_error = "tool_batch \<times> decide_tool_request \<times> batch_decision_failure"

type_synonym delegate_transition_error =
  "tool_batch \<times> delegate_tool_approval \<times> delegate_transition_failure"

definition decision_rejected ::
  "tool_batch \<Rightarrow> prepared_decide \<Rightarrow> tool_request_id \<Rightarrow> prepared_batch_decision" where
  "decision_rejected b prepared waiting_on =
     \<lparr>bd_batch = b, bd_prepared_command = prepared,
      bd_active_phase = Active_AwaitingApproval waiting_on\<rparr>"

text \<open>The scan for the earliest admissible request without a decision.\<close>

definition earliest_undecided ::
  "tool_request list \<Rightarrow> (tool_request_id \<times> tool_approval_resolution) list \<Rightarrow> tool_request_id option"
where
  "earliest_undecided requests approvals =
     map_option tr_id (find (\<lambda>candidate. tr_inadmissible_reason candidate = None \<and>
       \<not> bt_contains approvals (tr_id candidate)) requests)"

text \<open>The successor phases; \<open>None\<close> when the continuation identity disagrees.\<close>

fun successor_phase ::
  "tool_request_id option \<Rightarrow> turn_attempt_id option
     \<Rightarrow> (tool_batch_phase \<times> decision_active_phase) option" where
  "successor_phase (Some waiting) None = Some (Phase_AwaitingApproval waiting, Active_AwaitingApproval waiting)"
| "successor_phase None (Some turn_attempt) =
     Some (Phase_Executing turn_attempt, Active_Running turn_attempt)"
| "successor_phase _ _ = None"

definition prepare_decision ::
  "(decide_tool_request \<Rightarrow> tool_request \<Rightarrow> decide_preparation_error + prepared_decide)
     \<Rightarrow> tool_batch \<Rightarrow> decide_tool_request \<Rightarrow> turn_attempt_id option
     \<Rightarrow> batch_decision_error + prepared_batch_decision" where
  "prepare_decision prepare b command continuation =
     (case tb_phase b of
        Phase_AwaitingApproval waiting_on \<Rightarrow>
          (let request = dt_request command in
           case find (\<lambda>candidate. tr_id candidate = request) (tb_requests b) of
             None \<Rightarrow> Err (b, command, Decision_CommandCorrelationMismatch)
           | Some request_record \<Rightarrow>
               if tr_inadmissible_reason request_record \<noteq> None \<or>
                  bt_contains (tb_approvals b) request
               then Ok (decision_rejected b (prepare_already_resolved command) waiting_on)
               else if earliest_undecided (tb_requests b) (tb_approvals b) \<noteq> Some request
               then (case earliest_undecided (tb_requests b) (tb_approvals b) of
                       None \<Rightarrow> Err (b, command, Decision_NoUndecidedRequest)
                     | Some earliest \<Rightarrow>
                         Ok (decision_rejected b (prepare_not_earliest command earliest) waiting_on))
               else case prepare command request_record of
                 Err e \<Rightarrow> Err (b, fst e, Decision_CommandCorrelationMismatch)
               | Ok prepared \<Rightarrow>
                   (case pd_result prepared of
                      Decide_Rejected _ \<Rightarrow>
                        Err (b, pd_command prepared, Decision_CommandCorrelationMismatch)
                    | Decide_Applied applied \<Rightarrow>
                        (let approvals = bt_insert request applied (tb_approvals b) in
                         case successor_phase (earliest_undecided (tb_requests b) approvals)
                                continuation of
                           None \<Rightarrow>
                             Err (b, pd_command prepared, Decision_ContinuationAttemptMismatch)
                         | Some (phase, active_phase) \<Rightarrow>
                             Ok \<lparr>bd_batch = b\<lparr>tb_approvals := approvals, tb_phase := phase\<rparr>,
                                 bd_prepared_command = prepared, bd_active_phase = active_phase\<rparr>)))
      | _ \<Rightarrow> Err (b, command, Decision_NoUndecidedRequest))"

definition prepare_user_decision ::
  "tool_batch \<Rightarrow> decide_tool_request \<Rightarrow> turn_attempt_id option
     \<Rightarrow> batch_decision_error + prepared_batch_decision" where
  "prepare_user_decision = prepare_decision prepare_applied"

definition prepare_lifecycle_closure_denial ::
  "tool_batch \<Rightarrow> decide_tool_request \<Rightarrow> turn_attempt_id option
     \<Rightarrow> batch_decision_error + prepared_batch_decision" where
  "prepare_lifecycle_closure_denial = prepare_decision prepare_lifecycle_closure_applied"

definition prepare_approval_timeout ::
  "tool_batch \<Rightarrow> decide_tool_request \<Rightarrow> turn_attempt_id option
     \<Rightarrow> batch_decision_error + prepared_batch_decision" where
  "prepare_approval_timeout = prepare_decision prepare_approval_timeout_applied"

definition prepare_delegate_decision ::
  "tool_batch \<Rightarrow> delegate_tool_approval \<Rightarrow> turn_attempt_id option
     \<Rightarrow> delegate_transition_error + prepared_delegate_decision" where
  "prepare_delegate_decision b approval continuation =
     (case tb_phase b of
        Phase_AwaitingApproval waiting_on \<Rightarrow>
          (case find (\<lambda>request. tr_id request = da_request approval) (tb_requests b) of
             None \<Rightarrow> Err (b, approval, Delegate_RequestMismatch)
           | Some request \<Rightarrow>
               if waiting_on \<noteq> da_request approval \<or>
                  bt_contains (tb_approvals b) (da_request approval) \<or>
                  tr_approval_posture request \<noteq> da_posture approval
               then Err (b, approval, Delegate_RequestMismatch)
               else case resolution_delegate approval of
                 None \<Rightarrow>
                   if continuation = None
                   then Ok \<lparr>dd_batch = b, dd_approval = approval, dd_resolution = None,
                            dd_active_phase = Active_AwaitingApproval waiting_on\<rparr>
                   else Err (b, approval, Delegate_ContinuationAttemptMismatch)
               | Some resolution \<Rightarrow>
                   (let approvals = bt_insert (da_request approval) resolution (tb_approvals b) in
                    case successor_phase (earliest_undecided (tb_requests b) approvals)
                           continuation of
                      None \<Rightarrow> Err (b, approval, Delegate_ContinuationAttemptMismatch)
                    | Some (phase, active_phase) \<Rightarrow>
                        Ok \<lparr>dd_batch = b\<lparr>tb_approvals := approvals, tb_phase := phase\<rparr>,
                            dd_approval = approval, dd_resolution = Some resolution,
                            dd_active_phase = active_phase\<rparr>))
      | _ \<Rightarrow> Err (b, approval, Delegate_NoUndecidedRequest))"

section \<open>Attempts\<close>

datatype batch_execution_failure =
    NotExecuting
  | LiveAttemptPresent
  | AttemptMissing
  | AttemptStageMismatch
  | ReadyForContinuation
  | TurnLevelFailure
  | AttemptIdentityReuse
  | ApprovalMismatch

fun attempt_id :: "reconstituted_tool_attempt \<Rightarrow> tool_attempt_id" where
  "attempt_id (Current a) = ca_attempt a"
| "attempt_id (Ended e) = ea_attempt e"

fun is_current :: "reconstituted_tool_attempt \<Rightarrow> bool" where
  "is_current (Current _) = True"
| "is_current (Ended _) = False"

fun is_crash_lost :: "reconstituted_tool_attempt \<Rightarrow> bool" where
  "is_crash_lost (Ended e) =
     (case ea_end e of End_KnownFailed err \<Rightarrow> te_kind err = Error_CrashLost | _ \<Rightarrow> False)"
| "is_crash_lost (Current _) = False"

definition identity_in_use :: "tool_batch \<Rightarrow> tool_attempt_id \<Rightarrow> bool" where
  "identity_in_use b attempt \<longleftrightarrow>
     attempt \<in> set (tb_retired_attempts b) \<or>
     list_ex (\<lambda>candidate. attempt_id candidate = attempt) (map snd (tb_attempts b))"

definition prepare_next_attempt ::
  "tool_batch \<Rightarrow> tool_attempt_id \<Rightarrow> tool_effect_class
     \<Rightarrow> batch_execution_failure + current_tool_attempt" where
  "prepare_next_attempt b attempt effect =
     (case tb_phase b of
        Phase_Executing turn_attempt \<Rightarrow>
          if list_ex is_current (map snd (tb_attempts b)) then Err LiveAttemptPresent
          else if list_ex is_crash_lost (map snd (tb_attempts b)) then Err TurnLevelFailure
          else if identity_in_use b attempt then Err AttemptIdentityReuse
          else (case find (\<lambda>request.
                  (case bt_get (tb_approvals b) (tr_id request) of
                     None \<Rightarrow> False | Some approval \<Rightarrow> is_approved approval) \<and>
                  \<not> bt_contains (tb_attempts b) (tr_id request)) (tb_requests b) of
             None \<Rightarrow> Err ReadyForContinuation
           | Some request \<Rightarrow>
               (case try_from_resolution request (the (bt_get (tb_approvals b) (tr_id request))) of
                  Err _ \<Rightarrow> Err ApprovalMismatch
                | Ok approved \<Rightarrow> Ok (prepare_attempt approved attempt turn_attempt effect)))
      | _ \<Rightarrow> Err NotExecuting)"

text \<open>Lookup of the current attempt of an identity, with a required stage or any stage.\<close>

definition find_current ::
  "tool_batch \<Rightarrow> tool_attempt_id \<Rightarrow> current_tool_attempt option" where
  "find_current b attempt =
     find_map (\<lambda>candidate. case candidate of
         Current current \<Rightarrow> if ca_attempt current = attempt then Some current else None
       | Ended _ \<Rightarrow> None) (map snd (tb_attempts b))"

definition find_in_flight ::
  "tool_batch \<Rightarrow> tool_attempt_id \<Rightarrow> (tool_request_id \<times> current_tool_attempt) option" where
  "find_in_flight b attempt =
     find_map (\<lambda>(request, candidate). case candidate of
         Current current \<Rightarrow>
           if ca_attempt current = attempt \<and> ca_state current = Attempt_InFlight
           then Some (request, current) else None
       | Ended _ \<Rightarrow> None) (tb_attempts b)"

fun is_executing :: "tool_batch_phase \<Rightarrow> bool" where
  "is_executing (Phase_Executing _) = True"
| "is_executing _ = False"

definition authorize_attempt ::
  "tool_batch \<Rightarrow> tool_attempt_id \<Rightarrow> batch_execution_failure + authorized_tool_attempt" where
  "authorize_attempt b attempt =
     (if \<not> is_executing (tb_phase b) then Err NotExecuting
      else case find_current b attempt of
        None \<Rightarrow> Err AttemptMissing
      | Some current \<Rightarrow>
          (case bt_get (tb_runner_issuance b) attempt of
             None \<Rightarrow> Err AttemptMissing
           | Some cell \<Rightarrow>
               (case authorize_with_runner_issuance current cell of
                  Err _ \<Rightarrow> Err AttemptStageMismatch
                | Ok authorized \<Rightarrow> Ok authorized)))"

definition resume_in_flight_attempt ::
  "tool_batch \<Rightarrow> tool_attempt_id \<Rightarrow> batch_execution_failure + authorized_tool_attempt" where
  "resume_in_flight_attempt b attempt =
     (if \<not> is_executing (tb_phase b) then Err NotExecuting
      else case find_current b attempt of
        None \<Rightarrow> Err AttemptMissing
      | Some current \<Rightarrow>
          (case bt_get (tb_runner_issuance b) attempt of
             None \<Rightarrow> Err AttemptMissing
           | Some cell \<Rightarrow>
               (case resume_in_flight_with_runner_issuance current cell of
                  Err _ \<Rightarrow> Err AttemptStageMismatch
                | Ok authorized \<Rightarrow> Ok authorized)))"

text \<open>The tail shared by \<^verbatim>\<open>authorize_dispatch\<close> and \<^verbatim>\<open>resume_in_flight_dispatch\<close>.\<close>

definition bind_dispatch ::
  "tool_batch \<Rightarrow> authorized_tool_attempt \<Rightarrow> batch_execution_failure + tool_dispatch_authority" where
  "bind_dispatch b authorized =
     (case find (\<lambda>request. tr_id request = ca_request (au_attempt authorized)) (tb_requests b) of
        None \<Rightarrow> Err AttemptMissing
      | Some request \<Rightarrow>
          (case dispatch_authority_try_new request authorized of
             None \<Rightarrow> Err AttemptStageMismatch
           | Some authority \<Rightarrow> Ok authority))"

definition authorize_dispatch ::
  "tool_batch \<Rightarrow> tool_attempt_id \<Rightarrow> batch_execution_failure + tool_dispatch_authority" where
  "authorize_dispatch b attempt =
     (case authorize_attempt b attempt of Err f \<Rightarrow> Err f | Ok authorized \<Rightarrow> bind_dispatch b authorized)"

definition resume_in_flight_dispatch ::
  "tool_batch \<Rightarrow> tool_attempt_id \<Rightarrow> batch_execution_failure + tool_dispatch_authority" where
  "resume_in_flight_dispatch b attempt =
     (case resume_in_flight_attempt b attempt of
        Err f \<Rightarrow> Err f | Ok authorized \<Rightarrow> bind_dispatch b authorized)"

section \<open>Runner authorisation\<close>

text \<open>
  \<^verbatim>\<open>RunnerToolAttemptAuthorization\<close> of \<^verbatim>\<open>runner/lease.rs\<close>. The evidence a retry adds to it is
  the parameter \<open>'retry\<close>, instantiated with the lease's evidence type.
\<close>

record 'retry runner_authorization =
  ra_approved :: approved_tool_request
  ra_authorized :: authorized_tool_attempt
  ra_retry_evidence :: "'retry option"

definition runner_authorization_try_new ::
  "approved_tool_request \<Rightarrow> authorized_tool_attempt \<Rightarrow> issuance_store
     \<Rightarrow> (runner_domain_error + 'retry runner_authorization) \<times> issuance_store" where
  "runner_authorization_try_new approved authorized st =
     (let request = ap_request approved; correlation = au_correlation authorized in
      if tr_id request \<noteq> dc_request correlation \<or> tr_session request \<noteq> dc_session correlation \<or>
         tr_turn request \<noteq> dc_turn correlation
      then (Err Runner_CorrelationMismatch, st)
      else case claim_runner_issuance authorized st of
        (False, st') \<Rightarrow> (Err Runner_InvalidState, st')
      | (True, st') \<Rightarrow>
          (Ok \<lparr>ra_approved = approved, ra_authorized = authorized, ra_retry_evidence = None\<rparr>, st'))"

definition bind_runner_authorization ::
  "tool_batch \<Rightarrow> authorized_tool_attempt \<Rightarrow> issuance_store
     \<Rightarrow> (batch_execution_failure + 'retry runner_authorization) \<times> issuance_store" where
  "bind_runner_authorization b authorized st =
     (case find (\<lambda>request. tr_id request = dc_request (au_correlation authorized)) (tb_requests b) of
        None \<Rightarrow> (Err AttemptMissing, st)
      | Some request \<Rightarrow>
          (case bt_get (tb_approvals b) (tr_id request) of
             None \<Rightarrow> (Err ApprovalMismatch, st)
           | Some approval \<Rightarrow>
               (case try_from_resolution request approval of
                  Err _ \<Rightarrow> (Err ApprovalMismatch, st)
                | Ok approved \<Rightarrow>
                    (case runner_authorization_try_new approved authorized st of
                       (Err _, st') \<Rightarrow> (Err AttemptStageMismatch, st')
                     | (Ok authorization, st') \<Rightarrow> (Ok authorization, st')))))"

definition authorize_runner_attempt ::
  "tool_batch \<Rightarrow> tool_attempt_id \<Rightarrow> issuance_store
     \<Rightarrow> (batch_execution_failure + 'retry runner_authorization) \<times> issuance_store" where
  "authorize_runner_attempt b attempt st =
     (case authorize_attempt b attempt of
        Err f \<Rightarrow> (Err f, st) | Ok authorized \<Rightarrow> bind_runner_authorization b authorized st)"

definition resume_runner_attempt ::
  "tool_batch \<Rightarrow> tool_attempt_id \<Rightarrow> issuance_store
     \<Rightarrow> (batch_execution_failure + 'retry runner_authorization) \<times> issuance_store" where
  "resume_runner_attempt b attempt st =
     (case resume_in_flight_attempt b attempt of
        Err f \<Rightarrow> (Err f, st) | Ok authorized \<Rightarrow> bind_runner_authorization b authorized st)"

definition reauthorize_unclaimed_runner_attempt ::
  "tool_batch \<Rightarrow> tool_attempt_id \<Rightarrow> issuance_store
     \<Rightarrow> (batch_execution_failure + tool_batch \<times> 'retry runner_authorization) \<times> issuance_store" where
  "reauthorize_unclaimed_runner_attempt b attempt st =
     (if \<not> is_executing (tb_phase b) then (Err NotExecuting, st)
      else case find_in_flight b attempt of
        None \<Rightarrow> (Err AttemptMissing, st)
      | Some (_, current) \<Rightarrow>
          (case bt_get (tb_runner_issuance b) attempt of
             None \<Rightarrow> (Err AttemptMissing, st)
           | Some prior \<Rightarrow>
               (case compare_exchange prior runner_issuance_issued runner_issuance_retired st of
                  (False, st') \<Rightarrow> (Err AttemptStageMismatch, st')
                | (True, st') \<Rightarrow>
                    (let (cell, st'') = new_cell runner_issuance_available st';
                         b' = b\<lparr>tb_runner_issuance := bt_insert attempt cell (tb_runner_issuance b)\<rparr>
                     in case resume_in_flight_with_runner_issuance current cell of
                          Err _ \<Rightarrow> (Err AttemptStageMismatch, st'')
                        | Ok authorized \<Rightarrow>
                            (case bind_runner_authorization b' authorized st'' of
                               (Err f, st3) \<Rightarrow> (Err f, st3)
                             | (Ok authorization, st3) \<Rightarrow> (Ok (b', authorization), st3))))))"

record claimed_replacement =
  cr_batch :: tool_batch
  cr_retired :: ended_tool_attempt
  cr_approved :: approved_tool_request
  cr_authorized :: authorized_tool_attempt

definition replace_claimed_attempt ::
  "tool_batch \<Rightarrow> tool_attempt_id \<Rightarrow> tool_attempt_id \<Rightarrow> issuance_store
     \<Rightarrow> (batch_execution_failure + claimed_replacement) \<times> issuance_store" where
  "replace_claimed_attempt b claimed replacement st =
     (case tb_phase b of
        Phase_Executing turn_attempt \<Rightarrow>
          if identity_in_use b replacement then (Err AttemptIdentityReuse, st)
          else (case find_in_flight b claimed of
             None \<Rightarrow> (Err AttemptMissing, st)
           | Some (request, current) \<Rightarrow>
               (case find (\<lambda>candidate. tr_id candidate = request) (tb_requests b) of
                  None \<Rightarrow> (Err AttemptMissing, st)
                | Some request_record \<Rightarrow>
                    (case bt_get (tb_approvals b) request of
                       None \<Rightarrow> (Err ApprovalMismatch, st)
                     | Some approval \<Rightarrow>
                         (case try_from_resolution request_record approval of
                            Err _ \<Rightarrow> (Err ApprovalMismatch, st)
                          | Ok approved \<Rightarrow>
                              (let retired = crash_ended (classify_crash_loss current);
                                   (cell, st') = new_cell runner_issuance_available st
                               in case authorize_with_runner_issuance
                                    (prepare_attempt approved replacement turn_attempt
                                      (ca_effect_class current)) cell of
                                    Err _ \<Rightarrow> (Err AttemptStageMismatch, st')
                                  | Ok authorized \<Rightarrow>
                                      (Ok \<lparr>cr_batch = b
                                         \<lparr>tb_runner_issuance :=
                                            bt_insert replacement cell (tb_runner_issuance b),
                                          tb_retired_attempts :=
                                            bs_insert (ea_attempt retired) (tb_retired_attempts b),
                                          tb_attempts := bt_insert request
                                            (Current (au_attempt authorized)) (tb_attempts b)\<rparr>,
                                        cr_retired = retired, cr_approved = approved,
                                        cr_authorized = authorized\<rparr>, st'))))))
      | _ \<Rightarrow> (Err NotExecuting, st))"

end
