(* ===== verification/Tool_Batch_Stored.thy ===== *)
theory Tool_Batch_Stored
  imports Tool_Batch
begin

text \<open>
  Reconstitution of a complete tool batch from stored facts,
  \<^verbatim>\<open>tool_execution/batch/reconstitution.rs\<close>. Each loop of \<^verbatim>\<open>reconstitute_batch\<close> is a function
  here; an exact characterisation of acceptance follows, and with it that every transition of
  a batch leads to a batch that storage restores.
\<close>

section \<open>Stored facts\<close>

text \<open>The stored phase has the constructors of the live one.\<close>

type_synonym tool_batch_phase_input = tool_batch_phase

record tool_batch_input =
  bi_session :: session_id
  bi_turn :: turn_id
  bi_producing_call :: model_call_id
  bi_yielded_snapshot :: resolved_snapshot
  bi_requests :: "tool_request list"
  bi_approvals :: "tool_approval_resolution list"
  bi_attempts :: "reconstituted_tool_attempt list"
  bi_retired_attempts :: "tool_attempt_id list"
  bi_runner_authorized_attempts :: "tool_attempt_id list"
  bi_runner_recovery_predecessors :: "turn_attempt_id list"
  bi_phase :: tool_batch_phase_input

definition batch_input_new ::
  "session_id \<Rightarrow> turn_id \<Rightarrow> model_call_id \<Rightarrow> resolved_snapshot \<Rightarrow> tool_request list
     \<Rightarrow> tool_approval_resolution list \<Rightarrow> reconstituted_tool_attempt list \<Rightarrow> tool_batch_phase_input
     \<Rightarrow> tool_batch_input" where
  "batch_input_new session turn call yielded requests approvals attempts phase =
     \<lparr>bi_session = session, bi_turn = turn, bi_producing_call = call,
      bi_yielded_snapshot = yielded, bi_requests = requests, bi_approvals = approvals,
      bi_attempts = attempts, bi_retired_attempts = [], bi_runner_authorized_attempts = [],
      bi_runner_recovery_predecessors = [], bi_phase = phase\<rparr>"

definition with_retired_attempts :: "tool_attempt_id list \<Rightarrow> tool_batch_input \<Rightarrow> tool_batch_input" where
  "with_retired_attempts retired i = i\<lparr>bi_retired_attempts := retired\<rparr>"

definition with_runner_authorized_attempts ::
  "tool_attempt_id list \<Rightarrow> tool_batch_input \<Rightarrow> tool_batch_input" where
  "with_runner_authorized_attempts authorized i = i\<lparr>bi_runner_authorized_attempts := authorized\<rparr>"

definition with_runner_recovery_predecessor ::
  "turn_attempt_id \<Rightarrow> tool_batch_input \<Rightarrow> tool_batch_input" where
  "with_runner_recovery_predecessor predecessor i =
     i\<lparr>bi_runner_recovery_predecessors := bi_runner_recovery_predecessors i @ [predecessor]\<rparr>"

datatype tool_batch_reconstitution_failure =
    EmptyRequestBatch
  | RequestOwnershipMismatch
  | RequestOrderMismatch
  | YieldedSnapshotSessionMismatch
  | ApprovalInventoryMismatch
  | AttemptInventoryMismatch
  | AttemptAuthorizationMismatch
  | MultipleLiveAttempts
  | AttemptOrderMismatch
  | ApprovalPhaseMismatch
  | ExecutionPhaseMismatch
  | RecoveryPhaseMismatch
  | ChildWaitPhaseMismatch

type_synonym tool_batch_reconstitution_error =
  "tool_batch_input \<times> tool_batch_reconstitution_failure"

section \<open>The loops\<close>

fun check_requests ::
  "tool_batch_input \<Rightarrow> nat \<Rightarrow> tool_request_id list \<Rightarrow> tool_request list
     \<Rightarrow> tool_batch_reconstitution_failure + tool_request_id list" where
  "check_requests i index ids [] = Ok ids"
| "check_requests i index ids (request # requests) =
     (if tr_session request \<noteq> bi_session i \<or> tr_turn request \<noteq> bi_turn i \<or>
         tr_producing_call request \<noteq> bi_producing_call i
      then Err RequestOwnershipMismatch
      else if tr_id request \<in> set ids \<or> Some (tr_ordinal request) \<noteq> ordinal_try_from_usize index
      then Err RequestOrderMismatch
      else check_requests i (index + 1) (bs_insert (tr_id request) ids) requests)"

fun collect_approvals ::
  "tool_request list \<Rightarrow> tool_request_id list \<Rightarrow> (tool_request_id \<times> tool_approval_resolution) list
     \<Rightarrow> tool_approval_resolution list
     \<Rightarrow> tool_batch_reconstitution_failure + (tool_request_id \<times> tool_approval_resolution) list" where
  "collect_approvals requests ids acc [] = Ok acc"
| "collect_approvals requests ids acc (approval # approvals) =
     (if list_ex (\<lambda>request. tr_id request = ar_request approval \<and>
           tr_inadmissible_reason request \<noteq> None) requests \<or>
         ar_request approval \<notin> set ids \<or> bt_contains acc (ar_request approval)
      then Err ApprovalInventoryMismatch
      else collect_approvals requests ids (bt_insert (ar_request approval) approval acc) approvals)"

definition delegate_without_posture ::
  "tool_request list \<Rightarrow> (tool_request_id \<times> tool_approval_resolution) list \<Rightarrow> bool" where
  "delegate_without_posture requests approvals \<longleftrightarrow>
     list_ex (\<lambda>request. case bt_get approvals (tr_id request) of
         None \<Rightarrow> False
       | Some approval \<Rightarrow> ar_source approval = Source_Delegate \<and>
           tr_approval_posture request \<noteq> Posture_Delegated) requests"

definition is_undecided ::
  "(tool_request_id \<times> tool_approval_resolution) list \<Rightarrow> tool_request \<Rightarrow> bool" where
  "is_undecided approvals request \<longleftrightarrow>
     tr_inadmissible_reason request = None \<and> \<not> bt_contains approvals (tr_id request)"

text \<open>An ordered decision after the first undecided request.\<close>

definition decision_out_of_order ::
  "tool_request list \<Rightarrow> (tool_request_id \<times> tool_approval_resolution) list \<Rightarrow> bool" where
  "decision_out_of_order requests approvals \<longleftrightarrow>
     (case dropWhile (\<lambda>request. \<not> is_undecided approvals request) requests of
        [] \<Rightarrow> False
      | _ # later \<Rightarrow>
          list_ex (\<lambda>request. case bt_get approvals (tr_id request) of
              None \<Rightarrow> False
            | Some approval \<Rightarrow> requires_ordered_prefix (ar_source approval)) later)"

fun attempt_facts ::
  "reconstituted_tool_attempt
     \<Rightarrow> tool_attempt_id \<times> tool_request_id \<times> session_id \<times> turn_id \<times> turn_attempt_id \<times> bool" where
  "attempt_facts (Current a) =
     (ca_attempt a, ca_request a, ca_session a, ca_turn a, ca_issuing_attempt a, True)"
| "attempt_facts (Ended e) =
     (ea_attempt e, ea_request e, ea_session e, ea_turn e, ea_issuing_attempt e, False)"

definition attempt_request :: "reconstituted_tool_attempt \<Rightarrow> tool_request_id" where
  "attempt_request a = fst (snd (attempt_facts a))"

definition attempt_issuing :: "reconstituted_tool_attempt \<Rightarrow> turn_attempt_id" where
  "attempt_issuing a = fst (snd (snd (snd (snd (attempt_facts a)))))"

fun is_child_wait :: "reconstituted_tool_attempt \<Rightarrow> bool" where
  "is_child_wait (Ended e) = (case ea_end e of End_AwaitingChild _ _ \<Rightarrow> True | _ \<Rightarrow> False)"
| "is_child_wait (Current _) = False"

definition expected_issuing_attempt :: "tool_batch_input \<Rightarrow> turn_attempt_id option" where
  "expected_issuing_attempt i =
     (case bi_phase i of
        Phase_Executing turn_attempt \<Rightarrow>
          if \<not> list_ex is_child_wait (bi_attempts i) \<and> bi_runner_recovery_predecessors i = []
          then Some turn_attempt else None
      | Phase_AwaitingChild _ _ _ \<Rightarrow> None
      | Phase_AwaitingRecovery attempt \<Rightarrow>
          map_option attempt_issuing
            (find (\<lambda>candidate. attempt_id candidate = attempt) (bi_attempts i))
      | Phase_AwaitingApproval _ \<Rightarrow> None)"

fun ambiguous_without_effect :: "reconstituted_tool_attempt \<Rightarrow> bool" where
  "ambiguous_without_effect (Ended e) = (ea_end e = End_Ambiguous \<and> ea_effect_class e \<noteq> ExternalEffect)"
| "ambiguous_without_effect (Current _) = False"

definition approved_in ::
  "(tool_request_id \<times> tool_approval_resolution) list \<Rightarrow> tool_request_id \<Rightarrow> bool" where
  "approved_in approvals request \<longleftrightarrow>
     (case bt_get approvals request of None \<Rightarrow> False | Some approval \<Rightarrow> is_approved approval)"

fun collect_attempts ::
  "tool_batch_input \<Rightarrow> tool_request_id list \<Rightarrow> (tool_request_id \<times> tool_approval_resolution) list
     \<Rightarrow> (tool_request_id \<times> reconstituted_tool_attempt) list \<times> tool_attempt_id list \<times> nat
     \<Rightarrow> reconstituted_tool_attempt list
     \<Rightarrow> tool_batch_reconstitution_failure +
         (tool_request_id \<times> reconstituted_tool_attempt) list \<times> tool_attempt_id list \<times> nat" where
  "collect_attempts i request_ids approvals acc [] = Ok acc"
| "collect_attempts i request_ids approvals (attempts, attempt_ids, live_count) (attempt # rest) =
     (let (attempt_id, request, session, turn, issuing_attempt, is_live) = attempt_facts attempt in
      if ambiguous_without_effect attempt then Err AttemptAuthorizationMismatch
      else if attempt_id \<in> set attempt_ids \<or> request \<notin> set request_ids \<or>
              bt_contains attempts request
      then Err AttemptInventoryMismatch
      else if session \<noteq> bi_session i \<or> turn \<noteq> bi_turn i \<or> \<not> approved_in approvals request
      then Err AttemptAuthorizationMismatch
      else if (case expected_issuing_attempt i of
                 None \<Rightarrow> False | Some expected \<Rightarrow> issuing_attempt \<noteq> expected) \<and>
              (is_live \<or> issuing_attempt \<notin> set (bi_runner_recovery_predecessors i))
      then Err AttemptAuthorizationMismatch
      else collect_attempts i request_ids approvals
             (bt_insert request attempt attempts, bs_insert attempt_id attempt_ids,
              if is_live then live_count + 1 else live_count) rest)"

fun collect_retired ::
  "tool_attempt_id list \<Rightarrow> tool_attempt_id list \<Rightarrow> tool_attempt_id list
     \<Rightarrow> tool_batch_reconstitution_failure + tool_attempt_id list" where
  "collect_retired attempt_ids acc [] = Ok acc"
| "collect_retired attempt_ids acc (retired # rest) =
     (if retired \<in> set attempt_ids \<or> retired \<in> set acc then Err AttemptInventoryMismatch
      else collect_retired attempt_ids (bs_insert retired acc) rest)"

fun collect_authorized ::
  "tool_attempt_id list \<Rightarrow> tool_attempt_id list \<Rightarrow> tool_attempt_id list \<Rightarrow> tool_attempt_id list
     \<Rightarrow> tool_batch_reconstitution_failure + tool_attempt_id list" where
  "collect_authorized attempt_ids retired_attempts acc [] = Ok acc"
| "collect_authorized attempt_ids retired_attempts acc (authorized # rest) =
     (if \<not> (authorized \<in> set attempt_ids \<or> authorized \<in> set retired_attempts) \<or>
         authorized \<in> set acc
      then Err AttemptInventoryMismatch
      else collect_authorized attempt_ids retired_attempts (bs_insert authorized acc) rest)"

text \<open>An ended attempt after which no further attempt may exist.\<close>

fun is_terminal_blocker :: "tool_batch_phase_input \<Rightarrow> tool_request_id \<Rightarrow> reconstituted_tool_attempt \<Rightarrow> bool"
where
  "is_terminal_blocker phase request (Current _) = False"
| "is_terminal_blocker phase request (Ended e) =
     (ea_end e = End_Ambiguous \<or>
      is_child_wait (Ended e) \<and>
        (case phase of Phase_AwaitingChild waiting _ _ \<Rightarrow> waiting = request | _ \<Rightarrow> False) \<or>
      is_crash_lost (Ended e))"

fun check_attempt_order ::
  "tool_batch_phase_input \<Rightarrow> (tool_request_id \<times> tool_approval_resolution) list
     \<Rightarrow> (tool_request_id \<times> reconstituted_tool_attempt) list \<Rightarrow> bool \<times> bool \<times> bool
     \<Rightarrow> tool_request list \<Rightarrow> tool_batch_reconstitution_failure option" where
  "check_attempt_order phase approvals attempts flags [] = None"
| "check_attempt_order phase approvals attempts (missing, blocked, live) (request # requests) =
     (if approved_in approvals (tr_id request)
      then (case bt_get attempts (tr_id request) of
              Some attempt \<Rightarrow>
                if missing \<or> blocked \<or> live then Some AttemptOrderMismatch
                else check_attempt_order phase approvals attempts
                       (missing, is_terminal_blocker phase (tr_id request) attempt,
                        is_current attempt) requests
            | None \<Rightarrow> check_attempt_order phase approvals attempts (True, blocked, live) requests)
      else if bt_contains attempts (tr_id request) then Some AttemptAuthorizationMismatch
      else check_attempt_order phase approvals attempts (missing, blocked, live) requests)"

definition ambiguous_attempts ::
  "(tool_request_id \<times> reconstituted_tool_attempt) list \<Rightarrow> tool_attempt_id list" where
  "ambiguous_attempts attempts =
     List.map_filter (\<lambda>attempt. case attempt of
         Ended e \<Rightarrow> if ea_end e = End_Ambiguous \<and> ea_effect_class e = ExternalEffect
                    then Some (ea_attempt e) else None
       | Current _ \<Rightarrow> None) (map snd attempts)"

fun child_wait_of ::
  "reconstituted_tool_attempt \<Rightarrow> (tool_request_id \<times> tool_request_id \<times> session_id) option" where
  "child_wait_of (Ended e) =
     (case ea_end e of
        End_AwaitingChild spawning child \<Rightarrow> Some (ea_request e, spawning, child)
      | _ \<Rightarrow> None)"
| "child_wait_of (Current _) = None"

definition child_waits ::
  "tool_request list \<Rightarrow> (tool_request_id \<times> reconstituted_tool_attempt) list
     \<Rightarrow> (tool_request_id \<times> tool_request_id \<times> session_id) list" where
  "child_waits requests attempts =
     List.map_filter child_wait_of
       (List.map_filter (\<lambda>request. bt_get attempts (tr_id request)) requests)"

definition last_of :: "'a list \<Rightarrow> 'a option" where
  "last_of xs = (if xs = [] then None else Some (last xs))"

definition position_of :: "tool_request list \<Rightarrow> tool_request_id \<Rightarrow> nat option" where
  "position_of requests request =
     find (\<lambda>k. tr_id (requests ! k) = request) [0..<length requests]"

text \<open>
  The loop of the executing phase: attempts retained from a runner takeover form a prefix, later
  ones belong to the current turn attempt.
\<close>

fun check_execution ::
  "tool_request list \<Rightarrow> turn_attempt_id list \<Rightarrow> turn_attempt_id \<Rightarrow> nat option
     \<Rightarrow> (tool_request_id \<times> reconstituted_tool_attempt) list \<Rightarrow> bool \<times> turn_attempt_id list
     \<Rightarrow> tool_request list \<Rightarrow> turn_attempt_id list option" where
  "check_execution all_requests predecessors turn_attempt wait_position attempts (successor_seen, seen) [] =
     Some seen"
| "check_execution all_requests predecessors turn_attempt wait_position attempts (successor_seen, seen)
     (request # requests) =
     (case bt_get attempts (tr_id request) of
        None \<Rightarrow> check_execution all_requests predecessors turn_attempt wait_position attempts
                  (successor_seen, seen) requests
      | Some attempt \<Rightarrow>
          (let issuing = attempt_issuing attempt; live = is_current attempt;
               request_position = position_of all_requests (tr_id request);
               retained = issuing \<in> set predecessors \<and> issuing \<noteq> turn_attempt \<and>
                 \<not> successor_seen \<and> \<not> live;
               seen' = (if retained then bs_insert issuing seen else seen);
               successor_seen' = (successor_seen \<or> issuing = turn_attempt)
           in if \<not> retained \<and>
                 (live \<and> issuing \<noteq> turn_attempt \<or>
                  wait_position = None \<and> issuing \<noteq> turn_attempt \<or>
                  (case (wait_position, request_position) of
                     (Some wait, Some position) \<Rightarrow> position > wait \<and> issuing \<noteq> turn_attempt
                   | _ \<Rightarrow> False))
              then None
              else check_execution all_requests predecessors turn_attempt wait_position attempts
                     (successor_seen', seen') requests))"

definition check_phase ::
  "tool_batch_input \<Rightarrow> tool_request list \<Rightarrow> (tool_request_id \<times> tool_approval_resolution) list
     \<Rightarrow> (tool_request_id \<times> reconstituted_tool_attempt) list \<Rightarrow> nat
     \<Rightarrow> tool_batch_reconstitution_failure + tool_batch_phase" where
  "check_phase i requests approvals attempts live_count =
     (let undecided = earliest_undecided requests approvals;
          ambiguous = ambiguous_attempts attempts;
          waits = child_waits requests attempts
      in case bi_phase i of
        Phase_AwaitingApproval request \<Rightarrow>
          if undecided = Some request \<and> attempts = [] then Ok (Phase_AwaitingApproval request)
          else Err ApprovalPhaseMismatch
      | Phase_Executing turn_attempt \<Rightarrow>
          if undecided = None \<and> ambiguous = []
          then (let wait_position = (case last_of waits of
                      None \<Rightarrow> None | Some (request, _, _) \<Rightarrow> position_of requests request)
                in case check_execution requests (bi_runner_recovery_predecessors i) turn_attempt
                          wait_position attempts (False, []) requests of
                     None \<Rightarrow> Err ExecutionPhaseMismatch
                   | Some seen \<Rightarrow>
                       if length seen \<noteq> length (bi_runner_recovery_predecessors i)
                       then Err ExecutionPhaseMismatch
                       else Ok (Phase_Executing turn_attempt))
          else Err ExecutionPhaseMismatch
      | Phase_AwaitingRecovery attempt \<Rightarrow>
          if undecided = None \<and> live_count = 0 \<and> ambiguous = [attempt]
          then Ok (Phase_AwaitingRecovery attempt)
          else Err RecoveryPhaseMismatch
      | Phase_AwaitingChild request spawning child \<Rightarrow>
          if undecided = None \<and> live_count = 0 \<and> ambiguous = [] \<and>
             last_of waits = Some (request, spawning, child)
          then Ok (Phase_AwaitingChild request spawning child)
          else Err ChildWaitPhaseMismatch)"

text \<open>One fresh cell per known attempt, issued when durably authorised.\<close>

fun allocate_issuance ::
  "tool_attempt_id list \<Rightarrow> tool_attempt_id list \<Rightarrow> (tool_attempt_id \<times> issuance_cell) list
     \<Rightarrow> issuance_store \<Rightarrow> (tool_attempt_id \<times> issuance_cell) list \<times> issuance_store" where
  "allocate_issuance authorized [] acc st = (acc, st)"
| "allocate_issuance authorized (attempt # rest) acc st =
     (let (cell, st') = new_cell (if attempt \<in> set authorized then runner_issuance_issued
                                  else runner_issuance_available) st
      in allocate_issuance authorized rest (bt_insert attempt cell acc) st')"

definition reconstitute_batch ::
  "tool_batch_input \<Rightarrow> issuance_store
     \<Rightarrow> (tool_batch_reconstitution_error + tool_batch) \<times> issuance_store" where
  "reconstitute_batch i st =
     (let fail = (\<lambda>failure. (Err (i, failure), st)) in
      if bi_requests i = [] then fail EmptyRequestBatch
      else if owning_session (rs_frontier (bi_yielded_snapshot i)) \<noteq> bi_session i
      then fail YieldedSnapshotSessionMismatch
      else let requests = sort_key tr_ordinal (bi_requests i) in
      case check_requests i 0 [] requests of
        Err f \<Rightarrow> fail f
      | Ok request_ids \<Rightarrow>
      (case collect_approvals requests request_ids [] (bi_approvals i) of
        Err f \<Rightarrow> fail f
      | Ok approvals \<Rightarrow>
      if delegate_without_posture requests approvals \<or> decision_out_of_order requests approvals
      then fail ApprovalInventoryMismatch
      else (case collect_attempts i request_ids approvals ([], [], 0) (bi_attempts i) of
        Err f \<Rightarrow> fail f
      | Ok (attempts, attempt_ids, live_count) \<Rightarrow>
      (case collect_retired attempt_ids [] (bi_retired_attempts i) of
        Err f \<Rightarrow> fail f
      | Ok retired \<Rightarrow>
      (case collect_authorized attempt_ids retired [] (bi_runner_authorized_attempts i) of
        Err f \<Rightarrow> fail f
      | Ok authorized \<Rightarrow>
      if live_count > 1 then fail MultipleLiveAttempts
      else (case check_attempt_order (bi_phase i) approvals attempts (False, False, False) requests of
        Some f \<Rightarrow> fail f
      | None \<Rightarrow>
      (case check_phase i requests approvals attempts live_count of
        Err f \<Rightarrow> fail f
      | Ok phase \<Rightarrow>
          (let (issuance, st') = allocate_issuance authorized (attempt_ids @ retired) [] st in
           (Ok \<lparr>tb_session = bi_session i, tb_turn = bi_turn i,
                tb_producing_call = bi_producing_call i,
                tb_yielded_snapshot = bi_yielded_snapshot i, tb_requests = requests,
                tb_approvals = approvals, tb_attempts = attempts, tb_retired_attempts = retired,
                tb_runner_issuance = issuance, tb_phase = phase\<rparr>, st')))))))))"

section \<open>What the loops accept\<close>

definition request_owned :: "tool_batch_input \<Rightarrow> tool_request \<Rightarrow> bool" where
  "request_owned i request \<longleftrightarrow>
     tr_session request = bi_session i \<and> tr_turn request = bi_turn i \<and>
     tr_producing_call request = bi_producing_call i"

lemma check_requests_Ok_iff:
  "check_requests i n ids requests = Ok ids' \<longleftrightarrow>
     (\<forall>r \<in> set requests. request_owned i r) \<and> distinct (map tr_id requests) \<and>
     tr_id ` set requests \<inter> set ids = {} \<and>
     (\<forall>k < length requests. Some (tr_ordinal (requests ! k)) = ordinal_try_from_usize (n + k)) \<and>
     ids' = fold bs_insert (map tr_id requests) ids"
proof (induction requests arbitrary: n ids)
  case (Cons r rs)
  have "(\<forall>k < length (r # rs). Some (tr_ordinal ((r # rs) ! k)) = ordinal_try_from_usize (n + k)) \<longleftrightarrow>
      Some (tr_ordinal r) = ordinal_try_from_usize n \<and>
      (\<forall>k < length rs. Some (tr_ordinal (rs ! k)) = ordinal_try_from_usize (Suc n + k))"
    by (simp add: All_less_Suc2)
  then show ?case
    by (simp add: Cons.IH request_owned_def) (auto simp: request_owned_def)
qed auto

definition admissible_target :: "tool_request list \<Rightarrow> tool_request_id \<Rightarrow> bool" where
  "admissible_target requests request \<longleftrightarrow>
     \<not> list_ex (\<lambda>r. tr_id r = request \<and> tr_inadmissible_reason r \<noteq> None) requests"

lemma collect_approvals_Ok_iff:
  "collect_approvals requests ids acc approvals = Ok acc' \<longleftrightarrow>
     distinct (map ar_request approvals) \<and>
     (\<forall>a \<in> set approvals. admissible_target requests (ar_request a) \<and> ar_request a \<in> set ids \<and>
        \<not> bt_contains acc (ar_request a)) \<and>
     acc' = fold (\<lambda>(k, v). bt_insert k v) (map (\<lambda>a. (ar_request a, a)) approvals) acc"
proof (induction approvals arbitrary: acc)
  case (Cons a as)
  have "bt_contains (bt_insert (ar_request a) a acc) k \<longleftrightarrow> k = ar_request a \<or> bt_contains acc k" for k
    by (auto simp: bt_contains_iff bt_get_insert)
  then show ?case by (simp add: Cons.IH admissible_target_def) (auto simp: image_iff)
qed auto

definition issuing_admitted :: "tool_batch_input \<Rightarrow> reconstituted_tool_attempt \<Rightarrow> bool" where
  "issuing_admitted i attempt \<longleftrightarrow>
     (case expected_issuing_attempt i of
        None \<Rightarrow> True
      | Some expected \<Rightarrow> attempt_issuing attempt = expected \<or>
          \<not> is_current attempt \<and> attempt_issuing attempt \<in> set (bi_runner_recovery_predecessors i))"

fun attempt_owner :: "reconstituted_tool_attempt \<Rightarrow> session_id \<times> turn_id" where
  "attempt_owner (Current a) = (ca_session a, ca_turn a)"
| "attempt_owner (Ended e) = (ea_session e, ea_turn e)"

definition attempt_admitted ::
  "tool_batch_input \<Rightarrow> (tool_request_id \<times> tool_approval_resolution) list
     \<Rightarrow> reconstituted_tool_attempt \<Rightarrow> bool" where
  "attempt_admitted i approvals attempt \<longleftrightarrow>
     \<not> ambiguous_without_effect attempt \<and> attempt_owner attempt = (bi_session i, bi_turn i) \<and>
     approved_in approvals (attempt_request attempt) \<and> issuing_admitted i attempt"

lemma attempt_facts_eq:
  "attempt_facts a = (attempt_id a, attempt_request a, fst (attempt_owner a), snd (attempt_owner a),
     attempt_issuing a, is_current a)"
  by (cases a) (simp_all add: attempt_request_def attempt_issuing_def)

lemma collect_attempts_Ok_iff:
  "collect_attempts i request_ids approvals (m, ids, n) attempts = Ok r \<longleftrightarrow>
     distinct (map attempt_id attempts) \<and> attempt_id ` set attempts \<inter> set ids = {} \<and>
     distinct (map attempt_request attempts) \<and>
     (\<forall>a \<in> set attempts. attempt_request a \<in> set request_ids \<and> \<not> bt_contains m (attempt_request a) \<and>
        attempt_admitted i approvals a) \<and>
     r = (fold (\<lambda>(k, v). bt_insert k v) (map (\<lambda>a. (attempt_request a, a)) attempts) m,
          fold bs_insert (map attempt_id attempts) ids, n + length (filter is_current attempts))"
proof (induction attempts arbitrary: m ids n)
  case (Cons a as)
  have issuing: "issuing_admitted i a \<longleftrightarrow> \<not> ((case expected_issuing_attempt i of
        None \<Rightarrow> False | Some expected \<Rightarrow> attempt_issuing a \<noteq> expected) \<and>
      (is_current a \<or> attempt_issuing a \<notin> set (bi_runner_recovery_predecessors i)))"
    by (auto simp: issuing_admitted_def split: option.splits)
  have "bt_contains (bt_insert (attempt_request a) a m) k \<longleftrightarrow> k = attempt_request a \<or> bt_contains m k"
    for k
    by (auto simp: bt_contains_iff bt_get_insert)
  then show ?case
    by (simp add: attempt_facts_eq Let_def Cons.IH attempt_admitted_def issuing prod_eq_iff)
      (auto simp: image_iff)
qed auto

lemma collect_retired_Ok_iff:
  "collect_retired attempt_ids acc retired = Ok acc' \<longleftrightarrow>
     distinct retired \<and> set retired \<inter> set attempt_ids = {} \<and> set retired \<inter> set acc = {} \<and>
     acc' = fold bs_insert retired acc"
  by (induction retired arbitrary: acc) auto

lemma collect_authorized_Ok_iff:
  "collect_authorized attempt_ids retired acc authorized = Ok acc' \<longleftrightarrow>
     distinct authorized \<and> set authorized \<subseteq> set attempt_ids \<union> set retired \<and>
     set authorized \<inter> set acc = {} \<and> acc' = fold bs_insert authorized acc"
  by (induction authorized arbitrary: acc) auto

text \<open>
  Serial execution of a list of optional attempts: attempts come before the requests without
  one, and after an attempt that stops execution there is none.
\<close>

fun serial :: "bool \<Rightarrow> bool option list \<Rightarrow> bool" where
  "serial closed [] = True"
| "serial closed (None # rest) = serial True rest"
| "serial closed (Some stops # rest) = (\<not> closed \<and> serial stops rest)"

definition stops_execution ::
  "tool_batch_phase_input \<Rightarrow> tool_request_id \<Rightarrow> reconstituted_tool_attempt \<Rightarrow> bool" where
  "stops_execution phase request attempt \<longleftrightarrow>
     is_terminal_blocker phase request attempt \<or> is_current attempt"

definition approved_stops ::
  "tool_batch_phase_input \<Rightarrow> (tool_request_id \<times> tool_approval_resolution) list
     \<Rightarrow> (tool_request_id \<times> reconstituted_tool_attempt) list \<Rightarrow> tool_request list \<Rightarrow> bool option list"
where
  "approved_stops phase approvals attempts requests =
     map (\<lambda>r. map_option (stops_execution phase (tr_id r)) (bt_get attempts (tr_id r)))
       (filter (\<lambda>r. approved_in approvals (tr_id r)) requests)"

lemma check_attempt_order_None_iff:
  "check_attempt_order phase approvals attempts (missing, blocked, live) requests = None \<longleftrightarrow>
     (\<forall>r \<in> set requests. bt_contains attempts (tr_id r) \<longrightarrow> approved_in approvals (tr_id r)) \<and>
     serial (missing \<or> blocked \<or> live) (approved_stops phase approvals attempts requests)"
proof (induction requests arbitrary: missing blocked live)
  case (Cons r rs)
  have contains: "bt_contains attempts (tr_id r) \<longleftrightarrow> bt_get attempts (tr_id r) \<noteq> None"
    by (auto simp: bt_contains_iff)
  show ?case
    by (auto simp: Cons.IH approved_stops_def stops_execution_def contains split: option.splits)
qed (simp add: approved_stops_def)

lemma serial_iff:
  "serial closed os \<longleftrightarrow>
     (closed \<longrightarrow> (\<forall>x \<in> set os. x = None)) \<and> sorted_wrt (\<lambda>x y. y \<noteq> None \<longrightarrow> x = Some False) os"
proof (induction closed os rule: serial.induct)
  case (3 closed stops rest)
  then show ?case by (cases stops; cases closed) auto
qed auto

section \<open>Well-formed batches\<close>

text \<open>The facts storage keeps of a batch, given the yielded issuing attempts it retains.\<close>

definition batch_input :: "turn_attempt_id list \<Rightarrow> tool_batch \<Rightarrow> tool_batch_input" where
  "batch_input preds b =
     \<lparr>bi_session = tb_session b, bi_turn = tb_turn b, bi_producing_call = tb_producing_call b,
      bi_yielded_snapshot = tb_yielded_snapshot b, bi_requests = tb_requests b,
      bi_approvals = map snd (tb_approvals b), bi_attempts = map snd (tb_attempts b),
      bi_retired_attempts = tb_retired_attempts b, bi_runner_authorized_attempts = [],
      bi_runner_recovery_predecessors = preds, bi_phase = tb_phase b\<rparr>"

definition stored_batch :: "issuance_store \<Rightarrow> turn_attempt_id list \<Rightarrow> tool_batch \<Rightarrow> tool_batch_input" where
  "stored_batch st preds b =
     with_runner_authorized_attempts (runner_authorized_attempts st b) (batch_input preds b)"

definition batch_attempt_ids :: "tool_batch \<Rightarrow> tool_attempt_id list" where
  "batch_attempt_ids b = map (\<lambda>(_, a). attempt_id a) (tb_attempts b)"

definition requests_ok :: "tool_batch \<Rightarrow> bool" where
  "requests_ok b \<longleftrightarrow>
     tb_requests b \<noteq> [] \<and> owning_session (rs_frontier (tb_yielded_snapshot b)) = tb_session b \<and>
     (\<forall>r \<in> set (tb_requests b). tr_session r = tb_session b \<and> tr_turn r = tb_turn b \<and>
        tr_producing_call r = tb_producing_call b) \<and>
     distinct (map tr_id (tb_requests b)) \<and>
     (\<forall>k < length (tb_requests b). Some (tr_ordinal (tb_requests b ! k)) = ordinal_try_from_usize k)"

definition approvals_ok :: "tool_batch \<Rightarrow> bool" where
  "approvals_ok b \<longleftrightarrow>
     bt_ok (tb_approvals b) \<and>
     (\<forall>(k, a) \<in> set (tb_approvals b). ar_request a = k \<and> k \<in> tr_id ` set (tb_requests b) \<and>
        admissible_target (tb_requests b) k) \<and>
     \<not> delegate_without_posture (tb_requests b) (tb_approvals b) \<and>
     \<not> decision_out_of_order (tb_requests b) (tb_approvals b)"

definition attempts_ok :: "turn_attempt_id list \<Rightarrow> tool_batch \<Rightarrow> bool" where
  "attempts_ok preds b \<longleftrightarrow>
     bt_ok (tb_attempts b) \<and> distinct (batch_attempt_ids b) \<and>
     (\<forall>(k, a) \<in> set (tb_attempts b). attempt_request a = k \<and>
        attempt_admitted (batch_input preds b) (tb_approvals b) a) \<and>
     bs_ok (tb_retired_attempts b) \<and>
     set (tb_retired_attempts b) \<inter> set (batch_attempt_ids b) = {} \<and>
     length (filter is_current (map snd (tb_attempts b))) \<le> 1"

definition issuance_ok :: "issuance_store \<Rightarrow> tool_batch \<Rightarrow> bool" where
  "issuance_ok st b \<longleftrightarrow>
     bt_ok (tb_runner_issuance b) \<and> distinct (map snd (tb_runner_issuance b)) \<and>
     (\<forall>cell \<in> snd ` set (tb_runner_issuance b). cell < length st) \<and>
     fst ` set (tb_runner_issuance b) = set (batch_attempt_ids b) \<union> set (tb_retired_attempts b)"

definition progress_ok :: "turn_attempt_id list \<Rightarrow> tool_batch \<Rightarrow> bool" where
  "progress_ok preds b \<longleftrightarrow>
     check_attempt_order (tb_phase b) (tb_approvals b) (tb_attempts b) (False, False, False)
       (tb_requests b) = None \<and>
     check_phase (batch_input preds b) (tb_requests b) (tb_approvals b) (tb_attempts b)
       (length (filter is_current (map snd (tb_attempts b)))) = Ok (tb_phase b)"

definition batch_ok :: "issuance_store \<Rightarrow> turn_attempt_id list \<Rightarrow> tool_batch \<Rightarrow> bool" where
  "batch_ok st preds b \<longleftrightarrow>
     requests_ok b \<and> approvals_ok b \<and> attempts_ok preds b \<and> issuance_ok st b \<and> progress_ok preds b"

section \<open>Collected maps\<close>

lemma keyed_collect:
  assumes "distinct (map f xs)"
  shows "set (bt_collect (map (\<lambda>x. (f x, x)) xs)) = (\<lambda>x. (f x, x)) ` set xs"
proof -
  have "distinct (map fst (map (\<lambda>x. (f x, x)) xs))" using assms by (simp add: comp_def)
  then show ?thesis by (simp add: set_bt_collect)
qed

lemma filter_keyed_collect:
  assumes "distinct (map f xs)"
  shows "length (filter P (map snd (bt_collect (map (\<lambda>x. (f x, x)) xs)))) = length (filter P xs)"
proof -
  define m where "m = bt_collect (map (\<lambda>x. (f x, x)) xs)"
  have m: "set m = (\<lambda>x. (f x, x)) ` set xs" unfolding m_def by (rule keyed_collect [OF assms])
  have "distinct (map fst m)" unfolding m_def by (rule bt_ok_distinct [OF bt_ok_collect])
  then have d: "distinct m" by (simp add: distinct_map)
  have "inj_on snd (set m)" using m assms by (auto simp: inj_on_def distinct_map)
  then have "distinct (map snd m)" using d by (simp add: distinct_map)
  moreover have "set (map snd m) = set xs" using m by force
  moreover have "distinct xs" using assms by (simp add: distinct_map)
  ultimately show ?thesis unfolding m_def [symmetric]
    by (simp only: distinct_length_filter)
qed

section \<open>Issuance cells\<close>

lemma allocate_issuance_eq:
  assumes "allocate_issuance authorized attempts acc st = (m, st')"
  shows "m = fold (\<lambda>(k, v). bt_insert k v)
           (zip attempts [length st..<length st + length attempts]) acc \<and>
         st' = st @ map (\<lambda>a. if a \<in> set authorized then runner_issuance_issued
                             else runner_issuance_available) attempts"
  using assms
proof (induction attempts arbitrary: acc st)
  case (Cons a as)
  let ?v = "if a \<in> set authorized then runner_issuance_issued else runner_issuance_available"
  have "allocate_issuance authorized as (bt_insert a (length st) acc) (st @ [?v]) = (m, st')"
    using Cons.prems by (simp add: new_cell_def)
  from Cons.IH [OF this] show ?case by (simp add: upt_conv_Cons del: upt_Suc)
qed simp

lemma allocate_issuance_cells:
  assumes alloc: "allocate_issuance authorized attempts [] st = (m, st')" and d: "distinct attempts"
  shows "bt_ok m" and "fst ` set m = set attempts" and "distinct (map snd m)"
    and "\<forall>cell \<in> snd ` set m. cell < length st'"
    and "\<forall>(a, cell) \<in> set m. load_cell st' cell \<noteq> runner_issuance_available \<longleftrightarrow> a \<in> set authorized"
    and "\<exists>tail. st' = st @ tail"
proof -
  let ?z = "zip attempts [length st..<length st + length attempts]"
  have m: "m = bt_collect ?z" and st': "st' = st @ map (\<lambda>a. if a \<in> set authorized
      then runner_issuance_issued else runner_issuance_available) attempts"
    using allocate_issuance_eq [OF alloc] by (simp_all add: bt_collect_def)
  have set_m: "set m = set ?z" unfolding m by (rule set_bt_collect) (simp add: d)
  show "bt_ok m" unfolding m by (rule bt_ok_collect)
  show "fst ` set m = set attempts" by (simp add: set_m flip: set_map)
  have mem: "(a, cell) \<in> set m \<longleftrightarrow> (\<exists>k < length attempts. a = attempts ! k \<and> cell = length st + k)"
    for a cell
    unfolding set_m by (auto simp: set_zip)
  have inj: "inj_on snd (set m)"
    by (rule inj_onI) (auto simp: mem)
  have "distinct m" using bt_ok_distinct [OF \<open>bt_ok m\<close>] by (simp add: distinct_map)
  with inj show "distinct (map snd m)" by (simp add: distinct_map)
  show "\<forall>cell \<in> snd ` set m. cell < length st'" by (auto simp: mem st')
  show "\<forall>(a, cell) \<in> set m. load_cell st' cell \<noteq> runner_issuance_available \<longleftrightarrow> a \<in> set authorized"
    by (auto simp: mem st' load_cell_def nth_append runner_issuance_issued_def
        runner_issuance_available_def)
  show "\<exists>tail. st' = st @ tail" using st' by blast
qed

lemma runner_authorized_sorted: "bt_ok (tb_runner_issuance b) \<Longrightarrow> bs_ok (runner_authorized_attempts st b)"
  unfolding runner_authorized_attempts_def bt_ok_def sorted_wrt_map by (rule sorted_wrt_filter)

lemma set_runner_authorized:
  "set (runner_authorized_attempts st b) =
     {a. \<exists>cell. (a, cell) \<in> set (tb_runner_issuance b) \<and> load_cell st cell \<noteq> runner_issuance_available}"
  by (auto simp: runner_authorized_attempts_def intro: rev_image_eqI)

lemma load_cell_append: "cell < length st \<Longrightarrow> load_cell (st @ tail) cell = load_cell st cell"
  by (simp add: load_cell_def nth_append)

lemma runner_authorized_append:
  "issuance_ok st b \<Longrightarrow> runner_authorized_attempts (st @ tail) b = runner_authorized_attempts st b"
  unfolding runner_authorized_attempts_def issuance_ok_def
  by (intro arg_cong [of _ _ "map fst"] filter_cong) (force simp: load_cell_append)+

section \<open>Acceptance\<close>

lemma reconstitute_batch_OkE:
  assumes "reconstitute_batch i st = (Ok b, st')"
  obtains ids attempt_ids live authorized where
    "bi_requests i \<noteq> []" "owning_session (rs_frontier (bi_yielded_snapshot i)) = bi_session i"
    "tb_session b = bi_session i" "tb_turn b = bi_turn i"
    "tb_producing_call b = bi_producing_call i" "tb_yielded_snapshot b = bi_yielded_snapshot i"
    "tb_requests b = sort_key tr_ordinal (bi_requests i)"
    "check_requests i 0 [] (tb_requests b) = Ok ids"
    "collect_approvals (tb_requests b) ids [] (bi_approvals i) = Ok (tb_approvals b)"
    "\<not> delegate_without_posture (tb_requests b) (tb_approvals b)"
    "\<not> decision_out_of_order (tb_requests b) (tb_approvals b)"
    "collect_attempts i ids (tb_approvals b) ([], [], 0) (bi_attempts i) =
       Ok (tb_attempts b, attempt_ids, live)"
    "collect_retired attempt_ids [] (bi_retired_attempts i) = Ok (tb_retired_attempts b)"
    "collect_authorized attempt_ids (tb_retired_attempts b) [] (bi_runner_authorized_attempts i) =
       Ok authorized"
    "live \<le> 1"
    "check_attempt_order (bi_phase i) (tb_approvals b) (tb_attempts b) (False, False, False)
       (tb_requests b) = None"
    "check_phase i (tb_requests b) (tb_approvals b) (tb_attempts b) live = Ok (tb_phase b)"
    "allocate_issuance authorized (attempt_ids @ tb_retired_attempts b) [] st =
       (tb_runner_issuance b, st')"
  using assms unfolding reconstitute_batch_def Let_def
  by (clarsimp split: if_splits sum.splits option.splits prod.splits)

lemma check_phase_Ok: "check_phase i requests approvals attempts live = Ok phase \<Longrightarrow> phase = bi_phase i"
  by (auto simp: check_phase_def Let_def split: tool_batch_phase.splits if_splits option.splits)

lemma check_phase_cong:
  "bi_phase i = bi_phase j \<Longrightarrow> bi_runner_recovery_predecessors i = bi_runner_recovery_predecessors j \<Longrightarrow>
   check_phase i = check_phase j"
  by (intro ext) (simp only: check_phase_def)

lemma find_unique:
  assumes "distinct (map f xs)" and "distinct (map f ys)" and "set xs = set ys"
  shows "find (\<lambda>x. f x = k) xs = find (\<lambda>x. f x = k) ys"
proof -
  have only: "find (\<lambda>x. f x = k) zs = Some x \<longleftrightarrow> x \<in> set zs \<and> f x = k" if "distinct (map f zs)" for zs x
    using that by (induction zs) auto
  have "find (\<lambda>x. f x = k) xs = Some x \<longleftrightarrow> find (\<lambda>x. f x = k) ys = Some x" for x
    by (simp add: only assms)
  then show ?thesis by (metis not_Some_eq)
qed

lemma expected_issuing_cong:
  assumes "bi_phase i = bi_phase j"
    and "bi_runner_recovery_predecessors i = bi_runner_recovery_predecessors j"
    and "set (bi_attempts i) = set (bi_attempts j)"
    and "distinct (map attempt_id (bi_attempts i))" and "distinct (map attempt_id (bi_attempts j))"
  shows "expected_issuing_attempt i = expected_issuing_attempt j"
proof -
  have "find (\<lambda>c. attempt_id c = k) (bi_attempts i) = find (\<lambda>c. attempt_id c = k) (bi_attempts j)" for k
    by (rule find_unique) (use assms in auto)
  moreover have "list_ex is_child_wait (bi_attempts i) = list_ex is_child_wait (bi_attempts j)"
    using assms(3) by (simp add: list_ex_iff)
  ultimately show ?thesis
    using assms(1,2) by (simp add: expected_issuing_attempt_def split: tool_batch_phase.split)
qed

lemma attempt_admitted_cong:
  assumes "expected_issuing_attempt i = expected_issuing_attempt j"
    and "bi_session i = bi_session j" and "bi_turn i = bi_turn j"
    and "bi_runner_recovery_predecessors i = bi_runner_recovery_predecessors j"
  shows "attempt_admitted i = attempt_admitted j"
  by (intro ext) (simp only: attempt_admitted_def issuing_admitted_def assms)

lemma reconstituted_batch_ok:
  assumes "reconstitute_batch i st = (Ok b, st')"
  shows "batch_ok st' (bi_runner_recovery_predecessors i) b"
proof -
  from assms obtain ids attempt_ids live authorized where
    nonempty: "bi_requests i \<noteq> []"
    and yielded: "owning_session (rs_frontier (bi_yielded_snapshot i)) = bi_session i"
    and fields: "tb_session b = bi_session i" "tb_turn b = bi_turn i"
      "tb_producing_call b = bi_producing_call i" "tb_yielded_snapshot b = bi_yielded_snapshot i"
    and sorted: "tb_requests b = sort_key tr_ordinal (bi_requests i)"
    and requests: "check_requests i 0 [] (tb_requests b) = Ok ids"
    and approvals: "collect_approvals (tb_requests b) ids [] (bi_approvals i) = Ok (tb_approvals b)"
    and posture: "\<not> delegate_without_posture (tb_requests b) (tb_approvals b)"
    and order: "\<not> decision_out_of_order (tb_requests b) (tb_approvals b)"
    and attempts: "collect_attempts i ids (tb_approvals b) ([], [], 0) (bi_attempts i) =
       Ok (tb_attempts b, attempt_ids, live)"
    and retired: "collect_retired attempt_ids [] (bi_retired_attempts i) = Ok (tb_retired_attempts b)"
    and live: "live \<le> 1"
    and serial: "check_attempt_order (bi_phase i) (tb_approvals b) (tb_attempts b)
       (False, False, False) (tb_requests b) = None"
    and phase: "check_phase i (tb_requests b) (tb_approvals b) (tb_attempts b) live = Ok (tb_phase b)"
    and alloc: "allocate_issuance authorized (attempt_ids @ tb_retired_attempts b) [] st =
       (tb_runner_issuance b, st')"
    by (rule reconstitute_batch_OkE)
  let ?preds = "bi_runner_recovery_predecessors i"
  have phase_eq: "tb_phase b = bi_phase i" by (rule check_phase_Ok [OF phase])
  have ids: "set ids = tr_id ` set (tb_requests b)"
    using requests unfolding check_requests_Ok_iff by (auto simp: set_fold_bs_insert)
  have "tb_requests b \<noteq> []" using nonempty unfolding sorted by (metis length_0_conv length_sort)
  then have req: "requests_ok b"
    using requests yielded unfolding check_requests_Ok_iff
    by (auto simp: requests_ok_def request_owned_def fields)
  have ap_distinct: "distinct (map ar_request (bi_approvals i))"
    and ap_each: "\<forall>a \<in> set (bi_approvals i). admissible_target (tb_requests b) (ar_request a) \<and>
        ar_request a \<in> set ids"
    and ap_eq: "tb_approvals b = bt_collect (map (\<lambda>a. (ar_request a, a)) (bi_approvals i))"
    using approvals unfolding collect_approvals_Ok_iff by (auto simp: bt_collect_def)
  have ap: "approvals_ok b"
    using ap_each posture order
    by (auto simp: approvals_ok_def ap_eq bt_ok_collect keyed_collect [OF ap_distinct] ids)
  have at_ids: "distinct (map attempt_id (bi_attempts i))"
    and at_keys: "distinct (map attempt_request (bi_attempts i))"
    and at_each: "\<forall>a \<in> set (bi_attempts i). attempt_admitted i (tb_approvals b) a"
    and at_eq: "tb_attempts b = bt_collect (map (\<lambda>a. (attempt_request a, a)) (bi_attempts i))"
    and ids_eq: "attempt_ids = bs_of_list (map attempt_id (bi_attempts i))"
    and live_eq: "live = length (filter is_current (bi_attempts i))"
    using attempts unfolding collect_attempts_Ok_iff by (auto simp: bt_collect_def bs_of_list_def)
  have at_set: "set (tb_attempts b) = (\<lambda>a. (attempt_request a, a)) ` set (bi_attempts i)"
    unfolding at_eq by (rule keyed_collect [OF at_keys])
  have at_ok: "bt_ok (tb_attempts b)" unfolding at_eq by (rule bt_ok_collect)
  have snd_set: "set (map snd (tb_attempts b)) = set (bi_attempts i)" using at_set by force
  have "distinct (tb_attempts b)" using bt_ok_distinct [OF at_ok] by (simp add: distinct_map)
  moreover have "inj_on (\<lambda>(_, a). attempt_id a) (set (tb_attempts b))"
    using at_ids by (auto simp: at_set inj_on_def distinct_map)
  ultimately have b_ids: "distinct (batch_attempt_ids b)"
    by (simp add: batch_attempt_ids_def distinct_map)
  have b_ids_set: "set (batch_attempt_ids b) = set attempt_ids"
    by (force simp: batch_attempt_ids_def at_set ids_eq)
  have expected: "expected_issuing_attempt (batch_input ?preds b) = expected_issuing_attempt i"
    by (rule expected_issuing_cong)
      (use snd_set at_ids b_ids phase_eq in
        \<open>simp_all add: batch_input_def batch_attempt_ids_def comp_def case_prod_unfold\<close>)
  have admitted: "attempt_admitted (batch_input ?preds b) = attempt_admitted i"
    by (rule attempt_admitted_cong) (simp_all add: expected, simp_all add: batch_input_def fields)
  have "tb_retired_attempts b = bs_of_list (bi_retired_attempts i)"
      "set (bi_retired_attempts i) \<inter> set attempt_ids = {}"
    using retired unfolding collect_retired_Ok_iff by (simp_all add: bs_of_list_def)
  then have ret: "bs_ok (tb_retired_attempts b)" "set (tb_retired_attempts b) \<inter> set attempt_ids = {}"
    by (simp_all add: bs_ok_of_list)
  have ids_ok: "bs_ok attempt_ids" unfolding ids_eq by (rule bs_ok_of_list)
  have live_b: "length (filter is_current (map snd (tb_attempts b))) = live"
    unfolding at_eq live_eq by (rule filter_keyed_collect [OF at_keys])
  have at: "attempts_ok ?preds b"
    using at_each ret live_b live
    by (auto simp: attempts_ok_def at_ok b_ids admitted at_set b_ids_set)
  have "distinct (attempt_ids @ tb_retired_attempts b)"
    using ret ids_ok by (auto simp: strict_sorted_iff)
  note cells = allocate_issuance_cells [OF alloc this]
  have iss: "issuance_ok st' b"
    using cells by (auto simp: issuance_ok_def b_ids_set)
  have "check_phase (batch_input ?preds b) = check_phase i"
    by (rule check_phase_cong) (simp_all add: batch_input_def phase_eq)
  then have prog: "progress_ok ?preds b"
    using serial phase by (simp only: progress_ok_def live_b phase_eq)
  show ?thesis using req ap at iss prog by (simp add: batch_ok_def)
qed

section \<open>Restoring a well-formed batch\<close>

lemma ordinals_sorted:
  assumes "\<forall>k < length xs. Some (tr_ordinal (xs ! k)) = ordinal_try_from_usize k"
  shows "sort_key tr_ordinal xs = xs"
proof -
  have "tr_ordinal (xs ! j) \<le> tr_ordinal (xs ! k)" if "j < k" "k < length xs" for j k
  proof -
    have at: "n < 2 ^ 32 \<and> tr_ordinal (xs ! n) = word_of_nat n" if "n < length xs" for n
      using assms that by (auto simp: ordinal_try_from_usize_def split: if_splits)
    have j: "j < 2 ^ 32" "tr_ordinal (xs ! j) = word_of_nat j"
      and k: "k < 2 ^ 32" "tr_ordinal (xs ! k) = word_of_nat k"
      using at [of j] at [of k] that by simp_all
    have "unat (word_of_nat n :: 32 word) = n" if "n < 2 ^ 32" for n
      using that by (simp only: unsigned_of_nat) (simp add: take_bit_nat_eq_self)
    then show ?thesis using j k that(1) by (simp add: word_le_nat_alt)
  qed
  then have "sorted (map tr_ordinal xs)" by (simp add: sorted_iff_nth_mono_less)
  then show ?thesis by (rule sort_key_id_if_sorted)
qed

lemma well_formed_restored:
  assumes ok: "batch_ok st preds b"
  shows "\<exists>b' tail. reconstitute_batch (stored_batch st preds b) st = (Ok b', st @ tail) \<and>
           batch_eq (st @ tail) b b'"
proof -
  define i where "i = stored_batch st preds b"
  have fields: "bi_session i = tb_session b" "bi_turn i = tb_turn b"
      "bi_producing_call i = tb_producing_call b" "bi_yielded_snapshot i = tb_yielded_snapshot b"
      "bi_requests i = tb_requests b" "bi_approvals i = map snd (tb_approvals b)"
      "bi_attempts i = map snd (tb_attempts b)" "bi_retired_attempts i = tb_retired_attempts b"
      "bi_runner_authorized_attempts i = runner_authorized_attempts st b"
      "bi_runner_recovery_predecessors i = preds" "bi_phase i = tb_phase b"
    by (simp_all add: i_def stored_batch_def with_runner_authorized_attempts_def batch_input_def)
  from ok have req: "requests_ok b" and ap: "approvals_ok b" and at: "attempts_ok preds b"
    and iss: "issuance_ok st b" and prog: "progress_ok preds b"
    by (simp_all add: batch_ok_def)
  define ids where "ids = bs_of_list (map tr_id (tb_requests b))"
  have sorted: "sort_key tr_ordinal (bi_requests i) = tb_requests b"
    unfolding fields by (rule ordinals_sorted) (use req in \<open>simp add: requests_ok_def\<close>)
  have requests: "check_requests i 0 [] (tb_requests b) = Ok ids"
    using req unfolding check_requests_Ok_iff ids_def bs_of_list_def
    by (simp add: requests_ok_def request_owned_def fields)
  have ap_ok: "bt_ok (tb_approvals b)" and ap_key: "\<forall>(k, a) \<in> set (tb_approvals b). ar_request a = k"
    and ap_each: "\<forall>(k, a) \<in> set (tb_approvals b). k \<in> tr_id ` set (tb_requests b) \<and>
        admissible_target (tb_requests b) k"
    and posture: "\<not> delegate_without_posture (tb_requests b) (tb_approvals b)"
    and order: "\<not> decision_out_of_order (tb_requests b) (tb_approvals b)"
    using ap by (auto simp: approvals_ok_def)
  have ap_map: "map (\<lambda>a. (ar_request a, a)) (map snd (tb_approvals b)) = tb_approvals b"
    by (rule keyed_sorted [OF ap_ok ap_key])
  then have ap_fst: "map ar_request (map snd (tb_approvals b)) = map fst (tb_approvals b)"
    by (metis (no_types, lifting) fst_conv list.map_comp map_eq_conv comp_apply)
  have approvals: "collect_approvals (tb_requests b) ids [] (bi_approvals i) = Ok (tb_approvals b)"
    unfolding collect_approvals_Ok_iff fields ap_fst ap_map
    using ap_each ap_key bt_ok_distinct [OF ap_ok] bt_collect_sorted [OF ap_ok]
    by (fastforce simp: ids_def bt_collect_def bt_contains_def)
  have at_ok: "bt_ok (tb_attempts b)" and at_key: "\<forall>(k, a) \<in> set (tb_attempts b). attempt_request a = k"
    and at_ids: "distinct (batch_attempt_ids b)"
    and at_each: "\<forall>(k, a) \<in> set (tb_attempts b).
        attempt_admitted (batch_input preds b) (tb_approvals b) a"
    and ret_ok: "bs_ok (tb_retired_attempts b)"
    and ret_new: "set (tb_retired_attempts b) \<inter> set (batch_attempt_ids b) = {}"
    and live: "length (filter is_current (map snd (tb_attempts b))) \<le> 1"
    using at by (auto simp: attempts_ok_def)
  have at_map: "map (\<lambda>a. (attempt_request a, a)) (map snd (tb_attempts b)) = tb_attempts b"
    by (rule keyed_sorted [OF at_ok at_key])
  then have at_fst: "map attempt_request (map snd (tb_attempts b)) = map fst (tb_attempts b)"
    by (metis (no_types, lifting) fst_conv list.map_comp map_eq_conv comp_apply)
  have id_map: "map attempt_id (map snd (tb_attempts b)) = batch_attempt_ids b"
    by (simp add: batch_attempt_ids_def case_prod_unfold)
  have "expected_issuing_attempt i = expected_issuing_attempt (batch_input preds b)"
    by (rule expected_issuing_cong) (simp_all add: fields batch_input_def at_ids id_map [simplified])
  then have admitted: "attempt_admitted i = attempt_admitted (batch_input preds b)"
    by (rule attempt_admitted_cong) (simp_all add: fields batch_input_def)
  have in_ids: "k \<in> set ids" if "(k, a) \<in> set (tb_attempts b)" for k a
  proof -
    have "approved_in (tb_approvals b) k"
      using that at_each at_key by (fastforce simp: attempt_admitted_def)
    then have "k \<in> fst ` set (tb_approvals b)"
      by (auto simp: approved_in_def split: option.splits dest!: map_of_SomeD intro: rev_image_eqI)
    then show ?thesis using ap_each by (auto simp: ids_def)
  qed
  define aids where "aids = bs_of_list (batch_attempt_ids b)"
  have attempts: "collect_attempts i ids (tb_approvals b) ([], [], 0) (bi_attempts i) =
      Ok (tb_attempts b, aids, length (filter is_current (map snd (tb_attempts b))))"
    unfolding collect_attempts_Ok_iff fields at_fst at_map id_map admitted
    using at_each at_key in_ids bt_ok_distinct [OF at_ok] bt_collect_sorted [OF at_ok] at_ids
    by (fastforce simp: aids_def bs_of_list_def bt_collect_def bt_contains_def)
  have aids: "set aids = set (batch_attempt_ids b)" "bs_ok aids"
    unfolding aids_def by (simp_all add: bs_ok_of_list)
  have retired: "collect_retired aids [] (bi_retired_attempts i) = Ok (tb_retired_attempts b)"
    unfolding collect_retired_Ok_iff fields
    using ret_ok ret_new bs_of_list_sorted [OF ret_ok]
    by (simp add: aids strict_sorted_iff bs_of_list_def)
  have auth_ok: "bs_ok (runner_authorized_attempts st b)"
    by (rule runner_authorized_sorted) (use iss in \<open>simp add: issuance_ok_def\<close>)
  have auth_sub: "set (runner_authorized_attempts st b) \<subseteq> set aids \<union> set (tb_retired_attempts b)"
    using iss by (force simp: set_runner_authorized issuance_ok_def aids)
  have authorized: "collect_authorized aids (tb_retired_attempts b) []
      (bi_runner_authorized_attempts i) = Ok (runner_authorized_attempts st b)"
    unfolding collect_authorized_Ok_iff fields
    using auth_ok auth_sub bs_of_list_sorted [OF auth_ok] by (simp add: strict_sorted_iff bs_of_list_def)
  have serial: "check_attempt_order (bi_phase i) (tb_approvals b) (tb_attempts b)
      (False, False, False) (tb_requests b) = None"
    using prog by (simp add: progress_ok_def fields)
  have "check_phase i = check_phase (batch_input preds b)"
    by (rule check_phase_cong) (simp_all add: fields batch_input_def)
  then have phase: "check_phase i (tb_requests b) (tb_approvals b) (tb_attempts b)
      (length (filter is_current (map snd (tb_attempts b)))) = Ok (tb_phase b)"
    using prog by (simp only: progress_ok_def)
  obtain issuance st' where alloc: "allocate_issuance (runner_authorized_attempts st b)
      (aids @ tb_retired_attempts b) [] st = (issuance, st')" by fastforce
  have "distinct (aids @ tb_retired_attempts b)" using aids ret_ok ret_new by (auto simp: strict_sorted_iff)
  note cells = allocate_issuance_cells [OF alloc this]
  from cells(6) obtain tail where st': "st' = st @ tail" by blast
  define b' where "b' = b\<lparr>tb_runner_issuance := issuance\<rparr>"
  define n where "n = length (filter is_current (map snd (tb_attempts b)))"
  note folded = attempts [folded n_def] phase [folded n_def] live [folded n_def]
  have "bi_requests i \<noteq> []" "owning_session (rs_frontier (bi_yielded_snapshot i)) = bi_session i"
    using req by (simp_all add: requests_ok_def fields)
  then have "reconstitute_batch i st = (Ok b', st @ tail)"
    unfolding reconstitute_batch_def Let_def sorted
    using folded(3)
    by (simp add: requests approvals posture order folded(1,2) retired authorized serial alloc
        not_less [symmetric] st' [symmetric])
      (simp add: b'_def fields)
  moreover have "runner_authorized_attempts (st @ tail) b' = runner_authorized_attempts st b"
  proof (rule bs_determined)
    show "bs_ok (runner_authorized_attempts (st @ tail) b')"
      by (rule runner_authorized_sorted) (simp add: b'_def cells)
    show "set (runner_authorized_attempts (st @ tail) b') = set (runner_authorized_attempts st b)"
      (is "_ = set ?auth")
    proof (rule set_eqI)
      fix a
      have "a \<in> set (runner_authorized_attempts (st @ tail) b') \<longleftrightarrow>
          (\<exists>cell. (a, cell) \<in> set issuance \<and> load_cell (st @ tail) cell \<noteq> runner_issuance_available)"
        unfolding set_runner_authorized by (simp add: b'_def)
      also have "\<dots> \<longleftrightarrow> (\<exists>cell. (a, cell) \<in> set issuance) \<and> a \<in> set ?auth"
        using cells(5) unfolding st' by blast
      also have "\<dots> \<longleftrightarrow> a \<in> set ?auth"
        using cells(2) auth_sub by (metis (no_types, lifting) Un_iff fst_conv imageE in_mono
            prod.collapse set_append)
      finally show "a \<in> set (runner_authorized_attempts (st @ tail) b') \<longleftrightarrow> a \<in> set ?auth" .
    qed
  qed (rule auth_ok)
  then have "batch_eq (st @ tail) b b'"
    by (simp add: batch_eq_def b'_def runner_authorized_append [OF iss])
  ultimately show ?thesis unfolding i_def by blast
qed

end
