(* ===== verification/Tool_Batch_Moves.thy ===== *)
theory Tool_Batch_Moves
  imports Tool_Batch_Stored
begin

text \<open>
  What holds of a tool batch along its transitions: every decision, runner authorisation, reissue
  and replacement keeps the invariant that reconstitution checks. From it follow that storage
  restores every batch reached, that tools run only when approved and one at a time, that history
  is kept, and that deciding a batch always finishes.
\<close>

section \<open>Decisions keep a batch well formed\<close>

definition ordered_decision ::
  "(tool_request_id \<times> tool_approval_resolution) list \<Rightarrow> tool_request \<Rightarrow> bool" where
  "ordered_decision approvals request \<longleftrightarrow>
     (case bt_get approvals (tr_id request) of
        None \<Rightarrow> False | Some approval \<Rightarrow> requires_ordered_prefix (ar_source approval))"

lemma decision_out_of_order_iff:
  "\<not> decision_out_of_order requests approvals \<longleftrightarrow>
     sorted_wrt (\<lambda>x y. is_undecided approvals x \<longrightarrow> \<not> ordered_decision approvals y) requests"
proof (induction requests)
  case (Cons r rs)
  show ?case
  proof (cases "is_undecided approvals r")
    case True
    then have "\<not> decision_out_of_order (r # rs) approvals \<longleftrightarrow>
        (\<forall>y \<in> set rs. \<not> ordered_decision approvals y)"
      by (auto simp: decision_out_of_order_def ordered_decision_def list_ex_iff)
    moreover have "sorted_wrt (\<lambda>x y. is_undecided approvals x \<longrightarrow> \<not> ordered_decision approvals y) rs"
      if "\<forall>y \<in> set rs. \<not> ordered_decision approvals y"
      using that by (induction rs) auto
    ultimately show ?thesis using True by auto
  next
    case False
    then show ?thesis using Cons by (auto simp: decision_out_of_order_def)
  qed
qed (simp add: decision_out_of_order_def)

lemma earliest_undecided_alt:
  "earliest_undecided requests approvals = map_option tr_id (find (is_undecided approvals) requests)"
  unfolding earliest_undecided_def is_undecided_def by simp

lemma check_order_no_attempts:
  "check_attempt_order phase approvals [] (False, False, False) requests = None"
proof -
  have "approved_stops phase approvals [] requests =
      replicate (length (filter (\<lambda>r. approved_in approvals (tr_id r)) requests)) None"
    by (simp add: approved_stops_def map_replicate_const)
  then show ?thesis
    by (simp add: check_attempt_order_None_iff bt_contains_def serial_iff sorted_wrt_iff_nth_less)
qed

lemma check_execution_no_attempts:
  "check_execution requests preds turn_attempt wait [] (False, []) rs = Some []"
  by (induction rs) auto

text \<open>A batch that waits for a decision has no attempt and waits for the earliest one.\<close>

lemma awaiting_batch:
  assumes "batch_ok st preds b" and "tb_phase b = Phase_AwaitingApproval waiting"
  shows "tb_attempts b = []" and "earliest_undecided (tb_requests b) (tb_approvals b) = Some waiting"
  using assms
  by (auto simp: batch_ok_def progress_ok_def check_phase_def batch_input_def Let_def split: if_splits)

lemma phase_without_attempts:
  assumes "successor_phase (earliest_undecided requests approvals) continuation = Some (phase, active)"
    and "bi_phase i = phase" and "bi_runner_recovery_predecessors i = []"
  shows "check_phase i requests approvals [] 0 = Ok phase"
proof -
  consider waiting where "earliest_undecided requests approvals = Some waiting"
      "bi_phase i = Phase_AwaitingApproval waiting"
    | turn_attempt where "earliest_undecided requests approvals = None"
      "bi_phase i = Phase_Executing turn_attempt"
    using assms(1) assms(2) [symmetric]
    by (cases "earliest_undecided requests approvals"; cases continuation) (simp_all, metis+)
  then show ?thesis
    using assms(2,3)
    by cases (auto simp: check_phase_def check_execution_no_attempts ambiguous_attempts_def
        Let_def List.map_filter_simps)
qed

lemma requests_unique:
  "requests_ok b \<Longrightarrow> r \<in> set (tb_requests b) \<Longrightarrow> r' \<in> set (tb_requests b) \<Longrightarrow> tr_id r = tr_id r' \<Longrightarrow>
   r = r'"
  by (auto simp: requests_ok_def distinct_map inj_on_def)

lemma decided_batch_ok:
  assumes ok: "batch_ok st preds b" and none: "tb_attempts b = []"
    and r: "find (is_undecided (tb_approvals b)) (tb_requests b) = Some r"
    and a: "ar_request a = tr_id r" "ar_source a = Source_Delegate \<longrightarrow> tr_approval_posture r = Posture_Delegated"
    and succ: "successor_phase (earliest_undecided (tb_requests b)
        (bt_insert (tr_id r) a (tb_approvals b))) continuation = Some (phase, active)"
  shows "batch_ok st [] (b\<lparr>tb_approvals := bt_insert (tr_id r) a (tb_approvals b), tb_phase := phase\<rparr>)"
proof -
  let ?ap = "bt_insert (tr_id r) a (tb_approvals b)"
  let ?b = "b\<lparr>tb_approvals := ?ap, tb_phase := phase\<rparr>"
  from ok have req: "requests_ok b" and ap: "approvals_ok b" and at: "attempts_ok preds b"
    and iss: "issuance_ok st b"
    by (simp_all add: batch_ok_def)
  from r obtain k where k: "k < length (tb_requests b)" "tb_requests b ! k = r"
    "is_undecided (tb_approvals b) r" "\<forall>j < k. \<not> is_undecided (tb_approvals b) (tb_requests b ! j)"
    by (auto simp: find_Some_iff)
  have mem: "r \<in> set (tb_requests b)" using k by auto
  have get: "bt_get ?ap x = (if x = tr_id r then Some a else bt_get (tb_approvals b) x)" for x
    by (simp add: bt_get_insert)
  have contains: "bt_contains ?ap x \<longleftrightarrow> x = tr_id r \<or> bt_contains (tb_approvals b) x" for x
    by (auto simp: bt_contains_iff bt_get_insert)
  have "requests_ok ?b" using req by (simp add: requests_ok_def)
  moreover have "approvals_ok ?b"
  proof -
    have "bt_ok ?ap" using ap by (simp add: approvals_ok_def bt_ok_insert)
    moreover have "admissible_target (tb_requests b) (tr_id r)"
      using k(3) mem requests_unique [OF req]
      by (force simp: admissible_target_def list_ex_iff is_undecided_def)
    moreover from this have "ar_request y = x \<and> x \<in> tr_id ` set (tb_requests b) \<and>
        admissible_target (tb_requests b) x" if "(x, y) \<in> set ?ap" for x y
    proof -
      from that consider "x = tr_id r" "y = a" | "(x, y) \<in> set (tb_approvals b)"
        using set_bt_insert_subset [of "tr_id r" a "tb_approvals b"] by blast
      then show ?thesis
      proof cases
        case 1
        with a(1) mem \<open>admissible_target (tb_requests b) (tr_id r)\<close> show ?thesis by simp
      next
        case 2
        with ap show ?thesis by (auto simp: approvals_ok_def)
      qed
    qed
    moreover have "\<not> delegate_without_posture (tb_requests b) ?ap"
      unfolding delegate_without_posture_def list_ex_iff
    proof
      assume "\<exists>x \<in> set (tb_requests b). case bt_get ?ap (tr_id x) of None \<Rightarrow> False
        | Some approval \<Rightarrow> ar_source approval = Source_Delegate \<and>
            tr_approval_posture x \<noteq> Posture_Delegated"
      then obtain x where x: "x \<in> set (tb_requests b)" "case bt_get ?ap (tr_id x) of None \<Rightarrow> False
        | Some approval \<Rightarrow> ar_source approval = Source_Delegate \<and>
            tr_approval_posture x \<noteq> Posture_Delegated" by blast
      show False
      proof (cases "tr_id x = tr_id r")
        case True
        then have "x = r" using requests_unique [OF req x(1) mem] by blast
        with x(2) a(2) show False by (simp add: get)
      next
        case False
        with x ap show False
          by (auto simp: get approvals_ok_def delegate_without_posture_def list_ex_iff)
      qed
    qed
    moreover have "\<not> decision_out_of_order (tb_requests b) ?ap"
    proof -
      have old: "sorted_wrt (\<lambda>x y. is_undecided (tb_approvals b) x \<longrightarrow>
          \<not> ordered_decision (tb_approvals b) y) (tb_requests b)"
        using ap unfolding decision_out_of_order_iff [symmetric] by (simp add: approvals_ok_def)
      show ?thesis unfolding decision_out_of_order_iff sorted_wrt_iff_nth_less
      proof (intro allI impI)
        fix i j
        assume ij: "i < j" "j < length (tb_requests b)"
          and u: "is_undecided ?ap (tb_requests b ! i)"
        then have u': "is_undecided (tb_approvals b) (tb_requests b ! i)"
          by (simp add: is_undecided_def contains)
        then have "\<not> ordered_decision (tb_approvals b) (tb_requests b ! j)"
          using old ij unfolding sorted_wrt_iff_nth_less by blast
        moreover have "j \<noteq> k" using u' k(4) ij(1) by blast
        then have "tr_id (tb_requests b ! j) \<noteq> tr_id r"
          using req ij(2) k(1,2) by (auto simp: requests_ok_def distinct_conv_nth)
        ultimately show "\<not> ordered_decision ?ap (tb_requests b ! j)"
          by (simp add: ordered_decision_def get)
      qed
    qed
    ultimately show ?thesis unfolding approvals_ok_def by auto
  qed
  moreover have "attempts_ok [] ?b"
    using at none by (simp add: attempts_ok_def batch_attempt_ids_def)
  moreover have "issuance_ok st ?b"
    using iss by (simp add: issuance_ok_def batch_attempt_ids_def)
  moreover have "progress_ok [] ?b"
  proof -
    have "check_phase (batch_input [] ?b) (tb_requests b) ?ap [] 0 = Ok phase"
      by (rule phase_without_attempts [OF succ]) (simp_all add: batch_input_def)
    then show ?thesis by (simp add: progress_ok_def none check_order_no_attempts)
  qed
  ultimately show ?thesis by (simp add: batch_ok_def)
qed

text \<open>
  What a batch needs of the three ways to apply a decision command: the command is kept, and an
  applied result resolves exactly the given request under a source that is not the delegate's.
\<close>

locale decision_source =
  fixes prepare :: "decide_tool_request \<Rightarrow> tool_request \<Rightarrow> decide_preparation_error + prepared_decide"
  assumes prepare_applies: "prepare command request = Ok p \<Longrightarrow>
      \<exists>a. pd_result p = Decide_Applied a \<and> ar_request a = tr_id request \<and>
        ar_source a \<noteq> Source_Delegate"
begin

lemma decision_outcome:
  assumes "tb_phase b = Phase_AwaitingApproval waiting"
    and "prepare_decision prepare b command continuation = Ok p"
  obtains (rejected) reason where "p = decision_rejected b
        \<lparr>pd_command = command, pd_result = Decide_Rejected reason\<rparr> waiting"
  | (applied) r a phase active where
      "find (is_undecided (tb_approvals b)) (tb_requests b) = Some r" "tr_id r = dt_request command"
      "pd_result (bd_prepared_command p) = Decide_Applied a" "ar_request a = tr_id r"
      "ar_source a \<noteq> Source_Delegate"
      "successor_phase (earliest_undecided (tb_requests b) (bt_insert (tr_id r) a (tb_approvals b)))
         continuation = Some (phase, active)"
      "bd_batch p = b\<lparr>tb_approvals := bt_insert (tr_id r) a (tb_approvals b), tb_phase := phase\<rparr>"
      "bd_active_phase p = active"
proof -
  from assms obtain entry where
    entry: "find (\<lambda>c. tr_id c = dt_request command) (tb_requests b) = Some entry"
    by (auto simp: prepare_decision_def Let_def split: option.splits)
  have id: "tr_id entry = dt_request command" using entry by (auto simp: find_Some_iff)
  consider "\<exists>reason. p = decision_rejected b
        \<lparr>pd_command = command, pd_result = Decide_Rejected reason\<rparr> waiting"
    | prepared a phase active where
      "earliest_undecided (tb_requests b) (tb_approvals b) = Some (dt_request command)"
      "prepare command entry = Ok prepared" "pd_result prepared = Decide_Applied a"
      "successor_phase (earliest_undecided (tb_requests b)
         (bt_insert (dt_request command) a (tb_approvals b))) continuation = Some (phase, active)"
      "p = \<lparr>bd_batch = b\<lparr>tb_approvals := bt_insert (dt_request command) a (tb_approvals b),
              tb_phase := phase\<rparr>, bd_prepared_command = prepared, bd_active_phase = active\<rparr>"
    using assms entry
    by (auto simp: prepare_decision_def Let_def prepare_already_resolved_def prepare_not_earliest_def
        split: if_splits sum.splits decide_result.splits option.splits)
  then show thesis
  proof cases
    case 1
    then show thesis using rejected by blast
  next
    case 2
    from 2(1) obtain r where r: "find (is_undecided (tb_approvals b)) (tb_requests b) = Some r"
      "tr_id r = dt_request command"
      by (auto simp: earliest_undecided_alt)
    from prepare_applies [OF 2(2)] 2(3) id have "ar_request a = tr_id r" "ar_source a \<noteq> Source_Delegate"
      by (auto simp: r(2))
    with 2 r show thesis by (intro applied) auto
  qed
qed

lemma decision_keeps_ok:
  assumes ok: "batch_ok st preds b" and p: "prepare_decision prepare b command continuation = Ok p"
  shows "\<exists>preds'. batch_ok st preds' (bd_batch p)"
proof -
  from p obtain waiting where waiting: "tb_phase b = Phase_AwaitingApproval waiting"
    by (auto simp: prepare_decision_def split: tool_batch_phase.splits)
  from waiting p show ?thesis
  proof (cases rule: decision_outcome)
    case (rejected reason)
    then show ?thesis using ok by (auto simp: decision_rejected_def)
  next
    case (applied r a phase active)
    have "batch_ok st [] (bd_batch p)"
      unfolding applied(7)
      by (rule decided_batch_ok [OF ok awaiting_batch(1) [OF ok waiting] applied(1,4) _ applied(6)])
        (simp add: applied(5))
    then show ?thesis ..
  qed
qed

end

interpretation user_decision: decision_source prepare_applied
  by unfold_locales (auto simp: prepare_applied_def resolution_user_def split: if_splits)

interpretation closure_denial: decision_source prepare_lifecycle_closure_applied
  by unfold_locales
    (auto simp: prepare_lifecycle_closure_applied_def resolution_lifecycle_closure_def split: if_splits)

interpretation timeout_denial: decision_source prepare_approval_timeout_applied
  by unfold_locales
    (auto simp: prepare_approval_timeout_applied_def resolution_approval_timeout_def Let_def
      split: if_splits)

lemma delegate_keeps_ok:
  assumes ok: "batch_ok st preds b"
    and approval: "delegate_approval_try_new request model call recommendation rationale = Ok approval"
    and p: "prepare_delegate_decision b approval continuation = Ok p"
  shows "\<exists>preds'. batch_ok st preds' (dd_batch p)"
proof -
  from p obtain waiting where waiting: "tb_phase b = Phase_AwaitingApproval waiting"
    by (auto simp: prepare_delegate_decision_def split: tool_batch_phase.splits)
  from waiting p obtain entry where
    entry: "find (\<lambda>c. tr_id c = da_request approval) (tb_requests b) = Some entry"
    and same: "waiting = da_request approval" "tr_approval_posture entry = da_posture approval"
    by (auto simp: prepare_delegate_decision_def split: option.splits if_splits)
  have req: "requests_ok b" using ok by (simp add: batch_ok_def)
  have rec: "entry \<in> set (tb_requests b)" "tr_id entry = da_request approval"
    using entry by (auto simp: find_Some_iff)
  from awaiting_batch(2) [OF ok waiting] obtain r where
    r: "find (is_undecided (tb_approvals b)) (tb_requests b) = Some r" "tr_id r = waiting"
    by (auto simp: earliest_undecided_alt)
  then have "r = entry"
    using rec same requests_unique [OF req, of r entry] by (auto simp: find_Some_iff)
  show ?thesis
  proof (cases "resolution_delegate approval")
    case None
    then have "dd_batch p = b"
      using waiting entry same p
      by (auto simp: prepare_delegate_decision_def split: if_splits)
    with ok show ?thesis by auto
  next
    case (Some a)
    then obtain phase active where
      succ: "successor_phase (earliest_undecided (tb_requests b)
          (bt_insert (da_request approval) a (tb_approvals b))) continuation = Some (phase, active)"
      and batch: "dd_batch p =
          b\<lparr>tb_approvals := bt_insert (da_request approval) a (tb_approvals b), tb_phase := phase\<rparr>"
      using waiting entry same p
      by (auto simp: prepare_delegate_decision_def Let_def split: if_splits option.splits)
    have a: "ar_request a = tr_id r" "tr_approval_posture r = Posture_Delegated"
      using Some approval same r(2) \<open>r = entry\<close>
      by (auto simp: resolution_delegate_def Let_def delegate_approval_try_new_def
          split: delegate_approval_recommendation.splits tool_approval_posture.splits if_splits)
    have q: "da_request approval = tr_id r" using same(1) r(2) by simp
    have "batch_ok st [] (dd_batch p)"
      unfolding batch q
      by (rule decided_batch_ok [OF ok awaiting_batch(1) [OF ok waiting] r(1) a(1) _ succ [unfolded q]])
        (simp add: a(2))
    then show ?thesis ..
  qed
qed

section \<open>Attempts keep a batch well formed\<close>

lemma find_map_Some: "find_map f xs = Some y \<Longrightarrow> \<exists>x \<in> set xs. f x = Some y"
  by (induction xs) (auto split: option.splits)

lemma find_in_flight_Some:
  "find_in_flight b attempt = Some (request, current) \<Longrightarrow>
     (request, Current current) \<in> set (tb_attempts b) \<and> ca_attempt current = attempt \<and>
     ca_state current = Attempt_InFlight"
  unfolding find_in_flight_def
  by (drule find_map_Some) (auto split: reconstituted_tool_attempt.splits if_splits)

lemma set_bt_insert: "bt_ok m \<Longrightarrow> set (bt_insert k v m) = insert (k, v) {p \<in> set m. fst p \<noteq> k}"
proof (rule set_eqI)
  fix p :: "'a \<times> 'b"
  assume ok: "bt_ok m"
  show "p \<in> set (bt_insert k v m) \<longleftrightarrow> p \<in> insert (k, v) {p \<in> set m. fst p \<noteq> k}"
    using bt_entry_iff [OF ok, of "fst p" "snd p"]
      bt_entry_iff [OF bt_ok_insert [OF ok], of k v "fst p" "snd p"]
    by (cases p) (auto simp: bt_get_insert split: if_splits)
qed

lemma distinct_bt: "bt_ok m \<Longrightarrow> distinct m"
  using bt_ok_distinct by (auto simp: distinct_map)

lemma map_bt_replace:
  "bt_ok m \<Longrightarrow> (k, v0) \<in> set m \<Longrightarrow> h (k, v) = h (k, v0) \<Longrightarrow> map h (bt_insert k v m) = map h m"
proof (induction m)
  case (Cons p m)
  obtain x y where p: "p = (x, y)" by fastforce
  have less: "\<forall>q \<in> set m. x < fst q" using Cons.prems(1) by (simp add: bt_ok_def p)
  have ok: "bt_ok m" using Cons.prems(1) by (simp add: bt_ok_def)
  show ?case
  proof (cases "k = x")
    case True
    then have "v0 = y" using Cons.prems(2) less by (auto simp: p)
    with True Cons.prems(3) show ?thesis by (simp add: p)
  next
    case False
    then have "(k, v0) \<in> set m" "x < k" using Cons.prems(2) less by (auto simp: p)
    with False Cons.IH [OF ok _ Cons.prems(3)] show ?thesis by (simp add: p)
  qed
qed simp

lemma batch_ok_store: "batch_ok st preds b \<Longrightarrow> length st \<le> length st' \<Longrightarrow> batch_ok st' preds b"
  by (auto simp: batch_ok_def issuance_ok_def intro: less_le_trans)

lemma length_compare_exchange: "compare_exchange c old new st = (done, st') \<Longrightarrow> length st' = length st"
  by (auto simp: compare_exchange_def split: if_splits)

lemma length_try_new: "runner_authorization_try_new approved authorized st = (r, st') \<Longrightarrow> length st' = length st"
  by (auto simp: runner_authorization_try_new_def claim_runner_issuance_def Let_def
      split: if_splits prod.splits bool.splits dest: length_compare_exchange)

lemma length_bind: "bind_runner_authorization b authorized st = (r, st') \<Longrightarrow> length st' = length st"
  by (auto simp: bind_runner_authorization_def split: option.splits sum.splits prod.splits
      dest: length_try_new)

lemma issuance_insert:
  assumes iss: "issuance_ok st b" and fresh: "length st < length st'" "cell = length st"
    and keys: "insert attempt (set (batch_attempt_ids b) \<union> set (tb_retired_attempts b)) =
      set (batch_attempt_ids b') \<union> set (tb_retired_attempts b')"
    and field: "tb_runner_issuance b' = bt_insert attempt cell (tb_runner_issuance b)"
  shows "issuance_ok st' b'"
proof -
  have ok: "bt_ok (tb_runner_issuance b)" and d: "distinct (map snd (tb_runner_issuance b))"
    and low: "\<forall>c \<in> snd ` set (tb_runner_issuance b). c < length st"
    and dom: "fst ` set (tb_runner_issuance b) = set (batch_attempt_ids b) \<union> set (tb_retired_attempts b)"
    using iss by (auto simp: issuance_ok_def)
  have ok': "bt_ok (tb_runner_issuance b')" unfolding field by (rule bt_ok_insert [OF ok])
  have set: "set (tb_runner_issuance b') =
      insert (attempt, cell) {p \<in> set (tb_runner_issuance b). fst p \<noteq> attempt}"
    unfolding field by (rule set_bt_insert [OF ok])
  have "inj_on snd (set (tb_runner_issuance b))" using d by (simp add: distinct_map)
  then have "inj_on snd (set (tb_runner_issuance b'))"
    using low fresh(2) unfolding set by (fastforce simp: inj_on_def)
  then have "distinct (map snd (tb_runner_issuance b'))"
    using distinct_bt [OF ok'] by (simp add: distinct_map)
  moreover have "\<forall>c \<in> snd ` set (tb_runner_issuance b'). c < length st'"
    using low fresh unfolding set by fastforce
  moreover have "fst ` set (tb_runner_issuance b') = insert attempt (fst ` set (tb_runner_issuance b))"
    unfolding field by (rule set_keys_bt_insert)
  ultimately show ?thesis using ok' keys dom by (simp add: issuance_ok_def)
qed

lemma reauthorize_keeps_ok:
  assumes ok: "batch_ok st preds b"
    and r: "reauthorize_unclaimed_runner_attempt b attempt st = (Ok (b', authorization), st')"
  shows "batch_ok st' preds b'"
proof -
  from r obtain q current prior st1 st2 where
    found: "find_in_flight b attempt = Some (q, current)"
    and swap: "compare_exchange prior runner_issuance_issued runner_issuance_retired st = (True, st1)"
    and st2: "st2 = st1 @ [runner_issuance_available]"
    and b': "b' = b\<lparr>tb_runner_issuance := bt_insert attempt (length st1) (tb_runner_issuance b)\<rparr>"
    and len: "length st' = length st2"
    by (auto simp: reauthorize_unclaimed_runner_attempt_def new_cell_def Let_def
        split: if_splits option.splits prod.splits bool.splits sum.splits dest!: length_bind)
  have len1: "length st1 = length st" by (rule length_compare_exchange [OF swap])
  have "attempt \<in> set (batch_attempt_ids b)"
    using find_in_flight_Some [OF found]
    by (auto simp: batch_attempt_ids_def intro!: rev_image_eqI [of "(q, Current current)"])
  moreover have "issuance_ok st b" using ok by (simp add: batch_ok_def)
  ultimately have "issuance_ok st' b'"
    by (intro issuance_insert [of st b st' "length st1" attempt b'])
      (auto simp: b' len st2 len1 batch_attempt_ids_def)
  moreover have "requests_ok b'" "approvals_ok b'" "attempts_ok preds b'" "progress_ok preds b'"
    using ok unfolding batch_ok_def b'
    by (simp_all add: requests_ok_def approvals_ok_def attempts_ok_def progress_ok_def batch_input_def
        batch_attempt_ids_def)
  ultimately show ?thesis by (simp add: batch_ok_def)
qed

lemma check_execution_live:
  "check_execution all_requests preds turn_attempt wait attempts (flag, seen) requests = Some seen' \<Longrightarrow>
   r \<in> set requests \<Longrightarrow> bt_get attempts (tr_id r) = Some a \<Longrightarrow> is_current a \<Longrightarrow>
   attempt_issuing a = turn_attempt"
proof (induction requests arbitrary: flag seen)
  case (Cons x xs)
  show ?case
  proof (cases "x = r")
    case True
    then show ?thesis using Cons.prems by (auto simp: Let_def split: if_splits)
  next
    case False
    then show ?thesis using Cons by (auto simp: Let_def split: if_splits option.splits)
  qed
qed simp

lemma check_execution_cong:
  assumes "\<forall>r \<in> set requests. map_option (\<lambda>a. (attempt_issuing a, is_current a)) (bt_get m (tr_id r)) =
      map_option (\<lambda>a. (attempt_issuing a, is_current a)) (bt_get m' (tr_id r))"
  shows "check_execution all_requests preds turn_attempt wait m (flag, seen) requests =
      check_execution all_requests preds turn_attempt wait m' (flag, seen) requests"
  using assms
proof (induction requests arbitrary: flag seen)
  case (Cons x xs)
  then have tail: "check_execution all_requests preds turn_attempt wait m (flag, seen) xs =
      check_execution all_requests preds turn_attempt wait m' (flag, seen) xs" for flag seen
    by simp
  have "map_option (\<lambda>a. (attempt_issuing a, is_current a)) (bt_get m (tr_id x)) =
      map_option (\<lambda>a. (attempt_issuing a, is_current a)) (bt_get m' (tr_id x))"
    using Cons.prems by simp
  then consider "bt_get m (tr_id x) = None" "bt_get m' (tr_id x) = None"
    | a a' where "bt_get m (tr_id x) = Some a" "bt_get m' (tr_id x) = Some a'"
      "attempt_issuing a = attempt_issuing a'" "is_current a = is_current a'"
    by (auto simp: map_option_case split: option.splits)
  then show ?case by cases (simp_all add: tail Let_def)
qed simp

lemma map_filter_map: "List.map_filter f xs = map the (filter (\<lambda>y. y \<noteq> None) (map f xs))"
  by (induction xs) (auto simp: List.map_filter_simps)

lemma child_waits_alt:
  "child_waits requests attempts =
     List.map_filter (\<lambda>r. Option.bind (bt_get attempts (tr_id r)) child_wait_of) requests"
  unfolding child_waits_def
  by (induction requests) (auto simp: List.map_filter_simps split: option.splits)

text \<open>Replacing the live attempt of a request by another live attempt of the same tenure.\<close>

lemma replaced_progress:
  assumes ok: "bt_ok (tb_attempts b)" and old: "(q, Current current) \<in> set (tb_attempts b)"
    and same: "ca_issuing_attempt current = ca_issuing_attempt new"
    and phase: "tb_phase b = Phase_Executing turn_attempt"
    and prog: "progress_ok preds b"
    and b': "tb_requests b' = tb_requests b" "tb_approvals b' = tb_approvals b"
      "tb_attempts b' = bt_insert q (Current new) (tb_attempts b)" "tb_phase b' = tb_phase b"
  shows "progress_ok preds b'"
proof -
  let ?m = "tb_attempts b" and ?m' = "bt_insert q (Current new) (tb_attempts b)"
  have get: "bt_get ?m q = Some (Current current)" using bt_entry_iff [OF ok] old by simp
  have get': "bt_get ?m' x = (if x = q then Some (Current new) else bt_get ?m x)" for x
    by (simp add: bt_get_insert)
  have keys: "bt_contains ?m' x = bt_contains ?m x" for x
    using get by (auto simp: bt_contains_iff bt_get_insert)
  have "approved_stops p ap ?m' rs = approved_stops p ap ?m rs" for p ap rs
    unfolding approved_stops_def
    by (rule map_cong) (auto simp: get get' stops_execution_def)
  then have order: "check_attempt_order (tb_phase b) (tb_approvals b) ?m' (False, False, False)
      (tb_requests b) = None"
    using prog by (simp add: progress_ok_def check_attempt_order_None_iff keys)
  have live: "length (filter is_current (map snd ?m')) = length (filter is_current (map snd ?m))"
  proof -
    have "map (\<lambda>p. is_current (snd p)) ?m' = map (\<lambda>p. is_current (snd p)) ?m"
      by (rule map_bt_replace [OF ok old]) simp
    then have "filter id (map (\<lambda>p. is_current (snd p)) ?m') = filter id (map (\<lambda>p. is_current (snd p)) ?m)"
      by simp
    then show ?thesis by (simp add: filter_map comp_def) (metis length_map)
  qed
  have ambiguous: "ambiguous_attempts ?m' = ambiguous_attempts ?m"
    unfolding ambiguous_attempts_def map_filter_map map_map
    by (subst map_bt_replace [OF ok old]) simp_all
  have waits: "child_waits (tb_requests b) ?m' = child_waits (tb_requests b) ?m"
    unfolding child_waits_alt by (rule arg_cong [of _ _ "\<lambda>f. List.map_filter f (tb_requests b)"])
      (auto simp: fun_eq_iff get get')
  have exec: "check_execution (tb_requests b) preds turn_attempt wait ?m' (False, []) (tb_requests b) =
      check_execution (tb_requests b) preds turn_attempt wait ?m (False, []) (tb_requests b)" for wait
    by (rule check_execution_cong) (auto simp: get get' same attempt_issuing_def)
  have fields: "bi_phase (batch_input preds b') = Phase_Executing turn_attempt"
      "bi_phase (batch_input preds b) = Phase_Executing turn_attempt"
      "bi_runner_recovery_predecessors (batch_input preds b') = preds"
      "bi_runner_recovery_predecessors (batch_input preds b) = preds"
    by (simp_all add: batch_input_def b' phase)
  have "check_phase (batch_input preds b') (tb_requests b) (tb_approvals b) ?m' n =
      check_phase (batch_input preds b) (tb_requests b) (tb_approvals b) ?m n" for n
    by (simp only: check_phase_def fields tool_batch_phase.case Let_def ambiguous waits exec)
  then show ?thesis
    using prog order by (simp only: progress_ok_def b' live)
qed

lemma replace_OkE:
  assumes "replace_claimed_attempt b claimed replacement st = (Ok rep, st')"
  obtains turn_attempt q current entry approval approved authorized where
    "tb_phase b = Phase_Executing turn_attempt" "\<not> identity_in_use b replacement"
    "find_in_flight b claimed = Some (q, current)"
    "find (\<lambda>c. tr_id c = q) (tb_requests b) = Some entry"
    "bt_get (tb_approvals b) q = Some approval" "try_from_resolution entry approval = Ok approved"
    "authorize_with_runner_issuance (prepare_attempt approved replacement turn_attempt
        (ca_effect_class current)) (length st) = Ok authorized"
    "st' = st @ [runner_issuance_available]"
    "cr_batch rep = b
        \<lparr>tb_runner_issuance := bt_insert replacement (length st) (tb_runner_issuance b),
         tb_retired_attempts := bs_insert claimed (tb_retired_attempts b),
         tb_attempts := bt_insert q (Current (au_attempt authorized)) (tb_attempts b)\<rparr>"
    "(q, Current current) \<in> set (tb_attempts b)" "ca_attempt current = claimed"
    "cr_retired rep = crash_ended (classify_crash_loss current)" "cr_approved rep = approved"
    "cr_authorized rep = authorized"
proof -
  have retired: "ea_attempt (crash_ended (classify_crash_loss current)) = ca_attempt current" for current
    by (auto simp: classify_crash_loss_def end_attempt_def split: tool_effect_class.splits current_tool_attempt_state.splits)
  show thesis
    using assms that
    by (auto simp: replace_claimed_attempt_def new_cell_def Let_def retired dest!: find_in_flight_Some
        split: tool_batch_phase.splits if_splits option.splits prod.splits sum.splits)
qed

lemma replace_keeps_ok:
  assumes ok: "batch_ok st preds b"
    and r: "replace_claimed_attempt b claimed replacement st = (Ok rep, st')"
  shows "batch_ok st' preds (cr_batch rep)"
proof -
  from r obtain turn_attempt q current entry approval approved authorized where
    phase: "tb_phase b = Phase_Executing turn_attempt"
    and fresh: "\<not> identity_in_use b replacement"
    and entry: "find (\<lambda>c. tr_id c = q) (tb_requests b) = Some entry"
    and approval: "bt_get (tb_approvals b) q = Some approval"
    and approved: "try_from_resolution entry approval = Ok approved"
    and issued: "authorize_with_runner_issuance (prepare_attempt approved replacement turn_attempt
        (ca_effect_class current)) (length st) = Ok authorized"
    and st': "st' = st @ [runner_issuance_available]"
    and rep: "cr_batch rep = b
        \<lparr>tb_runner_issuance := bt_insert replacement (length st) (tb_runner_issuance b),
         tb_retired_attempts := bs_insert claimed (tb_retired_attempts b),
         tb_attempts := bt_insert q (Current (au_attempt authorized)) (tb_attempts b)\<rparr>"
    and old: "(q, Current current) \<in> set (tb_attempts b)" "ca_attempt current = claimed"
    by (rule replace_OkE)
  define b' where "b' = cr_batch rep"
  define new where "new = au_attempt authorized"
  have b': "tb_session b' = tb_session b" "tb_turn b' = tb_turn b"
      "tb_producing_call b' = tb_producing_call b" "tb_yielded_snapshot b' = tb_yielded_snapshot b"
      "tb_requests b' = tb_requests b" "tb_approvals b' = tb_approvals b" "tb_phase b' = tb_phase b"
      "tb_attempts b' = bt_insert q (Current new) (tb_attempts b)"
      "tb_retired_attempts b' = bs_insert claimed (tb_retired_attempts b)"
      "tb_runner_issuance b' = bt_insert replacement (length st) (tb_runner_issuance b)"
    by (simp_all add: b'_def rep new_def)
  from ok have req: "requests_ok b" and ap: "approvals_ok b" and at: "attempts_ok preds b"
    and iss: "issuance_ok st b" and prog: "progress_ok preds b"
    by (simp_all add: batch_ok_def)
  have at_ok: "bt_ok (tb_attempts b)" using at by (simp add: attempts_ok_def)
  have en: "entry \<in> set (tb_requests b)" "tr_id entry = q" using entry by (auto simp: find_Some_iff)
  have owner: "tr_session entry = tb_session b" "tr_turn entry = tb_turn b"
    using en(1) req by (auto simp: requests_ok_def)
  have new: "ca_attempt new = replacement" "ca_request new = q" "ca_session new = tb_session b"
      "ca_turn new = tb_turn b" "ca_issuing_attempt new = turn_attempt"
    using issued approved en(2) owner
    by (auto simp: new_def authorize_with_runner_issuance_def prepare_attempt_def try_from_resolution_def
        split: if_splits)
  have is_ap: "approved_in (tb_approvals b) q"
    using approved approval by (auto simp: approved_in_def is_approved_def try_from_resolution_def
        split: if_splits)
  have "bt_get (tb_attempts b) q = Some (Current current)"
    using bt_entry_iff [OF at_ok] old(1) by simp
  moreover obtain wait seen where "check_execution (tb_requests b) preds turn_attempt wait
      (tb_attempts b) (False, []) (tb_requests b) = Some seen"
    using prog by (auto simp: progress_ok_def check_phase_def batch_input_def phase Let_def
        split: if_splits option.splits)
  ultimately have tenure: "ca_issuing_attempt current = turn_attempt"
    using check_execution_live [of "tb_requests b" preds turn_attempt wait "tb_attempts b" False "[]"
        "tb_requests b" seen entry "Current current"] en
    by (simp add: attempt_issuing_def)
  have set': "set (tb_attempts b') = insert (q, Current new) {p \<in> set (tb_attempts b). fst p \<noteq> q}"
    unfolding b' by (rule set_bt_insert [OF at_ok])
  have at_ok': "bt_ok (tb_attempts b')" unfolding b' by (rule bt_ok_insert [OF at_ok])
  have unused: "replacement \<notin> set (batch_attempt_ids b)" "replacement \<notin> set (tb_retired_attempts b)"
    using fresh by (auto simp: identity_in_use_def batch_attempt_ids_def list_ex_iff)
  have held: "claimed \<in> set (batch_attempt_ids b)"
    using old by (auto simp: batch_attempt_ids_def intro!: rev_image_eqI [of "(q, Current current)"])
  have inj: "inj_on (\<lambda>(_, a). attempt_id a) (set (tb_attempts b))"
    using at by (simp add: attempts_ok_def batch_attempt_ids_def distinct_map)
  have ids': "set (batch_attempt_ids b') = insert replacement (set (batch_attempt_ids b) - {claimed})"
  proof -
    have same: "attempt_id a = claimed \<longleftrightarrow> k = q" if "(k, a) \<in> set (tb_attempts b)" for k a
    proof
      assume "k = q"
      then have "a = Current current" using bt_entry_iff [OF at_ok] that old(1) by (metis option.inject)
      then show "attempt_id a = claimed" using old(2) by simp
    qed (use inj_onD [OF inj, of "(k, a)" "(q, Current current)"] that old in auto)
    have "x \<in> (\<lambda>(_, a). attempt_id a) ` {p \<in> set (tb_attempts b). fst p \<noteq> q} \<longleftrightarrow>
        x \<in> set (batch_attempt_ids b) - {claimed}" for x
      unfolding batch_attempt_ids_def using same by (force simp: image_iff)
    then have "(\<lambda>(_, a). attempt_id a) ` {p \<in> set (tb_attempts b). fst p \<noteq> q} =
        set (batch_attempt_ids b) - {claimed}" by blast
    then show ?thesis by (simp add: batch_attempt_ids_def set' new)
  qed
  have "inj_on (\<lambda>(_, a). attempt_id a) (set (tb_attempts b'))"
    using inj unused(1) unfolding set' batch_attempt_ids_def by (fastforce simp: inj_on_def new)
  then have d': "distinct (batch_attempt_ids b')"
    using distinct_bt [OF at_ok'] by (simp add: batch_attempt_ids_def distinct_map)
  have "map (\<lambda>p. is_child_wait (snd p)) (tb_attempts b') = map (\<lambda>p. is_child_wait (snd p)) (tb_attempts b)"
    unfolding b' by (rule map_bt_replace [OF at_ok old(1)]) simp
  then have "list_ex id (map (\<lambda>p. is_child_wait (snd p)) (tb_attempts b')) =
      list_ex id (map (\<lambda>p. is_child_wait (snd p)) (tb_attempts b))" by simp
  then have "list_ex is_child_wait (map snd (tb_attempts b')) = list_ex is_child_wait (map snd (tb_attempts b))"
    by (simp add: list_ex_iff)
  then have "expected_issuing_attempt (batch_input preds b') = expected_issuing_attempt (batch_input preds b)"
    by (simp add: expected_issuing_attempt_def batch_input_def b' phase)
  then have admitted: "attempt_admitted (batch_input preds b') = attempt_admitted (batch_input preds b)"
    by (rule attempt_admitted_cong) (simp_all add: batch_input_def b')
  have new_ok: "attempt_admitted (batch_input preds b) (tb_approvals b) (Current new)"
    using is_ap by (simp add: attempt_admitted_def attempt_request_def issuing_admitted_def new
        attempt_issuing_def expected_issuing_attempt_def batch_input_def phase)
  have live: "length (filter is_current (map snd (tb_attempts b'))) \<le> 1"
  proof -
    have "map (\<lambda>p. is_current (snd p)) (tb_attempts b') = map (\<lambda>p. is_current (snd p)) (tb_attempts b)"
      unfolding b' by (rule map_bt_replace [OF at_ok old(1)]) simp
    then have "length (filter id (map (\<lambda>p. is_current (snd p)) (tb_attempts b'))) =
        length (filter id (map (\<lambda>p. is_current (snd p)) (tb_attempts b)))"
      by simp
    then show ?thesis using at by (simp add: attempts_ok_def filter_map comp_def)
  qed
  have "attempt_request a = k \<and> attempt_admitted (batch_input preds b') (tb_approvals b') a"
    if entered: "(k, a) \<in> set (tb_attempts b')" for k a
  proof -
    consider "k = q" "a = Current new" | "(k, a) \<in> set (tb_attempts b)"
      using entered unfolding set' by blast
    then show ?thesis
    proof cases
      case 1
      then show ?thesis using new_ok by (simp add: admitted attempt_request_def new b')
    next
      case 2
      then show ?thesis using at unfolding attempts_ok_def admitted b' by blast
    qed
  qed
  then have "attempts_ok preds b'"
    using at d' at_ok' live ids' unused held
    by (auto simp: attempts_ok_def b' bs_ok_insert)
  moreover have "issuance_ok st' b'" using held
    by (intro issuance_insert [OF iss, of st' "length st" replacement]) (auto simp: st' b' ids')
  moreover have "progress_ok preds b'"
    by (rule replaced_progress [OF at_ok old(1) _ phase prog]) (simp_all add: b' tenure new)
  moreover have "requests_ok b'" using req by (simp add: requests_ok_def b')
  moreover have "approvals_ok b'" using ap by (simp add: approvals_ok_def b')
  ultimately show ?thesis by (simp add: batch_ok_def flip: b'_def)
qed

section \<open>Reachable batches\<close>

text \<open>
  One transition of a batch and of the store its issuance cells live in. Runner authorisation
  leaves the batch as it is and may claim a cell, also when it fails.
\<close>

inductive batch_move :: "issuance_store \<times> tool_batch \<Rightarrow> issuance_store \<times> tool_batch \<Rightarrow> bool" where
  move_user: "prepare_user_decision b command continuation = Ok p \<Longrightarrow>
    batch_move (st, b) (st, bd_batch p)"
| move_closure: "prepare_lifecycle_closure_denial b command continuation = Ok p \<Longrightarrow>
    batch_move (st, b) (st, bd_batch p)"
| move_timeout: "prepare_approval_timeout b command continuation = Ok p \<Longrightarrow>
    batch_move (st, b) (st, bd_batch p)"
| move_delegate: "delegate_approval_try_new request model call recommendation rationale = Ok approval \<Longrightarrow>
    prepare_delegate_decision b approval continuation = Ok p \<Longrightarrow> batch_move (st, b) (st, dd_batch p)"
| move_authorize: "authorize_runner_attempt b attempt st = (r :: _ + unit runner_authorization, st') \<Longrightarrow>
    batch_move (st, b) (st', b)"
| move_resume: "resume_runner_attempt b attempt st = (r :: _ + unit runner_authorization, st') \<Longrightarrow>
    batch_move (st, b) (st', b)"
| move_reauthorize: "reauthorize_unclaimed_runner_attempt b attempt st =
      (Ok (b', authorization :: unit runner_authorization), st') \<Longrightarrow> batch_move (st, b) (st', b')"
| move_replace: "replace_claimed_attempt b claimed replacement st = (Ok rep, st') \<Longrightarrow>
    batch_move (st, b) (st', cr_batch rep)"

definition sound_batch :: "issuance_store \<times> tool_batch \<Rightarrow> bool" where
  "sound_batch s \<longleftrightarrow> (\<exists>preds. batch_ok (fst s) preds (snd s))"

lemma move_keeps_sound: "batch_move s s' \<Longrightarrow> sound_batch s \<Longrightarrow> sound_batch s'"
proof (induction rule: batch_move.induct)
  case (move_user b command continuation p st)
  then show ?case
    unfolding sound_batch_def prepare_user_decision_def
    by (auto dest: user_decision.decision_keeps_ok)
next
  case (move_closure b command continuation p st)
  then show ?case
    unfolding sound_batch_def prepare_lifecycle_closure_denial_def
    by (auto dest: closure_denial.decision_keeps_ok)
next
  case (move_timeout b command continuation p st)
  then show ?case
    unfolding sound_batch_def prepare_approval_timeout_def
    by (auto dest: timeout_denial.decision_keeps_ok)
next
  case (move_delegate request model call recommendation rationale approval b continuation p st)
  then show ?case unfolding sound_batch_def by (auto dest: delegate_keeps_ok)
next
  case (move_authorize b attempt st r st')
  then have "length st' = length st"
    by (auto simp: authorize_runner_attempt_def split: sum.splits dest: length_bind)
  then show ?case using move_authorize(2) unfolding sound_batch_def by (metis batch_ok_store eq_imp_le fst_conv snd_conv)
next
  case (move_resume b attempt st r st')
  then have "length st' = length st"
    by (auto simp: resume_runner_attempt_def split: sum.splits dest: length_bind)
  then show ?case using move_resume(2) unfolding sound_batch_def by (metis batch_ok_store eq_imp_le fst_conv snd_conv)
next
  case (move_reauthorize b attempt st b' authorization st')
  then show ?case unfolding sound_batch_def by (auto dest: reauthorize_keeps_ok)
next
  case (move_replace b claimed replacement st rep st')
  then show ?case unfolding sound_batch_def by (auto dest: replace_keeps_ok)
qed

lemma reachable_sound: "batch_move\<^sup>*\<^sup>* s s' \<Longrightarrow> sound_batch s \<Longrightarrow> sound_batch s'"
  by (induction rule: rtranclp_induct) (auto dest: move_keeps_sound)

lemma reconstituted_sound: "reconstitute_batch i st = (Ok b, st') \<Longrightarrow> sound_batch (st', b)"
  unfolding sound_batch_def by (auto dest: reconstituted_batch_ok)

lemmas reached_sound = reachable_sound [OF _ reconstituted_sound]

text \<open>
  C2. No transition leaves a batch that storage refuses: a batch reconstituted from stored facts
  and moved through any sequence of decisions, runner authorisations, reissues and replacements
  is accepted again from the facts storage keeps of it, and the batch restored is equal to it in
  the sense of \<^verbatim>\<open>PartialEq\<close>, runner-authorised attempts included.
\<close>

theorem batch_moves_storable:
  assumes "reconstitute_batch i st = (Ok b, st1)" and "batch_move\<^sup>*\<^sup>* (st1, b) (st2, b2)"
  shows "\<exists>preds b3 tail. reconstitute_batch (stored_batch st2 preds b2) st2 = (Ok b3, st2 @ tail) \<and>
    batch_eq (st2 @ tail) b2 b3"
  using reached_sound [OF assms(2,1)] well_formed_restored
  unfolding sound_batch_def by (metis fst_conv snd_conv)

text \<open>
  C5. Whatever a batch went through, a tool runs only with consent and one at a time: every attempt
  it holds belongs to one of its requests, which is admissible and whose resolution is an approval;
  at most one attempt is live; retired and held attempt identities are distinct; and a decision that
  must respect proposal order exists only when every earlier admissible request is decided.
\<close>

theorem attempts_only_when_approved:
  assumes "reconstitute_batch i st = (Ok b, st1)" and "batch_move\<^sup>*\<^sup>* (st1, b) (st2, b2)"
  shows "(\<forall>(q, a) \<in> set (tb_attempts b2). \<exists>r \<in> set (tb_requests b2). tr_id r = q \<and>
      tr_inadmissible_reason r = None \<and> (\<exists>approval. batch_approval b2 q = Some approval \<and>
        is_approved approval \<and> ar_request approval = q)) \<and>
    length (filter is_current (map snd (tb_attempts b2))) \<le> 1 \<and>
    distinct (tb_retired_attempts b2 @ map (\<lambda>(_, a). attempt_id a) (tb_attempts b2)) \<and>
    (\<forall>j k. j < k \<and> k < length (tb_requests b2) \<and>
      (\<exists>approval. batch_approval b2 (tr_id (tb_requests b2 ! k)) = Some approval \<and>
         requires_ordered_prefix (ar_source approval)) \<longrightarrow>
      tr_inadmissible_reason (tb_requests b2 ! j) \<noteq> None \<or>
      batch_approval b2 (tr_id (tb_requests b2 ! j)) \<noteq> None)"
    (is "?consent \<and> ?one \<and> ?ids \<and> ?order")
proof -
  obtain preds where ok: "batch_ok st2 preds b2"
    using reached_sound [OF assms(2,1)] by (auto simp: sound_batch_def)
  then have req: "requests_ok b2" and ap: "approvals_ok b2" and at: "attempts_ok preds b2"
    by (simp_all add: batch_ok_def)
  have ?consent
  proof clarify
    fix q a
    assume "(q, a) \<in> set (tb_attempts b2)"
    then have "approved_in (tb_approvals b2) q"
      using at by (auto simp: attempts_ok_def attempt_admitted_def)
    then obtain approval where get: "bt_get (tb_approvals b2) q = Some approval" "is_approved approval"
      by (auto simp: approved_in_def split: option.splits)
    then have "(q, approval) \<in> set (tb_approvals b2)"
      using bt_entry_iff [of "tb_approvals b2"] ap by (auto simp: approvals_ok_def)
    then have "ar_request approval = q" "admissible_target (tb_requests b2) q"
        "q \<in> tr_id ` set (tb_requests b2)"
      using ap by (auto simp: approvals_ok_def)
    with get show "\<exists>r \<in> set (tb_requests b2). tr_id r = q \<and> tr_inadmissible_reason r = None \<and>
        (\<exists>approval. batch_approval b2 q = Some approval \<and> is_approved approval \<and> ar_request approval = q)"
      by (auto simp: admissible_target_def list_ex_iff batch_approval_def)
  qed
  moreover have ?one using at by (simp add: attempts_ok_def)
  moreover have ?ids
    using at by (auto simp: attempts_ok_def batch_attempt_ids_def strict_sorted_iff)
  moreover have ?order
  proof (intro allI impI)
    fix j k
    assume "j < k \<and> k < length (tb_requests b2) \<and>
      (\<exists>approval. batch_approval b2 (tr_id (tb_requests b2 ! k)) = Some approval \<and>
         requires_ordered_prefix (ar_source approval))"
    moreover from this have "ordered_decision (tb_approvals b2) (tb_requests b2 ! k)"
      by (auto simp: ordered_decision_def batch_approval_def)
    ultimately have "\<not> is_undecided (tb_approvals b2) (tb_requests b2 ! j)"
      using ap decision_out_of_order_iff [of "tb_requests b2" "tb_approvals b2"]
      by (auto simp: approvals_ok_def sorted_wrt_iff_nth_less)
    then show "tr_inadmissible_reason (tb_requests b2 ! j) \<noteq> None \<or>
        batch_approval b2 (tr_id (tb_requests b2 ! j)) \<noteq> None"
      by (auto simp: is_undecided_def bt_contains_iff batch_approval_def)
  qed
  ultimately show ?thesis by blast
qed

section \<open>Deciding a batch to the end\<close>

definition undecided_requests :: "tool_batch \<Rightarrow> tool_request list" where
  "undecided_requests b = filter (is_undecided (tb_approvals b)) (tb_requests b)"

text \<open>One applied user command on the awaited request, with a continuation when it is the last one.\<close>

definition decides_awaited ::
  "(tool_request_id \<Rightarrow> decide_tool_request) \<Rightarrow> turn_attempt_id \<Rightarrow> tool_batch \<Rightarrow> tool_batch \<Rightarrow> bool" where
  "decides_awaited commands turn_attempt b b' \<longleftrightarrow>
     (\<exists>waiting continuation p applied. tb_phase b = Phase_AwaitingApproval waiting \<and>
        continuation \<in> {None, Some turn_attempt} \<and>
        prepare_user_decision b (commands waiting) continuation = Ok p \<and>
        pd_result (bd_prepared_command p) = Decide_Applied applied \<and> b' = bd_batch p)"

lemma undecided_insert:
  "is_undecided (bt_insert q a approvals) r \<longleftrightarrow> is_undecided approvals r \<and> tr_id r \<noteq> q"
  by (auto simp: is_undecided_def bt_contains_iff bt_get_insert)

lemma undecided_count:
  assumes "distinct (map tr_id rs)" and "find (is_undecided approvals) rs = Some r"
  shows "length (filter (is_undecided approvals) rs) =
    Suc (length (filter (is_undecided (bt_insert (tr_id r) a approvals)) rs))"
proof -
  define us where "us = filter (is_undecided approvals) rs"
  have "distinct (map tr_id us)" unfolding us_def using assms(1) by (rule distinct_map_filter)
  moreover have "r \<in> set us" using assms(2) by (auto simp: us_def find_Some_iff)
  ultimately have "length us = Suc (length (filter (\<lambda>x. tr_id x \<noteq> tr_id r) us))"
  proof (induction us)
    case (Cons u us)
    show ?case
    proof (cases "u = r")
      case True
      then have "filter (\<lambda>x. tr_id x \<noteq> tr_id r) us = us"
        using Cons.prems(1) by (auto simp: filter_id_conv) (metis image_eqI)
      then show ?thesis using True by simp
    next
      case False
      then have "tr_id u \<noteq> tr_id r" "r \<in> set us" using Cons.prems by (auto simp: rev_image_eqI)
      then show ?thesis using Cons by simp
    qed
  qed simp
  moreover have "filter (is_undecided (bt_insert (tr_id r) a approvals)) rs =
      filter (\<lambda>x. tr_id x \<noteq> tr_id r) us"
    unfolding us_def filter_filter by (rule filter_cong) (auto simp: undecided_insert)
  ultimately show ?thesis by (simp add: us_def)
qed

lemma find_filter: "find P xs = (case filter P xs of [] \<Rightarrow> None | x # _ \<Rightarrow> Some x)"
  by (induction xs) auto

lemma awaited_decided:
  assumes ok: "batch_ok st preds b" and waiting: "tb_phase b = Phase_AwaitingApproval waiting"
    and command: "dt_request (commands waiting) = waiting"
  obtains b' where "decides_awaited commands turn_attempt b b'" "batch_ok st [] b'"
    "Suc (length (undecided_requests b')) = length (undecided_requests b)"
    "tb_requests b' = tb_requests b"
    "\<And>q. bt_get (tb_approvals b') q = (if q = waiting
       then Some (resolution_user (dt_command_id (commands waiting)) waiting (dt_decision (commands waiting)))
       else bt_get (tb_approvals b) q)"
    "tb_phase b' = (case undecided_requests b' of
       [] \<Rightarrow> Phase_Executing turn_attempt | r # _ \<Rightarrow> Phase_AwaitingApproval (tr_id r))"
proof -
  let ?c = "commands waiting"
  let ?a = "resolution_user (dt_command_id ?c) waiting (dt_decision ?c)"
  let ?ap = "bt_insert waiting ?a (tb_approvals b)"
  from awaiting_batch(2) [OF ok waiting] obtain r where
    r: "find (is_undecided (tb_approvals b)) (tb_requests b) = Some r" "tr_id r = waiting"
    by (auto simp: earliest_undecided_alt)
  have req: "distinct (map tr_id (tb_requests b))" using ok by (simp add: batch_ok_def requests_ok_def)
  have mem: "r \<in> set (tb_requests b)" "is_undecided (tb_approvals b) r"
    using r(1) by (auto simp: find_Some_iff)
  have found: "find (\<lambda>c. tr_id c = waiting) (tb_requests b) = Some r"
  proof -
    have "find (\<lambda>c. tr_id c = waiting) rs = Some r" if "distinct (map tr_id rs)" "r \<in> set rs" for rs
      using that r(2) by (induction rs) (auto simp: rev_image_eqI)
    then show ?thesis using req mem(1) by blast
  qed
  define continuation where "continuation =
      (case earliest_undecided (tb_requests b) ?ap of None \<Rightarrow> Some turn_attempt | Some _ \<Rightarrow> None)"
  define phase where "phase = (case earliest_undecided (tb_requests b) ?ap of
      None \<Rightarrow> Phase_Executing turn_attempt | Some q \<Rightarrow> Phase_AwaitingApproval q)"
  define b' where "b' = b\<lparr>tb_approvals := ?ap, tb_phase := phase\<rparr>"
  obtain active where succ:
    "successor_phase (earliest_undecided (tb_requests b) ?ap) continuation = Some (phase, active)"
    by (cases "earliest_undecided (tb_requests b) ?ap") (auto simp: continuation_def phase_def)
  have applied: "prepare_user_decision b ?c continuation =
      Ok \<lparr>bd_batch = b', bd_prepared_command = \<lparr>pd_command = ?c, pd_result = Decide_Applied ?a\<rparr>,
          bd_active_phase = active\<rparr>"
    using waiting found mem(2) awaiting_batch(2) [OF ok waiting] succ r(2)
    by (simp add: prepare_user_decision_def prepare_decision_def prepare_applied_def command b'_def
        is_undecided_def)
  have "continuation \<in> {None, Some turn_attempt}"
    by (auto simp: continuation_def split: option.splits)
  then have steps: "decides_awaited commands turn_attempt b b'"
    unfolding decides_awaited_def using waiting applied by fastforce
  have count: "Suc (length (undecided_requests b')) = length (undecided_requests b)"
    using undecided_count [OF req r(1), of ?a] r(2) by (simp add: undecided_requests_def b'_def)
  have ok': "batch_ok st [] b'"
    using decided_batch_ok [OF ok awaiting_batch(1) [OF ok waiting] r(1), of ?a continuation phase active]
      succ r(2)
    by (simp add: b'_def resolution_user_def)
  have "tb_phase b' = (case undecided_requests b' of
       [] \<Rightarrow> Phase_Executing turn_attempt | r # _ \<Rightarrow> Phase_AwaitingApproval (tr_id r))"
    unfolding undecided_requests_def
    by (simp add: b'_def phase_def earliest_undecided_alt find_filter split: list.splits)
  then show thesis
    using that [OF steps ok' count] by (simp add: b'_def bt_get_insert)
qed

lemma decided_to_the_end:
  assumes "batch_ok st preds b" and "\<forall>q. dt_request (commands q) = q"
    and "tb_phase b = (case undecided_requests b of
       [] \<Rightarrow> Phase_Executing turn_attempt | r # _ \<Rightarrow> Phase_AwaitingApproval (tr_id r))"
  shows "\<exists>b'. (decides_awaited commands turn_attempt ^^ length (undecided_requests b)) b b' \<and>
    tb_phase b' = Phase_Executing turn_attempt \<and> undecided_requests b' = [] \<and>
    tb_requests b' = tb_requests b \<and>
    (\<forall>r \<in> set (tb_requests b). bt_get (tb_approvals b') (tr_id r) =
      (if is_undecided (tb_approvals b) r
       then Some (resolution_user (dt_command_id (commands (tr_id r))) (tr_id r)
              (dt_decision (commands (tr_id r))))
       else bt_get (tb_approvals b) (tr_id r)))"
  using assms
proof (induction "length (undecided_requests b)" arbitrary: b preds)
  case 0
  then have "\<forall>r \<in> set (tb_requests b). \<not> is_undecided (tb_approvals b) r"
    by (simp add: undecided_requests_def filter_empty_conv)
  with 0 show ?case by auto
next
  case (Suc n)
  then obtain w ws where us: "undecided_requests b = w # ws"
    by (cases "undecided_requests b") auto
  then have waiting: "tb_phase b = Phase_AwaitingApproval (tr_id w)" using Suc.prems(3) by simp
  have undecided: "w \<in> set (tb_requests b)" "is_undecided (tb_approvals b) w"
    using us by (auto simp: undecided_requests_def filter_eq_Cons_iff)
  have unique: "r = w" if "r \<in> set (tb_requests b)" "tr_id r = tr_id w" for r
    using requests_unique [of b r w] that undecided(1) Suc.prems(1) by (simp add: batch_ok_def)
  obtain b1 where b1: "decides_awaited commands turn_attempt b b1" "batch_ok st [] b1"
    "Suc (length (undecided_requests b1)) = length (undecided_requests b)"
    "tb_requests b1 = tb_requests b"
    "\<And>q. bt_get (tb_approvals b1) q = (if q = tr_id w
       then Some (resolution_user (dt_command_id (commands (tr_id w))) (tr_id w)
              (dt_decision (commands (tr_id w))))
       else bt_get (tb_approvals b) q)"
    "tb_phase b1 = (case undecided_requests b1 of
       [] \<Rightarrow> Phase_Executing turn_attempt | r # _ \<Rightarrow> Phase_AwaitingApproval (tr_id r))"
    using awaited_decided [OF Suc.prems(1) waiting, of commands turn_attempt] Suc.prems(2) by auto
  have later: "is_undecided (tb_approvals b1) r \<longleftrightarrow> is_undecided (tb_approvals b) r \<and> tr_id r \<noteq> tr_id w" for r
    by (auto simp: is_undecided_def bt_contains_iff domIff b1(5) split: if_splits)
  have n: "n = length (undecided_requests b1)" using Suc.hyps(2) b1(3) by simp
  obtain b' where b': "(decides_awaited commands turn_attempt ^^ n) b1 b'"
    "tb_phase b' = Phase_Executing turn_attempt" "undecided_requests b' = []"
    "tb_requests b' = tb_requests b1"
    "\<forall>r \<in> set (tb_requests b). bt_get (tb_approvals b') (tr_id r) =
      (if is_undecided (tb_approvals b1) r
       then Some (resolution_user (dt_command_id (commands (tr_id r))) (tr_id r)
              (dt_decision (commands (tr_id r))))
       else bt_get (tb_approvals b1) (tr_id r))"
    using Suc.hyps(1) [OF n b1(2) Suc.prems(2) b1(6)] unfolding n b1(4) by blast
  have "(decides_awaited commands turn_attempt ^^ length (undecided_requests b)) b b'"
    unfolding Suc.hyps(2) [symmetric] by (rule relpowp_Suc_I2 [of _ _ b1]) (rule b1(1), rule b'(1))
  moreover have "bt_get (tb_approvals b') (tr_id r) =
      (if is_undecided (tb_approvals b) r
       then Some (resolution_user (dt_command_id (commands (tr_id r))) (tr_id r)
              (dt_decision (commands (tr_id r))))
       else bt_get (tb_approvals b) (tr_id r))" if "r \<in> set (tb_requests b)" for r
    using b'(5) that unique [OF that] undecided(2) by (auto simp: later b1(5))
  ultimately show ?case using b'(2,3,4) b1(4) by auto
qed

lemma awaiting_phase:
  assumes "batch_ok st preds b" and "tb_phase b = Phase_AwaitingApproval waiting"
  shows "tb_phase b = (case undecided_requests b of
       [] \<Rightarrow> Phase_Executing turn_attempt | r # _ \<Rightarrow> Phase_AwaitingApproval (tr_id r))"
  using awaiting_batch(2) [OF assms] assms(2)
  by (auto simp: earliest_undecided_alt find_filter undecided_requests_def split: list.splits)

text \<open>
  C6. A batch that waits for approval never gets stuck: whatever it went through, answering the
  awaited request with a user command, whatever the command decides, is applied, and after exactly
  as many commands as there were undecided requests the batch executes under the supplied turn
  attempt, with every request that was open resolved by its command and every earlier resolution
  kept.
\<close>

theorem batch_decisions_finish:
  assumes "reconstitute_batch i st = (Ok b, st1)" and "batch_move\<^sup>*\<^sup>* (st1, b) (st2, b2)"
    and "tb_phase b2 = Phase_AwaitingApproval waiting" and "\<forall>q. dt_request (commands q) = q"
  shows "\<exists>b3. (decides_awaited commands turn_attempt ^^ length (undecided_requests b2)) b2 b3 \<and>
    tb_phase b3 = Phase_Executing turn_attempt \<and> undecided_requests b3 = [] \<and>
    tb_requests b3 = tb_requests b2 \<and>
    (\<forall>r \<in> set (tb_requests b2). batch_approval b3 (tr_id r) =
      (if is_undecided (tb_approvals b2) r
       then Some (resolution_user (dt_command_id (commands (tr_id r))) (tr_id r)
              (dt_decision (commands (tr_id r))))
       else batch_approval b2 (tr_id r)))"
proof -
  obtain preds where ok: "batch_ok st2 preds b2"
    using reached_sound [OF assms(2,1)] by (auto simp: sound_batch_def)
  show ?thesis
    unfolding batch_approval_def
    by (rule decided_to_the_end [OF ok assms(4) awaiting_phase [OF ok assms(3)]])
qed

section \<open>What a batch never forgets\<close>

text \<open>The history a later batch must extend: decisions and attempt identities.\<close>

definition batch_extends :: "tool_batch \<Rightarrow> tool_batch \<Rightarrow> bool" where
  "batch_extends b b' \<longleftrightarrow>
     tb_session b' = tb_session b \<and> tb_turn b' = tb_turn b \<and> tb_requests b' = tb_requests b \<and>
     tb_producing_call b' = tb_producing_call b \<and> tb_yielded_snapshot b' = tb_yielded_snapshot b \<and>
     (\<forall>q a. batch_approval b q = Some a \<longrightarrow> batch_approval b' q = Some a) \<and>
     set (tb_retired_attempts b) \<subseteq> set (tb_retired_attempts b') \<and>
     set (batch_attempt_ids b) \<subseteq> set (tb_retired_attempts b') \<union> set (batch_attempt_ids b')"

lemma batch_extends_refl: "batch_extends b b"
  by (simp add: batch_extends_def)

lemma batch_extends_trans: "batch_extends a b \<Longrightarrow> batch_extends b c \<Longrightarrow> batch_extends a c"
  unfolding batch_extends_def by (auto 0 4)

lemma decided_extends:
  "bt_get (tb_approvals b) q = None \<Longrightarrow>
   batch_extends b (b\<lparr>tb_approvals := bt_insert q a (tb_approvals b), tb_phase := phase\<rparr>)"
  by (auto simp: batch_extends_def batch_approval_def bt_get_insert batch_attempt_ids_def)

context decision_source
begin

lemma decision_extends:
  assumes "prepare_decision prepare b command continuation = Ok p"
  shows "batch_extends b (bd_batch p)"
proof -
  from assms obtain waiting where waiting: "tb_phase b = Phase_AwaitingApproval waiting"
    by (auto simp: prepare_decision_def split: tool_batch_phase.splits)
  from waiting assms show ?thesis
  proof (cases rule: decision_outcome)
    case (rejected reason)
    then show ?thesis by (simp add: decision_rejected_def batch_extends_refl)
  next
    case (applied r a phase active)
    then have "bt_get (tb_approvals b) (tr_id r) = None"
      by (auto simp: find_Some_iff is_undecided_def bt_contains_iff)
    then show ?thesis unfolding applied(7) by (rule decided_extends)
  qed
qed

end

lemma delegate_extends:
  assumes "prepare_delegate_decision b approval continuation = Ok p"
  shows "batch_extends b (dd_batch p)"
proof -
  have "bt_get (tb_approvals b) (da_request approval) = None"
    using assms
    by (auto simp: prepare_delegate_decision_def bt_contains_iff
        split: tool_batch_phase.splits option.splits if_splits)
  then show ?thesis
    using assms
    by (auto simp: prepare_delegate_decision_def Let_def intro: batch_extends_refl decided_extends
        split: tool_batch_phase.splits option.splits if_splits)
qed

lemma replace_extends:
  assumes ok: "bt_ok (tb_attempts b)"
    and r: "replace_claimed_attempt b claimed replacement st = (Ok rep, st')"
  shows "batch_extends b (cr_batch rep)"
proof -
  from r obtain q current and authorized :: authorized_tool_attempt where
    rep: "cr_batch rep = b
        \<lparr>tb_runner_issuance := bt_insert replacement (length st) (tb_runner_issuance b),
         tb_retired_attempts := bs_insert claimed (tb_retired_attempts b),
         tb_attempts := bt_insert q (Current (au_attempt authorized)) (tb_attempts b)\<rparr>"
    and held: "(q, Current current) \<in> set (tb_attempts b)" "ca_attempt current = claimed"
    by (elim replace_OkE) blast
  have "attempt_id a \<in> insert claimed (set (batch_attempt_ids (cr_batch rep)))"
    if "(k, a) \<in> set (tb_attempts b)" for k a
  proof (cases "k = q")
    case True
    then have "bt_get (tb_attempts b) q = Some a" "bt_get (tb_attempts b) q = Some (Current current)"
      using bt_entry_iff [OF ok] that held(1) by auto
    then show ?thesis using held(2) by auto
  next
    case False
    then have "(k, a) \<in> set (tb_attempts (cr_batch rep))"
      using that by (simp add: rep set_bt_insert [OF ok])
    then show ?thesis by (force simp: batch_attempt_ids_def)
  qed
  then have "set (batch_attempt_ids b) \<subseteq> insert claimed (set (batch_attempt_ids (cr_batch rep)))"
    by (auto simp: batch_attempt_ids_def [of b])
  then show ?thesis by (auto simp: batch_extends_def rep batch_approval_def)
qed

lemma move_extends:
  assumes "batch_move s s'" and "sound_batch s"
  shows "batch_extends (snd s) (snd s')"
  using assms
proof (cases rule: batch_move.cases)
  case (move_user b command continuation p st)
  then show ?thesis by (simp add: prepare_user_decision_def user_decision.decision_extends)
next
  case (move_closure b command continuation p st)
  then show ?thesis by (simp add: prepare_lifecycle_closure_denial_def closure_denial.decision_extends)
next
  case (move_timeout b command continuation p st)
  then show ?thesis by (simp add: prepare_approval_timeout_def timeout_denial.decision_extends)
next
  case (move_delegate request model call recommendation rationale approval b continuation p st)
  then show ?thesis by (simp add: delegate_extends)
next
  case (move_reauthorize b attempt st b' authorization st')
  then show ?thesis
    by (auto simp: reauthorize_unclaimed_runner_attempt_def new_cell_def Let_def batch_extends_def
        batch_approval_def batch_attempt_ids_def
        split: if_splits option.splits prod.splits bool.splits sum.splits)
next
  case (move_replace b claimed replacement st rep st')
  with assms(2) show ?thesis
    by (auto simp: sound_batch_def batch_ok_def attempts_ok_def intro: replace_extends)
qed (auto simp: batch_extends_refl)

text \<open>
  C34. A batch never forgets: along any sequence of transitions its owner, requests and yielded
  snapshot stay, a recorded decision is never changed or dropped, a retired attempt stays retired,
  and an attempt once held is either still held or retired, so that its identity cannot be used
  again.
\<close>

theorem batch_history_kept:
  assumes "reconstitute_batch i st = (Ok b, st1)" and "batch_move\<^sup>*\<^sup>* (st1, b) (st2, b2)"
    and "batch_move\<^sup>*\<^sup>* (st2, b2) (st3, b3)"
  shows "batch_extends b2 b3"
proof -
  have "batch_extends (snd s) (snd s') \<and> sound_batch s'"
    if "batch_move\<^sup>*\<^sup>* s s'" and "sound_batch s" for s s'
    using that
  proof (induction rule: rtranclp_induct)
    case (step y z)
    then have y: "batch_extends (snd s) (snd y)" "sound_batch y" by simp_all
    show ?case
      using batch_extends_trans [OF y(1) move_extends [OF step(2) y(2)]] move_keeps_sound [OF step(2) y(2)]
      by simp
  qed (simp add: batch_extends_refl)
  from this [OF assms(3) reached_sound [OF assms(2,1)]] show ?thesis by simp
qed

section \<open>Sample batches\<close>

definition sample_request :: "128 word \<Rightarrow> tool_request_ordinal \<Rightarrow> tool_request" where
  "sample_request n ordinal =
     request_input_new (Ident n) (Ident 1) (Ident 3) (Ident 4) ordinal (ToolName [0x61])
       \<lparr>args_kind = Args_Json, args_value = [0x7B, 0x7D]\<rparr>"

definition sample_awaiting :: tool_batch_input where
  "sample_awaiting = batch_input_new (Ident 1) (Ident 3) (Ident 4) sample_snapshot
     [sample_request 21 0, sample_request 22 1] [] [] (Phase_AwaitingApproval (Ident 21))"

definition sample_awaiting_batch :: tool_batch where
  "sample_awaiting_batch = \<lparr>tb_session = Ident 1, tb_turn = Ident 3, tb_producing_call = Ident 4,
     tb_yielded_snapshot = sample_snapshot, tb_requests = [sample_request 21 0, sample_request 22 1],
     tb_approvals = [], tb_attempts = [], tb_retired_attempts = [], tb_runner_issuance = [],
     tb_phase = Phase_AwaitingApproval (Ident 21)\<rparr>"

definition sample_decided_batch :: tool_batch where
  "sample_decided_batch = sample_awaiting_batch
     \<lparr>tb_approvals := [(Ident 21, resolution_user (Ident 9) (Ident 21) Approve)],
      tb_phase := Phase_AwaitingApproval (Ident 22)\<rparr>"

definition sample_live :: "128 word \<Rightarrow> reconstituted_tool_attempt" where
  "sample_live n = Current \<lparr>ca_attempt = Ident n, ca_request = Ident 21, ca_session = Ident 1,
     ca_turn = Ident 3, ca_issuing_attempt = Ident 7, ca_effect_class = EffectFree,
     ca_generation = 1, ca_state = Attempt_InFlight\<rparr>"

definition sample_executing :: tool_batch_input where
  "sample_executing = batch_input_new (Ident 1) (Ident 3) (Ident 4) sample_snapshot
     [sample_request 21 0, sample_request 22 1]
     [resolution_policy_auto (Ident 21), resolution_policy_auto (Ident 22)]
     [sample_live 31] (Phase_Executing (Ident 7))"

definition sample_executing_batch :: tool_batch where
  "sample_executing_batch = \<lparr>tb_session = Ident 1, tb_turn = Ident 3, tb_producing_call = Ident 4,
     tb_yielded_snapshot = sample_snapshot, tb_requests = [sample_request 21 0, sample_request 22 1],
     tb_approvals = [(Ident 21, resolution_policy_auto (Ident 21)),
       (Ident 22, resolution_policy_auto (Ident 22))],
     tb_attempts = [(Ident 21, sample_live 31)], tb_retired_attempts = [],
     tb_runner_issuance = [(Ident 31, 0)], tb_phase = Phase_Executing (Ident 7)\<rparr>"

definition sample_replaced_batch :: tool_batch where
  "sample_replaced_batch = sample_executing_batch
     \<lparr>tb_attempts := [(Ident 21, sample_live 32)], tb_retired_attempts := [Ident 31],
      tb_runner_issuance := [(Ident 31, 0), (Ident 32, 1)]\<rparr>"

lemmas sample_defs = sample_request_def request_input_new_def batch_input_new_def sample_awaiting_def
  sample_executing_def sample_snapshot_def sample_awaiting_batch_def sample_executing_batch_def
  sample_decided_batch_def sample_replaced_batch_def sample_live_def ordinal_try_from_usize_def

lemmas reconstitution_defs = reconstitute_batch_def delegate_without_posture_def
  decision_out_of_order_def is_undecided_def check_phase_def earliest_undecided_def ambiguous_attempts_def
  child_waits_def last_of_def position_of_def approved_in_def expected_issuing_attempt_def
  attempt_issuing_def bt_contains_def sort_key_def List.map_filter_simps is_approved_def new_cell_def

lemma sample_awaiting_restored:
  "reconstitute_batch sample_awaiting [] = (Ok sample_awaiting_batch, [])"
  by (simp add: sample_defs reconstitution_defs Let_def)

lemma sample_executing_restored:
  "reconstitute_batch sample_executing [] = (Ok sample_executing_batch, [runner_issuance_available])"
  by (simp add: sample_defs reconstitution_defs Let_def resolution_policy_auto_def)

lemma sample_decision:
  "batch_move ([], sample_awaiting_batch) ([], sample_decided_batch)"
proof -
  have "prepare_user_decision sample_awaiting_batch
      \<lparr>dt_command_id = Ident 9, dt_request = Ident 21, dt_decision = Approve\<rparr> None =
    Ok \<lparr>bd_batch = sample_decided_batch, bd_prepared_command =
         \<lparr>pd_command = \<lparr>dt_command_id = Ident 9, dt_request = Ident 21, dt_decision = Approve\<rparr>,
          pd_result = Decide_Applied (resolution_user (Ident 9) (Ident 21) Approve)\<rparr>,
        bd_active_phase = Active_AwaitingApproval (Ident 22)\<rparr>"
    by (simp add: sample_defs prepare_user_decision_def prepare_decision_def prepare_applied_def
        earliest_undecided_def bt_contains_def Let_def)
  from move_user [OF this, of "[]"] show ?thesis by simp
qed

lemma sample_replacement:
  "batch_move ([runner_issuance_available], sample_executing_batch)
     ([runner_issuance_available, runner_issuance_available], sample_replaced_batch)"
proof -
  have "\<exists>rep. replace_claimed_attempt sample_executing_batch (Ident 31) (Ident 32)
        [runner_issuance_available] =
      (Ok rep, [runner_issuance_available, runner_issuance_available]) \<and>
      cr_batch rep = sample_replaced_batch"
    by (simp add: sample_defs replace_claimed_attempt_def identity_in_use_def find_in_flight_def
        try_from_resolution_def resolution_policy_auto_def new_cell_def Let_def
        prepare_attempt_def authorize_with_runner_issuance_def classify_crash_loss_def end_attempt_def
        dispatch_generation_first_def is_approved_def)
  then show ?thesis using move_replace by metis
qed

lemmas sample_runs = sample_decision [THEN r_into_rtranclp [of batch_move]]
  sample_replacement [THEN r_into_rtranclp [of batch_move]]

theorem batch_moves_storable_witness:
  "\<exists>preds b3 tail. reconstitute_batch (stored_batch [] preds sample_decided_batch) [] =
      (Ok b3, [] @ tail) \<and> batch_eq ([] @ tail) sample_decided_batch b3"
  by (rule batch_moves_storable [OF sample_awaiting_restored sample_runs(1)])

theorem attempts_only_when_approved_witness:
  "distinct (tb_retired_attempts sample_replaced_batch @
     map (\<lambda>(_, a). attempt_id a) (tb_attempts sample_replaced_batch))"
  using attempts_only_when_approved [OF sample_executing_restored sample_runs(2)] by (elim conjE)

theorem batch_decisions_finish_witness:
  "\<exists>b3. (decides_awaited (\<lambda>q. \<lparr>dt_command_id = Ident 9, dt_request = q, dt_decision = Deny None\<rparr>)
      (Ident 7) ^^ 2) sample_awaiting_batch b3 \<and> tb_phase b3 = Phase_Executing (Ident 7)"
proof -
  have "tb_phase sample_awaiting_batch = Phase_AwaitingApproval (Ident 21)"
    by (simp add: sample_awaiting_batch_def)
  moreover have "length (undecided_requests sample_awaiting_batch) = 2"
    by (simp add: sample_defs undecided_requests_def is_undecided_def bt_contains_def)
  ultimately show ?thesis
    using batch_decisions_finish [OF sample_awaiting_restored rtranclp.rtrancl_refl, of "Ident 21"
        "\<lambda>q. \<lparr>dt_command_id = Ident 9, dt_request = q, dt_decision = Deny None\<rparr>" "Ident 7"]
    by auto
qed

theorem batch_history_kept_witness:
  "batch_extends sample_executing_batch sample_replaced_batch"
  by (rule batch_history_kept [OF sample_executing_restored rtranclp.rtrancl_refl sample_runs(2)])

end
