(* ===== verification/Tool_Projection.thy ===== *)
theory Tool_Projection
  imports Tool_Batch_Moves
begin

text \<open>
  The transcript entries a tool batch leaves behind, \<^verbatim>\<open>tool_execution/batch/projection.rs\<close> with the
  prepared projection of \<^verbatim>\<open>batch.rs\<close>, the entries of \<^verbatim>\<open>semantic_entry.rs\<close> and the placement
  boundary of \<^verbatim>\<open>runner/recovery.rs\<close>. A batch is projected when it continues, fails, is
  interrupted or needs reconciliation; each projection has one entry per request in proposal
  order and extends the yielded frontier by exactly those entries.
\<close>

section \<open>Transcript entries\<close>

datatype imported_entry_tag = ImportedEntryTag
datatype delegation_message_tag = DelegationMessageTag

datatype delegation_wait_mode = Wait_Foreground | Wait_Background

record context_compaction_range =
  range_first :: entry_ref
  range_through :: entry_ref

text \<open>
  The payloads. \<open>'imported\<close> stands for the attested speaker and content of an imported entry,
  \<open>'selection\<close> for a direct model selection and \<open>'outcome\<close> for a validated delegation outcome;
  the projections carry these values without looking at them.
\<close>

datatype ('imported, 'selection, 'outcome) semantic_payload =
    RunnerPlacementChanged runner_generation
  | Imported "imported_entry_tag ident" 'imported
  | OriginAcceptedInput accepted_input_id
  | SteeringAcceptedInput accepted_input_id turn_id
  | DelegatedTask tool_request_id session_id turn_id rust_string
  | DelegationMessage tool_request_id "delegation_message_tag ident" session_id session_id u64 rust_string
  | DelegationResult tool_request_id tool_request_id session_id delegation_wait_mode "u64 option" 'outcome
  | ModelIdentityChanged turn_id u64 'selection
  | ContextSummary model_call_id context_compaction_range rust_string
  | TurnFailed turn_id
  | AssistantText model_call_id rust_string
  | ProviderCompaction model_call_id rust_string
  | ProviderReasoning model_call_id rust_string
  | AssistantToolUse model_call_id tool_request_id
  | ToolExecutionResult tool_attempt_id
  | ToolDenied tool_request_id
  | ToolInadmissible tool_request_id
  | ToolClosed tool_request_id
  | TurnCompleted turn_id
  | TurnCancelled turn_id

record ('imported, 'selection, 'outcome) semantic_entry =
  se_identity :: semantic_transcript_entry_id
  se_source_session :: session_id
  se_payload :: "('imported, 'selection, 'outcome) semantic_payload"

definition entry_reference :: "('i, 's, 'o) semantic_entry \<Rightarrow> entry_ref" where
  "entry_reference e = SemanticTranscriptEntryRef (se_source_session e) (se_identity e)"

section \<open>Prepared projections\<close>

record ('imported, 'selection, 'outcome) prepared_projection =
  pp_source_frontier :: context_frontier_id
  pp_turn :: turn_id
  pp_producing_call :: model_call_id
  pp_entries :: "('imported, 'selection, 'outcome) semantic_entry list"
  pp_snapshot :: resolved_snapshot

datatype projection_failure =
    Projection_BatchNotResolved
  | Projection_TurnLevelFailure
  | Projection_EntryIdentityReuse
  | Projection_FrontierDerivationFailed

fun is_boundary_payload :: "('i, 's, 'o) semantic_payload \<Rightarrow> bool" where
  "is_boundary_payload (ContextSummary _ _ _) = True"
| "is_boundary_payload (RunnerPlacementChanged _) = True"
| "is_boundary_payload _ = False"

definition with_context_boundary ::
  "('i, 's, 'o) prepared_projection \<Rightarrow> ('i, 's, 'o) semantic_entry \<Rightarrow> resolved_snapshot
     \<Rightarrow> projection_failure + ('i, 's, 'o) prepared_projection" where
  "with_context_boundary p entry snap =
     (if \<not> is_boundary_payload (se_payload entry) \<or>
         \<not> is_semantic_prefix_of (pp_snapshot p) snap \<or>
         entry_count snap \<noteq> entry_count (pp_snapshot p) + 1 \<or>
         last_of (ordered_entries snap) \<noteq> Some (entry_reference entry)
      then Err Projection_FrontierDerivationFailed
      else Ok (p\<lparr>pp_entries := pp_entries p @ [entry], pp_snapshot := snap\<rparr>))"

record ('imported, 'selection, 'outcome) placement_boundary =
  pb_entry :: "('imported, 'selection, 'outcome) semantic_entry"
  pb_frontier :: resolved_snapshot

definition prepare_revision ::
  "content_token \<Rightarrow> session_id \<Rightarrow> runner_generation \<Rightarrow> runner_generation
     \<Rightarrow> semantic_transcript_entry_id \<Rightarrow> context_frontier_id \<Rightarrow> resolved_snapshot option
     \<Rightarrow> runner_domain_error + ('i, 's, 'o) placement_boundary" where
  "prepare_revision fresh session prior_revision replacement_revision identity frontier prior =
     (if generation_checked_next prior_revision \<noteq> Some replacement_revision \<or>
         (case prior of None \<Rightarrow> False | Some s \<Rightarrow> owning_session (rs_frontier s) \<noteq> session)
      then Err Runner_CorrelationMismatch
      else let entry = \<lparr>se_identity = identity, se_source_session = session,
                        se_payload = RunnerPlacementChanged replacement_revision\<rparr> in
        case prior of
          Some s \<Rightarrow>
            (case derive_appending_candidate fresh s frontier [entry_reference entry] of
               Err _ \<Rightarrow> Err Runner_InvalidState
             | Ok snap \<Rightarrow> Ok \<lparr>pb_entry = entry, pb_frontier = snap\<rparr>)
        | None \<Rightarrow>
            (case try_from_candidate fresh session frontier [entry_reference entry] of
               Err _ \<Rightarrow> Err Runner_InvalidState
             | Ok snap \<Rightarrow> Ok \<lparr>pb_entry = entry, pb_frontier = snap\<rparr>))"

definition with_runner_placement_boundary ::
  "('i, 's, 'o) prepared_projection \<Rightarrow> ('i, 's, 'o) placement_boundary
     \<Rightarrow> runner_domain_error + ('i, 's, 'o) prepared_projection" where
  "with_runner_placement_boundary p boundary =
     (if \<not> is_semantic_prefix_of (pp_snapshot p) (pb_frontier boundary) \<or>
         entry_count (pb_frontier boundary) \<noteq> entry_count (pp_snapshot p) + 1
      then Err Runner_CorrelationMismatch
      else Ok (p\<lparr>pp_entries := pp_entries p @ [pb_entry boundary],
                 pp_snapshot := pb_frontier boundary\<rparr>))"

section \<open>The payload of one request\<close>

text \<open>
  The three loops differ in the payload they give to a request; each may consume the outcome
  delivered for an awaiting request.
\<close>

type_synonym 'o outcomes = "(tool_request_id \<times> 'o) list"

fun is_denial :: "tool_approval_decision \<Rightarrow> bool" where
  "is_denial (Deny _) = True"
| "is_denial Approve = False"

definition delegation_result ::
  "tool_request \<Rightarrow> tool_request_id \<Rightarrow> session_id \<Rightarrow> 'o \<Rightarrow> ('i, 's, 'o) semantic_payload" where
  "delegation_result request spawning child outcome =
     DelegationResult (tr_id request) spawning child Wait_Foreground None outcome"

definition result_payload ::
  "tool_batch \<Rightarrow> tool_request \<Rightarrow> 'o outcomes
     \<Rightarrow> projection_failure + ('i, 's, 'o) semantic_payload \<times> 'o outcomes" where
  "result_payload b request outcomes =
     (if tr_inadmissible_reason request \<noteq> None then Ok (ToolInadmissible (tr_id request), outcomes)
      else case bt_get (tb_approvals b) (tr_id request) of
        None \<Rightarrow> Err Projection_BatchNotResolved
      | Some resolution \<Rightarrow>
          if is_denial (ar_decision resolution) then Ok (ToolDenied (tr_id request), outcomes)
          else if is_approved resolution
          then (case bt_get (tb_attempts b) (tr_id request) of
                  Some (Ended attempt) \<Rightarrow>
                    (case ea_end attempt of
                       End_Completed _ \<Rightarrow> Ok (ToolExecutionResult (ea_attempt attempt), outcomes)
                     | End_KnownFailed error \<Rightarrow>
                         if te_kind error \<noteq> Error_CrashLost
                         then Ok (ToolExecutionResult (ea_attempt attempt), outcomes)
                         else Err Projection_TurnLevelFailure
                     | End_AwaitingChild spawning child \<Rightarrow>
                         (case bt_get outcomes (tr_id request) of
                            None \<Rightarrow> Err Projection_BatchNotResolved
                          | Some outcome \<Rightarrow> Ok (delegation_result request spawning child outcome,
                              bt_remove (tr_id request) outcomes))
                     | End_Ambiguous \<Rightarrow> Err Projection_TurnLevelFailure)
                | _ \<Rightarrow> Err Projection_BatchNotResolved)
          else Err Projection_BatchNotResolved)"

definition closure_payload ::
  "tool_batch \<Rightarrow> tool_request \<Rightarrow> 'o outcomes
     \<Rightarrow> projection_failure + ('i, 's, 'o) semantic_payload \<times> 'o outcomes" where
  "closure_payload b request outcomes =
     (if tr_inadmissible_reason request \<noteq> None then Ok (ToolInadmissible (tr_id request), outcomes)
      else case bt_get (tb_approvals b) (tr_id request) of
        None \<Rightarrow> Ok (ToolClosed (tr_id request), outcomes)
      | Some resolution \<Rightarrow>
          if is_denial (ar_decision resolution) then Ok (ToolDenied (tr_id request), outcomes)
          else if is_approved resolution
          then (case bt_get (tb_attempts b) (tr_id request) of
                  Some (Ended attempt) \<Rightarrow>
                    (case ea_end attempt of
                       End_Completed _ \<Rightarrow> Ok (ToolExecutionResult (ea_attempt attempt), outcomes)
                     | End_KnownFailed _ \<Rightarrow> Ok (ToolExecutionResult (ea_attempt attempt), outcomes)
                     | End_AwaitingChild spawning child \<Rightarrow>
                         (case bt_get outcomes (tr_id request) of
                            Some outcome \<Rightarrow> Ok (delegation_result request spawning child outcome,
                              bt_remove (tr_id request) outcomes)
                          | None \<Rightarrow> Ok (ToolClosed (tr_id request), outcomes))
                     | End_Ambiguous \<Rightarrow> Err Projection_TurnLevelFailure)
                | Some (Current _) \<Rightarrow> Err Projection_BatchNotResolved
                | None \<Rightarrow> Ok (ToolClosed (tr_id request), outcomes))
          else Ok (ToolClosed (tr_id request), outcomes))"


section \<open>Projections\<close>

text \<open>The loop over requests and entry identities.\<close>

fun project_entries ::
  "(tool_request \<Rightarrow> 'o outcomes \<Rightarrow> projection_failure + ('i, 's, 'o) semantic_payload \<times> 'o outcomes)
     \<Rightarrow> session_id \<Rightarrow> 'o outcomes \<Rightarrow> (tool_request \<times> semantic_transcript_entry_id) list
     \<Rightarrow> projection_failure + ('i, 's, 'o) semantic_entry list \<times> 'o outcomes" where
  "project_entries payload session outcomes [] = Ok ([], outcomes)"
| "project_entries payload session outcomes ((request, identity) # rest) =
     (case payload request outcomes of
        Err failure \<Rightarrow> Err failure
      | Ok (value, outcomes1) \<Rightarrow>
          (case project_entries payload session outcomes1 rest of
             Err failure \<Rightarrow> Err failure
           | Ok (entries, outcomes2) \<Rightarrow>
               Ok (\<lparr>se_identity = identity, se_source_session = session, se_payload = value\<rparr> # entries,
                   outcomes2)))"

fun reuses_identity ::
  "semantic_transcript_entry_id list \<Rightarrow> semantic_transcript_entry_id list \<Rightarrow> bool" where
  "reuses_identity used [] = False"
| "reuses_identity used (identity # rest) =
     (identity \<in> set used \<or> reuses_identity (bs_insert identity used) rest)"

definition used_identities :: "tool_batch \<Rightarrow> semantic_transcript_entry_id list" where
  "used_identities b = bs_of_list (map transcript_entry (ordered_entries (tb_yielded_snapshot b)))"

definition child_wait_count :: "tool_batch \<Rightarrow> nat" where
  "child_wait_count b = length (filter is_child_wait (map snd (tb_attempts b)))"

text \<open>The common end of the three projections: the loop, leftover outcomes, the frontier.\<close>

definition finish_projection ::
  "content_token \<Rightarrow> (tool_request \<Rightarrow> 'o outcomes \<Rightarrow> projection_failure + ('i, 's, 'o) semantic_payload \<times> 'o outcomes)
     \<Rightarrow> tool_batch \<Rightarrow> semantic_transcript_entry_id list \<Rightarrow> context_frontier_id \<Rightarrow> 'o outcomes
     \<Rightarrow> projection_failure + ('i, 's, 'o) prepared_projection" where
  "finish_projection fresh payload b entry_ids frontier outcomes =
     (case project_entries payload (tb_session b) outcomes (zip (tb_requests b) entry_ids) of
        Err failure \<Rightarrow> Err failure
      | Ok (entries, left) \<Rightarrow>
          if left \<noteq> [] then Err Projection_BatchNotResolved
          else case derive_appending_candidate fresh (tb_yielded_snapshot b) frontier
                      (map entry_reference entries) of
            Err _ \<Rightarrow> Err Projection_FrontierDerivationFailed
          | Ok snap \<Rightarrow>
              Ok \<lparr>pp_source_frontier = snapshot (rs_frontier (tb_yielded_snapshot b)),
                  pp_turn = tb_turn b, pp_producing_call = tb_producing_call b,
                  pp_entries = entries, pp_snapshot = snap\<rparr>)"

definition prepare_result_projection_with_delegation ::
  "content_token \<Rightarrow> tool_batch \<Rightarrow> semantic_transcript_entry_id list \<Rightarrow> context_frontier_id \<Rightarrow> 'o outcomes
     \<Rightarrow> projection_failure + ('i, 's, 'o) prepared_projection" where
  "prepare_result_projection_with_delegation fresh b entry_ids frontier outcomes =
     (if \<not> is_executing (tb_phase b) \<or> length entry_ids \<noteq> length (tb_requests b)
      then Err Projection_BatchNotResolved
      else if reuses_identity (used_identities b) entry_ids then Err Projection_EntryIdentityReuse
      else if length outcomes \<noteq> child_wait_count b then Err Projection_BatchNotResolved
      else finish_projection fresh (result_payload b) b entry_ids frontier outcomes)"

definition prepare_result_projection ::
  "content_token \<Rightarrow> tool_batch \<Rightarrow> semantic_transcript_entry_id list \<Rightarrow> context_frontier_id
     \<Rightarrow> projection_failure + ('i, 's, 'o) prepared_projection" where
  "prepare_result_projection fresh b entry_ids frontier =
     prepare_result_projection_with_delegation fresh b entry_ids frontier []"

definition prepare_delegation_result_projection ::
  "content_token \<Rightarrow> tool_batch \<Rightarrow> semantic_transcript_entry_id list \<Rightarrow> context_frontier_id \<Rightarrow> 'o outcomes
     \<Rightarrow> projection_failure + ('i, 's, 'o) prepared_projection" where
  "prepare_delegation_result_projection fresh b entry_ids frontier outcomes =
     prepare_result_projection_with_delegation fresh b entry_ids frontier outcomes"

fun is_awaiting_child :: "tool_batch_phase \<Rightarrow> bool" where
  "is_awaiting_child (Phase_AwaitingChild _ _ _) = True"
| "is_awaiting_child _ = False"

definition prepare_cancellation_projection_with_delegation ::
  "content_token \<Rightarrow> tool_batch \<Rightarrow> semantic_transcript_entry_id list \<Rightarrow> context_frontier_id \<Rightarrow> bool
     \<Rightarrow> 'o outcomes \<Rightarrow> projection_failure + ('i, 's, 'o) prepared_projection" where
  "prepare_cancellation_projection_with_delegation fresh b entry_ids frontier closes_delegation_wait
     outcomes =
     (if \<not> (is_executing (tb_phase b) \<or> closes_delegation_wait \<and> is_awaiting_child (tb_phase b)) \<or>
         length entry_ids \<noteq> length (tb_requests b) \<or> list_ex is_current (map snd (tb_attempts b))
      then Err Projection_BatchNotResolved
      else if reuses_identity (used_identities b) entry_ids then Err Projection_EntryIdentityReuse
      else if closes_delegation_wait \<noteq> (child_wait_count b > 0) then Err Projection_BatchNotResolved
      else finish_projection fresh (closure_payload b) b entry_ids frontier outcomes)"

definition prepare_cancellation_projection ::
  "content_token \<Rightarrow> tool_batch \<Rightarrow> semantic_transcript_entry_id list \<Rightarrow> context_frontier_id
     \<Rightarrow> projection_failure + ('i, 's, 'o) prepared_projection" where
  "prepare_cancellation_projection fresh b entry_ids frontier =
     prepare_cancellation_projection_with_delegation fresh b entry_ids frontier False []"


fun is_ambiguous :: "reconstituted_tool_attempt \<Rightarrow> bool" where
  "is_ambiguous (Ended e) = (ea_end e = End_Ambiguous)"
| "is_ambiguous (Current _) = False"


fun effect_matches :: "runner_tool_effect_class \<Rightarrow> tool_effect_class \<Rightarrow> bool" where
  "effect_matches Effect_Pure EffectFree = True"
| "effect_matches Effect_Idempotent ExternalEffect = True"
| "effect_matches Effect_SideEffecting ExternalEffect = True"
| "effect_matches _ _ = False"

definition known_loss :: "tool_attempt_end \<Rightarrow> bool" where
  "known_loss stopped =
     (case stopped of
        End_KnownFailed error \<Rightarrow> te_kind error = Error_CrashLost \<and> te_detail error = None
      | _ \<Rightarrow> False)"

definition prepare_runner_retry_cancellation_projection ::
  "content_token \<Rightarrow> tool_batch \<Rightarrow> tool_attempt_id \<Rightarrow> runner_tool_effect_class
     \<Rightarrow> semantic_transcript_entry_id list \<Rightarrow> context_frontier_id
     \<Rightarrow> projection_failure + ('i, 's, 'o) prepared_projection" where
  "prepare_runner_retry_cancellation_projection fresh b attempt effect entry_ids frontier =
     (case find_map (\<lambda>candidate. case candidate of
             Ended ended \<Rightarrow> if ea_attempt ended = attempt then Some ended else None
           | Current _ \<Rightarrow> None) (map snd (tb_attempts b)) of
        None \<Rightarrow> Err Projection_BatchNotResolved
      | Some stopped \<Rightarrow>
          if \<not> effect_matches effect (ea_effect_class stopped) \<or>
             \<not> (known_loss (ea_end stopped) \<or>
                effect = Effect_Idempotent \<and> ea_end stopped = End_Ambiguous) \<or>
             \<not> (is_executing (tb_phase b) \<or> tb_phase b = Phase_AwaitingRecovery attempt)
          then Err Projection_BatchNotResolved
          else prepare_cancellation_projection fresh
                 (b\<lparr>tb_attempts := bt_remove (ea_request stopped) (tb_attempts b),
                    tb_phase := Phase_Executing (ea_issuing_attempt stopped)\<rparr>) entry_ids frontier)"



section \<open>What each request leaves\<close>

text \<open>
  The entry of a request, read off the batch: \<open>hidden\<close> tells which ends of an attempt are not
  shown, \<open>delivered\<close> is the outcome delivered for the request.
\<close>

definition request_entry ::
  "(tool_attempt_end \<Rightarrow> bool) \<Rightarrow> tool_batch \<Rightarrow> tool_request \<Rightarrow> 'o option \<Rightarrow> ('i, 's, 'o) semantic_payload"
where
  "request_entry hidden b request delivered =
     (if tr_inadmissible_reason request \<noteq> None then ToolInadmissible (tr_id request)
      else case batch_approval b (tr_id request) of
        None \<Rightarrow> ToolClosed (tr_id request)
      | Some resolution \<Rightarrow>
          if \<not> is_approved resolution then ToolDenied (tr_id request)
          else case batch_attempt b (tr_id request) of
            Some (Ended e) \<Rightarrow>
              if hidden (ea_end e) then ToolClosed (tr_id request)
              else (case (ea_end e, delivered) of
                      (End_AwaitingChild spawning child, Some outcome) \<Rightarrow>
                        DelegationResult (tr_id request) spawning child Wait_Foreground None outcome
                    | (End_AwaitingChild _ _, None) \<Rightarrow> ToolClosed (tr_id request)
                    | _ \<Rightarrow> ToolExecutionResult (ea_attempt e))
          | _ \<Rightarrow> ToolClosed (tr_id request))"

text \<open>An admissible approved request with an attempt of the given kind.\<close>

definition attempted_as :: "(reconstituted_tool_attempt \<Rightarrow> bool) \<Rightarrow> tool_batch \<Rightarrow> tool_request \<Rightarrow> bool" where
  "attempted_as kind b request \<longleftrightarrow>
     tr_inadmissible_reason request = None \<and> approved_in (tb_approvals b) (tr_id request) \<and>
     (\<exists>a. batch_attempt b (tr_id request) = Some a \<and> kind a)"

definition continues :: "'o option \<Rightarrow> reconstituted_tool_attempt \<Rightarrow> bool" where
  "continues delivered a \<longleftrightarrow>
     \<not> is_current a \<and> \<not> is_ambiguous a \<and> \<not> is_crash_lost a \<and> (is_child_wait a \<longrightarrow> delivered \<noteq> None)"

definition result_settled :: "tool_batch \<Rightarrow> tool_request \<Rightarrow> 'o option \<Rightarrow> bool" where
  "result_settled b request delivered \<longleftrightarrow>
     tr_inadmissible_reason request \<noteq> None \<or>
     (\<exists>resolution. batch_approval b (tr_id request) = Some resolution \<and>
        (is_approved resolution \<longrightarrow>
          (\<exists>a. batch_attempt b (tr_id request) = Some a \<and> continues delivered a)))"


definition placed_entry ::
  "(tool_request \<Rightarrow> 'o option \<Rightarrow> ('i, 's, 'o) semantic_payload) \<Rightarrow> session_id \<Rightarrow> 'o outcomes
     \<Rightarrow> tool_request \<Rightarrow> semantic_transcript_entry_id \<Rightarrow> ('i, 's, 'o) semantic_entry" where
  "placed_entry shown session outcomes r identity =
     \<lparr>se_identity = identity, se_source_session = session,
      se_payload = shown r (bt_get outcomes (tr_id r))\<rparr>"

locale payload_rule =
  fixes payload :: "tool_request \<Rightarrow> 'o outcomes
      \<Rightarrow> projection_failure + ('i, 's, 'o) semantic_payload \<times> 'o outcomes"
    and settled :: "tool_request \<Rightarrow> 'o option \<Rightarrow> bool"
    and shown :: "tool_request \<Rightarrow> 'o option \<Rightarrow> ('i, 's, 'o) semantic_payload"
    and takes :: "tool_request \<Rightarrow> bool"
  assumes payload_Ok: "payload r outcomes = Ok (v, left) \<longleftrightarrow>
      settled r (bt_get outcomes (tr_id r)) \<and> v = shown r (bt_get outcomes (tr_id r)) \<and>
      left = (if takes r then bt_remove (tr_id r) outcomes else outcomes)"
begin

lemma project_entries_Ok:
  "length ids = length rs \<Longrightarrow> distinct (map tr_id rs) \<Longrightarrow>
   project_entries payload session outcomes (zip rs ids) = Ok (entries, left) \<longleftrightarrow>
     (\<forall>r \<in> set rs. settled r (bt_get outcomes (tr_id r))) \<and>
     entries = map2 (placed_entry shown session outcomes) rs ids \<and>
     left = filter (\<lambda>p. \<not> (\<exists>r \<in> set rs. takes r \<and> tr_id r = fst p)) outcomes"
proof (induction rs ids arbitrary: outcomes entries left rule: list_induct2')
  case (4 r rs i ids)
  let ?rest = "if takes r then bt_remove (tr_id r) outcomes else outcomes"
  have get: "bt_get (bt_remove (tr_id r) outcomes) (tr_id x) = bt_get outcomes (tr_id x)"
    if "x \<in> set rs" for x
    using that "4.prems" by (auto simp: bt_get_remove) (metis image_eqI)
  have same: "map2 (placed_entry shown session ?rest) rs ids = map2 (placed_entry shown session outcomes) rs ids"
    by (rule map_cong) (auto simp: placed_entry_def get dest: set_zip_leftD)
  have left: "filter (\<lambda>p. \<not> (\<exists>x \<in> set rs. takes x \<and> tr_id x = fst p)) ?rest =
      filter (\<lambda>p. \<not> (\<exists>x \<in> set (r # rs). takes x \<and> tr_id x = fst p)) outcomes"
    by (auto simp: bt_remove_def intro!: filter_cong)
  have "project_entries payload session outcomes (zip (r # rs) (i # ids)) = Ok (entries, left) \<longleftrightarrow>
      settled r (bt_get outcomes (tr_id r)) \<and>
      (\<exists>es. project_entries payload session ?rest (zip rs ids) = Ok (es, left) \<and>
        entries = placed_entry shown session outcomes r i # es)"
  proof (cases "settled r (bt_get outcomes (tr_id r))")
    case True
    then have "payload r outcomes = Ok (shown r (bt_get outcomes (tr_id r)), ?rest)"
      by (simp only: payload_Ok simp_thms)
    then show ?thesis using True by (auto simp: placed_entry_def split: sum.splits)
  next
    case False
    then obtain failure where "payload r outcomes = Err failure"
      using payload_Ok [of r outcomes] by (cases "payload r outcomes") auto
    then show ?thesis using False by simp
  qed
  moreover have "project_entries payload session ?rest (zip rs ids) = Ok (es, left) \<longleftrightarrow>
      (\<forall>x \<in> set rs. settled x (bt_get outcomes (tr_id x))) \<and>
      es = map2 (placed_entry shown session outcomes) rs ids \<and>
      left = filter (\<lambda>p. \<not> (\<exists>x \<in> set (r # rs). takes x \<and> tr_id x = fst p)) outcomes" for es
    using "4.IH" [of ?rest es left] "4.prems" unfolding left same by (auto simp: get)
  ultimately show ?case by auto
qed auto

lemma finish_Ok:
  assumes "length ids = length (tb_requests b)" and "distinct (map tr_id (tb_requests b))"
  shows "finish_projection fresh payload b ids frontier outcomes = Ok p \<longleftrightarrow>
    (\<forall>r \<in> set (tb_requests b). settled r (bt_get outcomes (tr_id r))) \<and>
    (\<forall>q \<in> fst ` set outcomes. \<exists>r \<in> set (tb_requests b). takes r \<and> tr_id r = q) \<and>
    (\<exists>snap. derive_appending_candidate fresh (tb_yielded_snapshot b) frontier
        (map entry_reference (map2 (placed_entry shown (tb_session b) outcomes) (tb_requests b) ids)) = Ok snap \<and>
      p = \<lparr>pp_source_frontier = snapshot (rs_frontier (tb_yielded_snapshot b)), pp_turn = tb_turn b,
        pp_producing_call = tb_producing_call b,
        pp_entries = map2 (placed_entry shown (tb_session b) outcomes) (tb_requests b) ids,
        pp_snapshot = snap\<rparr>)"
proof -
  have "finish_projection fresh payload b ids frontier outcomes = Ok p \<longleftrightarrow>
      (\<exists>entries. project_entries payload (tb_session b) outcomes (zip (tb_requests b) ids) = Ok (entries, []) \<and>
        (\<exists>snap. derive_appending_candidate fresh (tb_yielded_snapshot b) frontier
            (map entry_reference entries) = Ok snap \<and>
          p = \<lparr>pp_source_frontier = snapshot (rs_frontier (tb_yielded_snapshot b)), pp_turn = tb_turn b,
            pp_producing_call = tb_producing_call b, pp_entries = entries, pp_snapshot = snap\<rparr>))"
    by (auto simp: finish_projection_def split: sum.splits)
  then show ?thesis
    unfolding project_entries_Ok [OF assms] by (auto simp: filter_empty_conv eq_commute [of "[]"])
qed

end

text \<open>The fresh identities of a projection.\<close>

definition fresh_entries :: "tool_batch \<Rightarrow> semantic_transcript_entry_id list \<Rightarrow> bool" where
  "fresh_entries b ids \<longleftrightarrow>
     length ids = length (tb_requests b) \<and> distinct ids \<and>
     set ids \<inter> transcript_entry ` set (ordered_entries (tb_yielded_snapshot b)) = {}"

lemma reuses_identity_iff: "reuses_identity used ids \<longleftrightarrow> \<not> (distinct ids \<and> set ids \<inter> set used = {})"
  by (induction used ids rule: reuses_identity.induct) auto

lemma fresh_entries_iff:
  "fresh_entries b ids \<longleftrightarrow> length ids = length (tb_requests b) \<and> \<not> reuses_identity (used_identities b) ids"
  by (simp add: fresh_entries_def reuses_identity_iff used_identities_def)

lemma derive_placed:
  assumes "snapshot_ok (tb_yielded_snapshot b)" and "fresh_entries b ids"
    and "frontier \<noteq> snapshot (rs_frontier (tb_yielded_snapshot b))"
  shows "\<exists>snap. derive_appending_candidate fresh (tb_yielded_snapshot b) frontier
    (map entry_reference (map2 (placed_entry shown session outcomes) (tb_requests b) ids)) = Ok snap"
proof -
  let ?refs = "map entry_reference (map2 (placed_entry shown session outcomes) (tb_requests b) ids)"
  have refs: "?refs = map (SemanticTranscriptEntryRef session) ids"
    using assms(2) by (auto simp: fresh_entries_def list_eq_iff_nth_eq entry_reference_def placed_entry_def)
  have "distinct (map (SemanticTranscriptEntryRef session) ids)"
    using assms(2) by (auto simp: fresh_entries_def distinct_map inj_on_def)
  moreover have "set (ordered_entries (tb_yielded_snapshot b)) \<inter>
      set (map (SemanticTranscriptEntryRef session) ids) = {}"
    using assms(2) by (force simp: fresh_entries_def)
  moreover have "distinct (ordered_entries (tb_yielded_snapshot b))"
    using assms(1) by (simp add: snapshot_ok_def)
  ultimately show ?thesis
    unfolding derive_Ok_iff [OF assms(1)] refs distinct_append using assms(3) by blast
qed

lemma bt_remove_absent: "bt_get m k = None \<Longrightarrow> bt_remove k m = m"
  unfolding bt_remove_def map_of_eq_None_iff by (rule filter_True) force

lemma is_denial_iff: "is_denial decision \<longleftrightarrow> decision \<noteq> Approve"
  by (cases decision) simp_all

lemmas payload_defs = is_denial_iff request_entry_def attempted_as_def batch_approval_def batch_attempt_def
  approved_in_def is_approved_def

lemmas payload_splits = option.splits reconstituted_tool_attempt.splits tool_attempt_end.splits
  if_splits

interpretation result_rule: payload_rule "result_payload b" "result_settled b"
    "request_entry (\<lambda>_. False) b" "attempted_as is_child_wait b" for b
  by unfold_locales
    (auto simp: result_payload_def result_settled_def continues_def delegation_result_def payload_defs
      bt_remove_absent split: payload_splits)



section \<open>Projections of reached batches\<close>

definition awaited :: "tool_batch \<Rightarrow> tool_request_id set" where
  "awaited b = {q. \<exists>a. batch_attempt b q = Some a \<and> is_child_wait a}"

lemma attempt_entry:
  "batch_ok st preds b \<Longrightarrow> batch_attempt b q = Some a \<longleftrightarrow> (q, a) \<in> set (tb_attempts b)"
  unfolding batch_attempt_def by (rule bt_entry_iff) (simp add: batch_ok_def attempts_ok_def)

lemma attempt_target:
  assumes "batch_ok st preds b" and "batch_attempt b q = Some a"
  shows "approved_in (tb_approvals b) q" and "\<exists>r \<in> set (tb_requests b). tr_id r = q"
    and "r \<in> set (tb_requests b) \<Longrightarrow> tr_id r = q \<Longrightarrow> tr_inadmissible_reason r = None"
    and "\<not> ambiguous_without_effect a"
proof -
  have "(q, a) \<in> set (tb_attempts b)" using assms by (simp add: attempt_entry)
  then show approved: "approved_in (tb_approvals b) q" and "\<not> ambiguous_without_effect a"
    using assms(1) by (auto simp: batch_ok_def attempts_ok_def attempt_admitted_def)
  then obtain approval where "(q, approval) \<in> set (tb_approvals b)"
    using assms(1) bt_entry_iff [of "tb_approvals b"]
    by (auto simp: approved_in_def batch_ok_def approvals_ok_def split: option.splits)
  then have "q \<in> tr_id ` set (tb_requests b)" "admissible_target (tb_requests b) q"
    using assms(1) by (auto simp: batch_ok_def approvals_ok_def)
  then show "\<exists>r \<in> set (tb_requests b). tr_id r = q"
    and "r \<in> set (tb_requests b) \<Longrightarrow> tr_id r = q \<Longrightarrow> tr_inadmissible_reason r = None"
    by (auto simp: admissible_target_def list_ex_iff)
qed

lemma decided_admissible:
  assumes "batch_ok st preds b" and "r \<in> set (tb_requests b)" and "bt_get (tb_approvals b) (tr_id r) = Some x"
  shows "tr_inadmissible_reason r = None"
  using assms bt_entry_iff [of "tb_approvals b"]
  by (fastforce simp: batch_ok_def approvals_ok_def admissible_target_def list_ex_iff)

lemma attempted_iff:
  assumes "batch_ok st preds b" and "r \<in> set (tb_requests b)"
  shows "attempted_as kind b r \<longleftrightarrow> (\<exists>a. batch_attempt b (tr_id r) = Some a \<and> kind a)"
  using attempt_target(1,3) [OF assms(1)] assms(2) by (auto simp: attempted_as_def)

lemma awaited_requests:
  assumes "batch_ok st preds b"
  shows "awaited b = tr_id ` {r \<in> set (tb_requests b). attempted_as is_child_wait b r}"
  using attempt_target(2) [OF assms] attempted_iff [OF assms] by (fastforce simp: awaited_def)

lemma child_wait_count_card:
  assumes "batch_ok st preds b"
  shows "child_wait_count b = card (awaited b)"
proof -
  let ?w = "filter (\<lambda>p. is_child_wait (snd p)) (tb_attempts b)"
  have "distinct (map fst (tb_attempts b))"
    using assms by (simp add: batch_ok_def attempts_ok_def bt_ok_distinct)
  then have "distinct (map fst ?w)" by (rule distinct_map_filter)
  then have "card (set (map fst ?w)) = length ?w" by (metis distinct_card length_map)
  moreover have "set (map fst ?w) = awaited b"
    by (auto simp: awaited_def attempt_entry [OF assms] intro: rev_image_eqI)
  moreover have "child_wait_count b = length ?w"
    by (simp add: child_wait_count_def filter_map comp_def)
  ultimately show ?thesis by simp
qed

lemma decided_phase:
  assumes "batch_ok st preds b" and "r \<in> set (tb_requests b)"
    and "\<And>q. tb_phase b \<noteq> Phase_AwaitingApproval q"
  shows "\<not> is_undecided (tb_approvals b) r"
proof -
  have "earliest_undecided (tb_requests b) (tb_approvals b) = None"
    using assms(1,3)
    by (auto simp: batch_ok_def progress_ok_def check_phase_def batch_input_def Let_def
        split: tool_batch_phase.splits if_splits)
  then show ?thesis using assms(2) by (auto simp: earliest_undecided_alt find_None_iff)
qed

lemma executing_unambiguous:
  assumes ok: "batch_ok st preds b" and "tb_phase b = Phase_Executing t \<or> is_awaiting_child (tb_phase b)"
    and "batch_attempt b q = Some a"
  shows "\<not> is_ambiguous a"
proof
  assume amb: "is_ambiguous a"
  then obtain e where e: "a = Ended e" "ea_end e = End_Ambiguous" by (cases a) auto
  moreover have "ea_effect_class e = ExternalEffect"
    using attempt_target(4) [OF ok assms(3)] e by simp
  moreover have "(q, a) \<in> set (tb_attempts b)" using assms(3) by (simp add: attempt_entry [OF ok])
  ultimately have "ambiguous_attempts (tb_attempts b) \<noteq> []"
    unfolding ambiguous_attempts_def map_filter_map by (auto simp: filter_empty_conv intro!: bexI [of _ "(q, a)"])
  then show False
    using ok assms(2)
    by (auto simp: batch_ok_def progress_ok_def check_phase_def batch_input_def Let_def
        split: tool_batch_phase.splits if_splits)
qed

text \<open>Requests that let a batch continue, given the outcomes delivered for its child waits.\<close>

definition ready_to_continue :: "tool_batch \<Rightarrow> bool" where
  "ready_to_continue b \<longleftrightarrow>
     (\<forall>r \<in> set (tb_requests b). approved_in (tb_approvals b) (tr_id r) \<longrightarrow>
       (\<exists>e. batch_attempt b (tr_id r) = Some (Ended e) \<and> \<not> is_crash_lost (Ended e)))"

lemma continues_iff:
  assumes ok: "batch_ok st preds b" and phase: "tb_phase b = Phase_Executing t"
  shows "(\<forall>r \<in> set (tb_requests b). result_settled b r (delivered (tr_id r))) \<longleftrightarrow>
    ready_to_continue b \<and> (\<forall>q \<in> awaited b. delivered q \<noteq> None)"
proof -
  have "result_settled b r (delivered (tr_id r)) \<longleftrightarrow>
      (approved_in (tb_approvals b) (tr_id r) \<longrightarrow>
        (\<exists>e. batch_attempt b (tr_id r) = Some (Ended e) \<and> \<not> is_crash_lost (Ended e))) \<and>
      (tr_id r \<in> awaited b \<longrightarrow> delivered (tr_id r) \<noteq> None)" if r: "r \<in> set (tb_requests b)" for r
  proof -
    have u: "\<not> is_undecided (tb_approvals b) r" by (rule decided_phase [OF ok r]) (simp add: phase)
    show ?thesis
    proof (cases "batch_attempt b (tr_id r)")
      case None
      then show ?thesis
        using u decided_admissible [OF ok r]
        by (cases "bt_get (tb_approvals b) (tr_id r)")
          (auto simp: result_settled_def awaited_def is_undecided_def bt_contains_iff approved_in_def
            batch_approval_def)
    next
      case (Some a)
      have f: "approved_in (tb_approvals b) (tr_id r)" "tr_inadmissible_reason r = None" "\<not> is_ambiguous a"
        using attempt_target [OF ok Some] r executing_unambiguous [OF ok _ Some] phase by auto
      then show ?thesis
        using Some
        by (cases a) (auto simp: result_settled_def continues_def awaited_def approved_in_def
            batch_approval_def split: option.splits)
    qed
  qed
  then show ?thesis
    using awaited_requests [OF ok] by (auto simp: ready_to_continue_def)
qed

text \<open>What a prepared projection of a batch has to be.\<close>

definition projection_of ::
  "(tool_request \<Rightarrow> 'o option \<Rightarrow> ('i, 's, 'o) semantic_payload) \<Rightarrow> tool_batch \<Rightarrow> 'o outcomes
     \<Rightarrow> semantic_transcript_entry_id list \<Rightarrow> context_frontier_id \<Rightarrow> ('i, 's, 'o) prepared_projection \<Rightarrow> bool"
where
  "projection_of shown b outcomes ids frontier p \<longleftrightarrow>
     pp_source_frontier p = snapshot (rs_frontier (tb_yielded_snapshot b)) \<and> pp_turn p = tb_turn b \<and>
     pp_producing_call p = tb_producing_call b \<and>
     pp_entries p = map2 (placed_entry shown (tb_session b) outcomes) (tb_requests b) ids \<and>
     ordered_entries (pp_snapshot p) = ordered_entries (tb_yielded_snapshot b) @ map entry_reference (pp_entries p) \<and>
     rs_frontier (pp_snapshot p) = \<lparr>owning_session = tb_session b, snapshot = frontier\<rparr>"

lemma given_result: "(\<exists>p. A \<and> B \<and> (\<exists>s. D s \<and> p = f s)) \<longleftrightarrow> A \<and> B \<and> (\<exists>s. D s)"
  by blast

lemma subset_selected: "Q \<subseteq> f ` {r \<in> R. P r} \<longleftrightarrow> (\<forall>q \<in> Q. \<exists>r \<in> R. P r \<and> f r = q)"
  by auto

context payload_rule
begin

lemma finish_projects:
  assumes ok: "batch_ok st preds b" and yielded: "snapshot_ok (tb_yielded_snapshot b)"
    and fresh: "fresh_entries b ids"
  shows "(\<exists>p. finish_projection n payload b ids frontier outcomes = Ok p) \<longleftrightarrow>
      (\<forall>r \<in> set (tb_requests b). settled r (bt_get outcomes (tr_id r))) \<and>
      fst ` set outcomes \<subseteq> tr_id ` {r \<in> set (tb_requests b). takes r} \<and>
      frontier \<noteq> snapshot (rs_frontier (tb_yielded_snapshot b))"
    and "finish_projection n payload b ids frontier outcomes = Ok p \<Longrightarrow>
      projection_of shown b outcomes ids frontier p"
proof -
  have l: "length ids = length (tb_requests b)" using fresh by (simp add: fresh_entries_def)
  have d: "distinct (map tr_id (tb_requests b))" using ok by (simp add: batch_ok_def requests_ok_def)
  have owner: "owning_session (rs_frontier (tb_yielded_snapshot b)) = tb_session b"
    using ok by (simp add: batch_ok_def requests_ok_def)
  have derive: "(\<exists>snap. derive_appending_candidate n (tb_yielded_snapshot b) frontier
        (map entry_reference (map2 (placed_entry shown (tb_session b) outcomes) (tb_requests b) ids)) = Ok snap) \<longleftrightarrow>
      frontier \<noteq> snapshot (rs_frontier (tb_yielded_snapshot b))"
    using derive_placed [OF yielded fresh] derive_Ok_iff [OF yielded] by blast
  show "(\<exists>p. finish_projection n payload b ids frontier outcomes = Ok p) \<longleftrightarrow>
      (\<forall>r \<in> set (tb_requests b). settled r (bt_get outcomes (tr_id r))) \<and>
      fst ` set outcomes \<subseteq> tr_id ` {r \<in> set (tb_requests b). takes r} \<and>
      frontier \<noteq> snapshot (rs_frontier (tb_yielded_snapshot b))"
    unfolding finish_Ok [OF l d] derive [symmetric] subset_selected by (rule given_result)
  show "projection_of shown b outcomes ids frontier p"
    if "finish_projection n payload b ids frontier outcomes = Ok p"
    using that unfolding finish_Ok [OF l d]
    by (auto simp: projection_of_def derived_appended_entries owner)
qed

end

lemma result_projects:
  assumes ok: "batch_ok st preds b" and yielded: "snapshot_ok (tb_yielded_snapshot b)"
    and outcomes: "bt_ok outcomes"
  shows "(\<exists>p. prepare_result_projection_with_delegation n b ids frontier outcomes = Ok p) \<longleftrightarrow>
      is_executing (tb_phase b) \<and> fresh_entries b ids \<and>
      frontier \<noteq> snapshot (rs_frontier (tb_yielded_snapshot b)) \<and>
      ready_to_continue b \<and> fst ` set outcomes = awaited b"
    and "prepare_result_projection_with_delegation n b ids frontier outcomes = Ok p \<Longrightarrow>
      projection_of (request_entry (\<lambda>_. False) b) b outcomes ids frontier p"
proof -
  have prep: "prepare_result_projection_with_delegation n b ids frontier outcomes = Ok p \<longleftrightarrow>
      is_executing (tb_phase b) \<and> fresh_entries b ids \<and> length outcomes = child_wait_count b \<and>
      finish_projection n (result_payload b) b ids frontier outcomes = Ok p" for p
    by (auto simp: prepare_result_projection_with_delegation_def fresh_entries_iff)
  show "projection_of (request_entry (\<lambda>_. False) b) b outcomes ids frontier p"
    if "prepare_result_projection_with_delegation n b ids frontier outcomes = Ok p"
    using that result_rule.finish_projects(2) [OF ok yielded] by (auto simp: prep)
  have count: "length outcomes = child_wait_count b" if "fst ` set outcomes = awaited b"
    using that bt_ok_distinct [OF outcomes] distinct_card [of "map fst outcomes"]
    by (simp add: child_wait_count_card [OF ok])
  have delivered: "(\<forall>q \<in> awaited b. bt_get outcomes q \<noteq> None) \<longleftrightarrow> awaited b \<subseteq> fst ` set outcomes"
    by (auto simp: map_of_eq_None_iff subset_eq)
  show "(\<exists>p. prepare_result_projection_with_delegation n b ids frontier outcomes = Ok p) \<longleftrightarrow>
      is_executing (tb_phase b) \<and> fresh_entries b ids \<and>
      frontier \<noteq> snapshot (rs_frontier (tb_yielded_snapshot b)) \<and>
      ready_to_continue b \<and> fst ` set outcomes = awaited b"
  proof (cases "is_executing (tb_phase b) \<and> fresh_entries b ids")
    case True
    then obtain t where t: "tb_phase b = Phase_Executing t" by (cases "tb_phase b") auto
    have raw: "(\<exists>p. finish_projection n (result_payload b) b ids frontier outcomes = Ok p) \<longleftrightarrow>
        (\<forall>r \<in> set (tb_requests b). result_settled b r (bt_get outcomes (tr_id r))) \<and>
        fst ` set outcomes \<subseteq> tr_id ` {r \<in> set (tb_requests b). attempted_as is_child_wait b r} \<and>
        frontier \<noteq> snapshot (rs_frontier (tb_yielded_snapshot b))"
      by (rule result_rule.finish_projects(1) [OF ok yielded]) (use True in simp)
    have fin: "(\<exists>p. finish_projection n (result_payload b) b ids frontier outcomes = Ok p) \<longleftrightarrow>
        (ready_to_continue b \<and> awaited b \<subseteq> fst ` set outcomes) \<and> fst ` set outcomes \<subseteq> awaited b \<and>
        frontier \<noteq> snapshot (rs_frontier (tb_yielded_snapshot b))"
      using raw unfolding continues_iff [OF ok t] delivered awaited_requests [OF ok, symmetric] .
    have "(\<exists>p. prepare_result_projection_with_delegation n b ids frontier outcomes = Ok p) \<longleftrightarrow>
        length outcomes = child_wait_count b \<and>
        (ready_to_continue b \<and> awaited b \<subseteq> fst ` set outcomes) \<and> fst ` set outcomes \<subseteq> awaited b \<and>
        frontier \<noteq> snapshot (rs_frontier (tb_yielded_snapshot b))"
      using True fin by (auto simp: prep)
    then show ?thesis using True count by auto
  qed (auto simp: prep)
qed

lemma live_attempt_iff:
  "batch_ok st preds b \<Longrightarrow> list_ex kind (map snd (tb_attempts b)) \<longleftrightarrow>
     (\<exists>q a. batch_attempt b q = Some a \<and> kind a)"
  by (simp add: list_ex_iff attempt_entry) (metis prod.collapse snd_conv)


lemma reached_frontier:
  assumes "reconstitute_batch i st = (Ok b, st1)" and "batch_move\<^sup>*\<^sup>* (st1, b) (st2, b2)"
    and "frontier_world n S I" and "tb_yielded_snapshot b2 \<in> S"
  obtains preds where "batch_ok st2 preds b2" and "snapshot_ok (tb_yielded_snapshot b2)"
  using reached_sound [OF assms(2,1)] frontier_world_ok [OF assms(3)] assms(4)
  by (auto simp: sound_batch_def)

text \<open>
  C7. A batch continues exactly when it is resolved, and then with one entry per request in
  proposal order. For a batch that stored facts and transitions lead to, the result projection is
  accepted exactly when the batch executes, the entry identities are as many as the requests,
  distinct and unused, the frontier identity is new, every approved request has an ended attempt
  that was not lost in a crash, and outcomes are supplied for exactly the requests that wait for a
  child. The entries then name the denial, the inadmissibility, the attempt or the delegation
  result of each request, and the snapshot is the yielded one followed by these entries.
\<close>

theorem result_projection_exact:
  fixes outcomes :: "'o outcomes"
  assumes "reconstitute_batch i st = (Ok b, st1)" and "batch_move\<^sup>*\<^sup>* (st1, b) (st2, b2)"
    and "frontier_world n S I" and "tb_yielded_snapshot b2 \<in> S" and "bt_ok outcomes"
  shows "((\<exists>p :: ('i, 's, 'o) prepared_projection.
        prepare_delegation_result_projection n b2 ids frontier outcomes = Ok p) \<longleftrightarrow>
      is_executing (tb_phase b2) \<and> fresh_entries b2 ids \<and>
      frontier \<noteq> snapshot (rs_frontier (tb_yielded_snapshot b2)) \<and>
      (\<forall>r \<in> set (tb_requests b2). approved_in (tb_approvals b2) (tr_id r) \<longrightarrow>
        (\<exists>e. batch_attempt b2 (tr_id r) = Some (Ended e) \<and> \<not> is_crash_lost (Ended e))) \<and>
      fst ` set outcomes = awaited b2) \<and>
    (\<forall>p :: ('i, 's, 'o) prepared_projection.
      prepare_delegation_result_projection n b2 ids frontier outcomes = Ok p \<longrightarrow>
      projection_of (request_entry (\<lambda>_. False) b2) b2 outcomes ids frontier p)"
proof -
  obtain preds where "batch_ok st2 preds b2" "snapshot_ok (tb_yielded_snapshot b2)"
    using reached_frontier [OF assms(1-4)] .
  note projects = result_projects [OF this assms(5)]
  show ?thesis
    unfolding prepare_delegation_result_projection_def projects(1) ready_to_continue_def [symmetric]
    using projects(2) by blast
qed

text \<open>
  C38. Execution never gets stuck. In an executing batch without a live or crash-lost attempt, the
  next attempt is prepared for the earliest approved request that has none, for any fresh attempt
  identity; and when there is no such request the batch reports that it is ready and its results
  can be projected as soon as the outcomes of its child waits are there.
\<close>

theorem execution_never_stuck:
  assumes "reconstitute_batch i st = (Ok b, st1)" and "batch_move\<^sup>*\<^sup>* (st1, b) (st2, b2)"
    and "tb_phase b2 = Phase_Executing turn_attempt"
    and "\<not> list_ex (\<lambda>a. is_current a \<or> is_crash_lost a) (map snd (tb_attempts b2))"
    and "\<not> identity_in_use b2 attempt"
    and "frontier_world n S I" and "tb_yielded_snapshot b2 \<in> S" and "fresh_entries b2 ids"
    and "frontier \<noteq> snapshot (rs_frontier (tb_yielded_snapshot b2))"
    and "bt_ok outcomes" and "fst ` set outcomes = awaited b2"
  shows "case filter (\<lambda>r. approved_in (tb_approvals b2) (tr_id r) \<and> batch_attempt b2 (tr_id r) = None)
        (tb_requests b2) of
      r # _ \<Rightarrow> \<exists>approval. batch_approval b2 (tr_id r) = Some approval \<and>
        prepare_next_attempt b2 attempt effect =
          Ok (prepare_attempt \<lparr>ap_request = r, ap_approval = approval\<rparr> attempt turn_attempt effect)
    | [] \<Rightarrow> prepare_next_attempt b2 attempt effect = Err ReadyForContinuation \<and>
        (\<exists>p. prepare_delegation_result_projection n b2 ids frontier outcomes = Ok p)"
proof -
  obtain preds where ok: "batch_ok st2 preds b2" "snapshot_ok (tb_yielded_snapshot b2)"
    using reached_frontier [OF assms(1,2,6,7)] .
  let ?open = "\<lambda>r. approved_in (tb_approvals b2) (tr_id r) \<and> batch_attempt b2 (tr_id r) = None"
  have open_alt: "(\<lambda>request. (case bt_get (tb_approvals b2) (tr_id request) of
        None \<Rightarrow> False | Some approval \<Rightarrow> is_approved approval) \<and>
      \<not> bt_contains (tb_attempts b2) (tr_id request)) = ?open"
    by (auto simp: approved_in_def bt_contains_iff batch_attempt_def fun_eq_iff)
  have prepares: "prepare_next_attempt b2 attempt effect =
      (case find ?open (tb_requests b2) of None \<Rightarrow> Err ReadyForContinuation
       | Some request \<Rightarrow>
           (case try_from_resolution request (the (bt_get (tb_approvals b2) (tr_id request))) of
              Err _ \<Rightarrow> Err ApprovalMismatch
            | Ok approved \<Rightarrow> Ok (prepare_attempt approved attempt turn_attempt effect)))"
    unfolding prepare_next_attempt_def open_alt using assms(3-5)
    by (auto simp: list_ex_iff split: option.splits sum.splits)
  show ?thesis
  proof (cases "filter ?open (tb_requests b2)")
    case Nil
    have "ready_to_continue b2"
    proof (unfold ready_to_continue_def, intro ballI impI)
      fix r
      assume r: "r \<in> set (tb_requests b2)" "approved_in (tb_approvals b2) (tr_id r)"
      then obtain a where a: "batch_attempt b2 (tr_id r) = Some a"
        using Nil by (auto simp: filter_empty_conv)
      then have "\<not> (is_current a \<or> is_crash_lost a)"
        using assms(4) unfolding live_attempt_iff [OF ok(1)] by blast
      with a show "\<exists>e. batch_attempt b2 (tr_id r) = Some (Ended e) \<and> \<not> is_crash_lost (Ended e)"
        by (cases a) auto
    qed
    with Nil show ?thesis
      using assms(3,8,9,11)
      by (simp add: prepares find_filter prepare_delegation_result_projection_def
          result_projects(1) [OF ok assms(10)])
  next
    case (Cons r rs)
    then have r: "r \<in> set (tb_requests b2)" "?open r" by (auto dest: filter_eq_ConsD)
    then obtain approval where get: "bt_get (tb_approvals b2) (tr_id r) = Some approval" "is_approved approval"
      by (auto simp: approved_in_def split: option.splits)
    then have "ar_request approval = tr_id r" "tr_inadmissible_reason r = None"
      using ok(1) bt_entry_iff [of "tb_approvals b2"] decided_admissible [OF ok(1) r(1)]
      by (auto simp: batch_ok_def approvals_ok_def)
    then show ?thesis
      using get Cons
      by (simp add: prepares find_filter try_from_resolution_def is_approved_def batch_approval_def)
  qed
qed





section \<open>Sample projections\<close>

definition sample_ended :: "128 word \<Rightarrow> 128 word \<Rightarrow> tool_attempt_end \<Rightarrow> reconstituted_tool_attempt" where
  "sample_ended n q end' = Ended \<lparr>ea_attempt = Ident n, ea_request = Ident q, ea_session = Ident 1,
     ea_turn = Ident 3, ea_issuing_attempt = Ident 7, ea_effect_class = ExternalEffect,
     ea_generation = 1, ea_end = end'\<rparr>"

definition sample_failed :: "tool_execution_error_kind \<Rightarrow> tool_attempt_end" where
  "sample_failed kind = End_KnownFailed \<lparr>te_kind = kind, te_detail = None\<rparr>"

definition sample_stored :: "tool_approval_decision \<Rightarrow> reconstituted_tool_attempt list \<Rightarrow> tool_batch_input" where
  "sample_stored decision attempts = batch_input_new (Ident 1) (Ident 3) (Ident 4) sample_snapshot
     [sample_request 21 0, sample_request 22 1]
     [resolution_user (Ident 8) (Ident 21) Approve, resolution_user (Ident 9) (Ident 22) decision]
     attempts (Phase_Executing (Ident 7))"

definition sample_projected ::
  "tool_approval_decision \<Rightarrow> (tool_request_id \<times> reconstituted_tool_attempt) list
     \<Rightarrow> (tool_attempt_id \<times> issuance_cell) list \<Rightarrow> tool_batch" where
  "sample_projected decision attempts cells =
     \<lparr>tb_session = Ident 1, tb_turn = Ident 3, tb_producing_call = Ident 4,
      tb_yielded_snapshot = sample_snapshot, tb_requests = [sample_request 21 0, sample_request 22 1],
      tb_approvals = [(Ident 21, resolution_user (Ident 8) (Ident 21) Approve),
        (Ident 22, resolution_user (Ident 9) (Ident 22) decision)],
      tb_attempts = attempts, tb_retired_attempts = [], tb_runner_issuance = cells,
      tb_phase = Phase_Executing (Ident 7)\<rparr>"

text \<open>One attempt ended in an ordinary failure, the other request denied or still open.\<close>

definition sample_first :: "tool_approval_decision \<Rightarrow> tool_batch" where
  "sample_first decision =
     sample_projected decision [(Ident 21, sample_ended 31 21 (sample_failed Error_ExecutionFailed))]
       [(Ident 31, 0)]"

text \<open>A child wait whose outcome arrived, then an attempt lost in a crash.\<close>

definition sample_lost :: tool_batch where
  "sample_lost =
     sample_projected Approve [(Ident 21, sample_ended 31 21 (End_AwaitingChild (Ident 20) (Ident 5))),
       (Ident 22, sample_ended 32 22 (sample_failed Error_CrashLost))] [(Ident 31, 0), (Ident 32, 1)]"

text \<open>The first attempt lost in a crash, the other request approved and not attempted.\<close>

definition sample_crashed :: tool_batch where
  "sample_crashed =
     sample_projected Approve [(Ident 21, sample_ended 31 21 (sample_failed Error_CrashLost))] [(Ident 31, 0)]"

lemmas sample_projection_defs = sample_ended_def sample_failed_def sample_stored_def sample_projected_def
  sample_first_def sample_lost_def sample_crashed_def sample_request_def request_input_new_def batch_input_new_def
  sample_snapshot_def ordinal_try_from_usize_def resolution_user_def

lemma sample_first_restored:
  "reconstitute_batch (sample_stored Approve [sample_ended 31 21 (sample_failed Error_ExecutionFailed)]) [] =
     (Ok (sample_first Approve), [runner_issuance_available])"
  "reconstitute_batch (sample_stored (Deny None) [sample_ended 31 21 (sample_failed Error_ExecutionFailed)]) [] =
     (Ok (sample_first (Deny None)), [runner_issuance_available])"
  by (simp_all add: sample_projection_defs reconstitution_defs Let_def)


lemma sample_fresh:
  "fresh_entries (sample_first decision) [Ident 101, Ident 102]"
  "fresh_entries sample_lost [Ident 101, Ident 102]"
  "fresh_entries sample_crashed [Ident 101, Ident 102]"
  by (simp_all add: sample_projection_defs fresh_entries_def ordered_entries_def from_distinct_def
      sample_entry_ref_def)

lemma sample_yielded:
  "tb_yielded_snapshot (sample_first decision) = sample_snapshot"
  "tb_yielded_snapshot sample_lost = sample_snapshot"
  by (simp_all add: sample_first_def sample_lost_def sample_projected_def)

lemma sample_awaited:
  "awaited (sample_first decision) = {}" "awaited sample_lost = {Ident 21}" "awaited sample_crashed = {}"
  by (auto simp: awaited_def batch_attempt_def sample_projection_defs split: if_splits)

theorem result_projection_exact_witness:
  "\<exists>p :: (unit, unit, unit) prepared_projection.
     prepare_delegation_result_projection 4 (sample_first (Deny None)) [Ident 101, Ident 102] (Ident 77) [] = Ok p \<and>
     map se_payload (pp_entries p) = [ToolExecutionResult (Ident 31), ToolDenied (Ident 22)]"
proof -
  note exact = result_projection_exact [OF sample_first_restored(2) rtranclp.rtrancl_refl sample_world _ bt_ok_Nil,
      where ids = "[Ident 101, Ident 102]" and frontier = "Ident 77" and 'i = unit and 's = unit
        and 'o = unit, unfolded sample_yielded]
  have "\<exists>p :: (unit, unit, unit) prepared_projection.
      prepare_delegation_result_projection 4 (sample_first (Deny None)) [Ident 101, Ident 102] (Ident 77) [] = Ok p"
    using exact sample_fresh(1) sample_awaited(1)
    by (auto simp: batch_attempt_def approved_in_def is_approved_def sample_projection_defs)
  then obtain p :: "(unit, unit, unit) prepared_projection" where
    p: "prepare_delegation_result_projection 4 (sample_first (Deny None))
      [Ident 101, Ident 102] (Ident 77) [] = Ok p" by blast
  with exact have "projection_of (request_entry (\<lambda>_. False) (sample_first (Deny None))) (sample_first (Deny None))
      [] [Ident 101, Ident 102] (Ident 77) p" by blast
  then have "map se_payload (pp_entries p) = [ToolExecutionResult (Ident 31), ToolDenied (Ident 22)]"
    by (simp add: projection_of_def placed_entry_def request_entry_def batch_approval_def batch_attempt_def
        is_approved_def sample_projection_defs)
  with p show ?thesis by (intro exI [of _ p] conjI)
qed

theorem execution_never_stuck_witness:
  "prepare_next_attempt (sample_first Approve) (Ident 32) EffectFree =
     Ok (prepare_attempt \<lparr>ap_request = sample_request 22 1,
       ap_approval = resolution_user (Ident 9) (Ident 22) Approve\<rparr> (Ident 32) (Ident 7) EffectFree)"
proof -
  have "\<not> list_ex (\<lambda>a. is_current a \<or> is_crash_lost a) (map snd (tb_attempts (sample_first Approve)))"
    "\<not> identity_in_use (sample_first Approve) (Ident 32)"
    "tb_phase (sample_first Approve) = Phase_Executing (Ident 7)"
    "Ident 77 \<noteq> snapshot (rs_frontier (tb_yielded_snapshot (sample_first Approve)))"
    "tb_yielded_snapshot (sample_first Approve) \<in> {sample_successor, sample_snapshot}"
    by (simp_all add: sample_projection_defs identity_in_use_def)
  moreover have "fst ` set ([] :: unit outcomes) = awaited (sample_first Approve)"
    by (simp add: sample_awaited)
  moreover have "filter (\<lambda>r. approved_in (tb_approvals (sample_first Approve)) (tr_id r) \<and>
      batch_attempt (sample_first Approve) (tr_id r) = None) (tb_requests (sample_first Approve)) =
        [sample_request 22 1]"
    and "batch_approval (sample_first Approve) (tr_id (sample_request 22 1)) =
      Some (resolution_user (Ident 9) (Ident 22) Approve)"
    by (simp_all add: sample_projection_defs approved_in_def is_approved_def batch_attempt_def
        batch_approval_def)
  ultimately show ?thesis
    using execution_never_stuck [OF sample_first_restored(1) rtranclp.rtrancl_refl, of "Ident 7" "Ident 32"
        4 "{sample_successor, sample_snapshot}" _ "[Ident 101, Ident 102]" "Ident 77" "[] :: unit outcomes" EffectFree]
      sample_world sample_fresh(1) by simp
qed


end
