(* ===== verification/Runner_Enrollment.thy ===== *)
theory Runner_Enrollment
  imports Runner_Catalog
begin

text \<open>
  Runner enrollment and registration, \<^verbatim>\<open>src/crates/domain/src/runner/enrollment.rs\<close>. The
  revision, the activity flag and the preparation fence are shared cells (\<^verbatim>\<open>Arc<AtomicU64>\<close>,
  \<^verbatim>\<open>Arc<AtomicBool>\<close>), so they are addresses into an explicit store that every operation threads.
\<close>

section \<open>Catalog facts\<close>

lemma collect_unique_Ok_iff:
  "collect_unique duplicate acc kvs = Ok m \<longleftrightarrow>
     distinct (map fst kvs) \<and> (\<forall>k \<in> fst ` set kvs. \<not> bt_contains acc k) \<and>
     m = fold (\<lambda>(k, v). bt_insert k v) kvs acc"
proof (induction duplicate acc kvs rule: collect_unique.induct)
  case (2 duplicate acc k v rest)
  have "bt_contains (bt_insert k v acc) x \<longleftrightarrow> x = k \<or> bt_contains acc x" for x
    by (auto simp: bt_contains_iff bt_get_insert)
  with 2 show ?case by auto
qed auto

lemma collect_distinct_Ok_iff:
  "collect_distinct duplicate acc xs = Ok s \<longleftrightarrow>
     distinct xs \<and> set xs \<inter> set acc = {} \<and> s = fold bs_insert xs acc"
  by (induction duplicate acc xs rule: collect_distinct.induct) auto

definition tool_admitted :: "runner_capability_class list \<Rightarrow> runner_tool_declaration \<Rightarrow> bool" where
  "tool_admitted classes tool \<longleftrightarrow>
     \<not> (td_effect tool = Effect_Idempotent \<and> allows_daemon (td_loci tool)) \<and>
     (\<forall>class. loci_runner_selector (td_loci tool) = Some (Selector_CapabilityClass class) \<longrightarrow>
        class \<in> set classes)"

lemma collect_tools_Ok_iff:
  "collect_tools classes acc tools = Ok m \<longleftrightarrow>
     list_all (tool_admitted classes) tools \<and>
     collect_unique DuplicateTool acc (map (\<lambda>t. (td_name t, t)) tools) = Ok m"
proof (induction classes acc tools rule: collect_tools.induct)
  case (2 classes acc tool rest)
  show ?case
  proof (cases "loci_runner_selector (td_loci tool)")
    case None
    with 2 show ?thesis by (auto simp: tool_admitted_def)
  next
    case (Some selector)
    with 2 show ?thesis by (cases selector) (auto simp: tool_admitted_def)
  qed
qed simp

definition catalog_ok :: "runner_catalog \<Rightarrow> bool" where
  "catalog_ok c \<longleftrightarrow>
     bs_ok (rc_classes c) \<and> bt_ok (rc_tools c) \<and> bt_ok (rc_profiles c) \<and>
     (\<forall>(n, t) \<in> set (rc_tools c). td_name t = n \<and> tool_admitted (rc_classes c) t) \<and>
     (\<forall>(n, p) \<in> set (rc_profiles c). cp_name p = n)"

lemma set_collect_unique:
  assumes "collect_unique duplicate [] kvs = Ok m"
  shows "bt_ok m" and "set m = set kvs"
proof -
  from assms have d: "distinct (map fst kvs)" and m: "m = bt_collect kvs"
    by (auto simp: collect_unique_Ok_iff bt_collect_def)
  show "bt_ok m" unfolding m by (rule bt_ok_collect)
  show "set m = set kvs" unfolding m by (rule set_bt_collect [OF d])
qed

lemma catalog_try_new_ok:
  assumes "catalog_try_new classes tools profiles workspaces sandboxes = Ok c"
  shows "catalog_ok c"
proof -
  from assms have cl: "collect_distinct DuplicateCapabilityClass [] classes = Ok (rc_classes c)"
    and tl: "collect_tools (rc_classes c) [] tools = Ok (rc_tools c)"
    and pr: "collect_unique DuplicateProfile [] (map (\<lambda>p. (cp_name p, p)) profiles) = Ok (rc_profiles c)"
    by (auto simp: catalog_try_new_def split: sum.splits option.splits)
  from tl have adm: "list_all (tool_admitted (rc_classes c)) tools"
    and un: "collect_unique DuplicateTool [] (map (\<lambda>t. (td_name t, t)) tools) = Ok (rc_tools c)"
    by (auto simp: collect_tools_Ok_iff)
  have "bs_ok (rc_classes c)" using cl bs_ok_fold [of "[]" classes] by (simp add: collect_distinct_Ok_iff)
  then show ?thesis
    using set_collect_unique [OF un] set_collect_unique [OF pr] adm
    by (auto simp: catalog_ok_def list_all_iff)
qed

section \<open>Shared cells\<close>

text \<open>An address is only ever obtained from an allocation, so reads are in range.\<close>

record runner_cells =
  cells_u64 :: "u64 list"
  cells_bool :: "bool list"

definition new_u64 :: "u64 \<Rightarrow> runner_cells \<Rightarrow> nat \<times> runner_cells" where
  "new_u64 v st = (length (cells_u64 st), st\<lparr>cells_u64 := cells_u64 st @ [v]\<rparr>)"

definition new_bool :: "bool \<Rightarrow> runner_cells \<Rightarrow> nat \<times> runner_cells" where
  "new_bool v st = (length (cells_bool st), st\<lparr>cells_bool := cells_bool st @ [v]\<rparr>)"

definition store_bool :: "nat \<Rightarrow> bool \<Rightarrow> runner_cells \<Rightarrow> runner_cells" where
  "store_bool a v st = st\<lparr>cells_bool := (cells_bool st)[a := v]\<rparr>"

definition exchange_bool :: "nat \<Rightarrow> bool \<Rightarrow> bool \<Rightarrow> runner_cells \<Rightarrow> bool \<times> runner_cells" where
  "exchange_bool a old new st =
     (if cells_bool st ! a = old then (True, store_bool a new st) else (False, st))"

definition exchange_u64 :: "nat \<Rightarrow> u64 \<Rightarrow> u64 \<Rightarrow> runner_cells \<Rightarrow> bool \<times> runner_cells" where
  "exchange_u64 a old new st =
     (if cells_u64 st ! a = old then (True, st\<lparr>cells_u64 := (cells_u64 st)[a := new]\<rparr>) else (False, st))"

section \<open>Enrollment\<close>

datatype runner_enrollment_state = Enrollment_Pending | Enrollment_Active | Enrollment_Revoked

record runner_enrollment =
  en_enrollment :: runner_enrollment_id
  en_runner :: runner_id
  en_authentication :: runner_authentication_id
  en_allowed_classes :: "runner_capability_class list"
  en_state :: runner_enrollment_state
  en_registration_revision :: nat
  en_registration_active :: nat
  en_registration_preparation :: nat

record validated_registration =
  vr_enrollment :: runner_enrollment_id
  vr_runner :: runner_id
  vr_authentication :: runner_authentication_id
  vr_catalog_tools :: "tool_name list"
  vr_classes :: "runner_capability_class list"
  vr_tools :: "(tool_name \<times> runner_tool_declaration) list"
  vr_profiles :: "(credential_profile_name \<times> credential_profile_policy) list"
  vr_workspaces :: "workspace_capability list"
  vr_sandboxes :: "runner_sandbox_profile list"
  vr_default_working_directory :: "runner_working_directory option"
  vr_repositories :: "(workspace_repository_key \<times> runner_repository_entry) list"
  vr_revision :: runner_generation
  vr_current_revision :: nat
  vr_enrollment_active :: nat

text \<open>\<^verbatim>\<open>PartialEq\<close> leaves the cells out.\<close>

definition registration_eq :: "validated_registration \<Rightarrow> validated_registration \<Rightarrow> bool" where
  "registration_eq a b \<longleftrightarrow>
     vr_enrollment a = vr_enrollment b \<and> vr_runner a = vr_runner b \<and>
     vr_authentication a = vr_authentication b \<and> vr_catalog_tools a = vr_catalog_tools b \<and>
     vr_classes a = vr_classes b \<and> vr_tools a = vr_tools b \<and> vr_profiles a = vr_profiles b \<and>
     vr_workspaces a = vr_workspaces b \<and> vr_sandboxes a = vr_sandboxes b \<and>
     vr_default_working_directory a = vr_default_working_directory b \<and>
     vr_repositories a = vr_repositories b \<and> vr_revision a = vr_revision b"

record prepared_registration =
  pr_expected_revision :: u64
  pr_preparation :: nat
  pr_registration :: validated_registration

definition enrollment_new ::
  "runner_enrollment_id \<Rightarrow> runner_id \<Rightarrow> runner_authentication_id \<Rightarrow> runner_capability_class list
     \<Rightarrow> runner_cells \<Rightarrow> runner_enrollment \<times> runner_cells" where
  "enrollment_new enrollment runner authentication allowed_classes st =
     (let (revision, st1) = new_u64 0 st;
          (active, st2) = new_bool True st1;
          (preparation, st3) = new_bool False st2
      in (\<lparr>en_enrollment = enrollment, en_runner = runner, en_authentication = authentication,
           en_allowed_classes = bs_of_list allowed_classes, en_state = Enrollment_Active,
           en_registration_revision = revision, en_registration_active = active,
           en_registration_preparation = preparation\<rparr>, st3))"

definition last_issued_registration_revision ::
  "runner_enrollment \<Rightarrow> runner_cells \<Rightarrow> runner_generation option" where
  "last_issued_registration_revision e st =
     generation_try_from_u64 (cells_u64 st ! en_registration_revision e)"

definition revoke_in_place ::
  "runner_enrollment \<Rightarrow> runner_cells \<Rightarrow> (runner_domain_error + runner_enrollment) \<times> runner_cells" where
  "revoke_in_place e st =
     (if en_state e \<noteq> Enrollment_Active then (Err Runner_InvalidState, st)
      else (Ok (e\<lparr>en_state := Enrollment_Revoked\<rparr>), store_bool (en_registration_active e) False st))"

definition promote_pending_in_place ::
  "runner_enrollment \<Rightarrow> runner_cells \<Rightarrow> (runner_domain_error + runner_enrollment) \<times> runner_cells" where
  "promote_pending_in_place e st =
     (if en_state e \<noteq> Enrollment_Pending then (Err Runner_InvalidState, st)
      else (Ok (e\<lparr>en_state := Enrollment_Active\<rparr>), store_bool (en_registration_active e) True st))"

text \<open>The locus of a tool the runner may not offer.\<close>

definition locus_not_allowed ::
  "runner_enrollment \<Rightarrow> runner_advertisement \<Rightarrow> runner_catalog \<Rightarrow> tool_name \<Rightarrow> bool" where
  "locus_not_allowed e advertisement catalog tool \<longleftrightarrow>
     (case bt_get (rc_tools catalog) tool of
        None \<Rightarrow> True
      | Some declaration \<Rightarrow>
          (case loci_runner_selector (td_loci declaration) of
             Some (Selector_Identity runner) \<Rightarrow> runner \<noteq> en_runner e
           | Some (Selector_CapabilityClass class) \<Rightarrow> class \<notin> set (av_classes advertisement)
           | None \<Rightarrow> True))"

fun unavailable_profile ::
  "credential_profile_name list \<Rightarrow> runner_repository_entry list \<Rightarrow> credential_profile_name option" where
  "unavailable_profile profiles [] = None"
| "unavailable_profile profiles (entry # rest) =
     (case re_credential_profile entry of
        Some profile \<Rightarrow> if profile \<notin> set profiles then Some profile else unavailable_profile profiles rest
      | None \<Rightarrow> unavailable_profile profiles rest)"

text \<open>The checks made while the preparation fence is held.\<close>

definition check_advertisement ::
  "runner_enrollment \<Rightarrow> runner_advertisement \<Rightarrow> runner_catalog \<Rightarrow> runner_domain_error option" where
  "check_advertisement e advertisement catalog =
     (case find (\<lambda>class. class \<notin> set (en_allowed_classes e) \<or> class \<notin> set (rc_classes catalog))
             (av_classes advertisement) of
        Some class \<Rightarrow> Some (CapabilityClassNotAllowed class)
      | None \<Rightarrow>
      (case find (\<lambda>tool. \<not> bt_contains (rc_tools catalog) tool) (av_tools advertisement) of
        Some tool \<Rightarrow> Some (ToolUndeclared tool)
      | None \<Rightarrow>
      (case find (locus_not_allowed e advertisement catalog) (av_tools advertisement) of
        Some tool \<Rightarrow> Some (ToolLocusNotAllowed tool)
      | None \<Rightarrow>
      (case find (\<lambda>profile. \<not> bt_contains (rc_profiles catalog) profile) (av_profiles advertisement) of
        Some profile \<Rightarrow> Some (CredentialProfileUndeclared profile)
      | None \<Rightarrow>
      (case find (\<lambda>workspace. workspace \<notin> set (rc_workspaces catalog)) (av_workspaces advertisement) of
        Some workspace \<Rightarrow> Some (WorkspaceCapabilityNotAllowed workspace)
      | None \<Rightarrow>
      (case find (\<lambda>sandbox. sandbox \<notin> set (rc_sandboxes catalog)) (av_sandboxes advertisement) of
        Some sandbox \<Rightarrow> Some (SandboxProfileNotAllowed sandbox)
      | None \<Rightarrow>
      map_option RepositoryProfileUnavailable
        (unavailable_profile (av_profiles advertisement) (map snd (av_repositories advertisement)))))))))"

text \<open>The loops that pair each advertised name with its catalog entry.\<close>

fun collect_declared ::
  "('k::linorder \<Rightarrow> runner_domain_error) \<Rightarrow> ('k \<times> 'v) list \<Rightarrow> ('k \<times> 'v) list \<Rightarrow> 'k list
     \<Rightarrow> runner_domain_error + ('k \<times> 'v) list" where
  "collect_declared missing table acc [] = Ok acc"
| "collect_declared missing table acc (name # names) =
     (case bt_get table name of
        None \<Rightarrow> Err (missing name)
      | Some entry \<Rightarrow> collect_declared missing table (bt_insert name entry acc) names)"

definition prepare_registration ::
  "runner_enrollment \<Rightarrow> runner_advertisement \<Rightarrow> runner_catalog \<Rightarrow> runner_cells
     \<Rightarrow> (runner_domain_error + prepared_registration) \<times> runner_cells" where
  "prepare_registration e advertisement catalog st =
     (if en_state e \<noteq> Enrollment_Active then (Err EnrollmentRevoked, st)
      else if length (av_repositories advertisement) > max_repositories
      then (Err TooManyAdvertisedRepositories, st)
      else case exchange_bool (en_registration_preparation e) False True st of
        (False, st1) \<Rightarrow> (Err RegistrationInProgress, st1)
      | (True, st1) \<Rightarrow>
          (let released = store_bool (en_registration_preparation e) False st1 in
           case check_advertisement e advertisement catalog of
             Some failure \<Rightarrow> (Err failure, released)
           | None \<Rightarrow>
           (case collect_declared ToolUndeclared (rc_tools catalog) [] (av_tools advertisement) of
             Err failure \<Rightarrow> (Err failure, released)
           | Ok tools \<Rightarrow>
           (case collect_declared CredentialProfileUndeclared (rc_profiles catalog) []
                   (av_profiles advertisement) of
             Err failure \<Rightarrow> (Err failure, released)
           | Ok profiles \<Rightarrow>
             (let prior_revision = cells_u64 st1 ! en_registration_revision e in
              case Option.bind (checked_succ prior_revision) generation_try_from_u64 of
                None \<Rightarrow> (Err GenerationExhausted, released)
              | Some revision \<Rightarrow>
                  (Ok \<lparr>pr_expected_revision = prior_revision,
                       pr_preparation = en_registration_preparation e,
                       pr_registration =
                         \<lparr>vr_enrollment = en_enrollment e, vr_runner = en_runner e,
                          vr_authentication = en_authentication e,
                          vr_catalog_tools = map fst (rc_tools catalog),
                          vr_classes = av_classes advertisement, vr_tools = tools,
                          vr_profiles = profiles, vr_workspaces = av_workspaces advertisement,
                          vr_sandboxes = av_sandboxes advertisement,
                          vr_default_working_directory = av_default_working_directory advertisement,
                          vr_repositories = av_repositories advertisement, vr_revision = revision,
                          vr_current_revision = en_registration_revision e,
                          vr_enrollment_active = en_registration_active e\<rparr>\<rparr>, st1))))))"

text \<open>
  \<^verbatim>\<open>commit\<close> consumes the prepared value, so its guard is dropped on every path; \<open>abandon\<close> is the
  drop of a prepared value that is not committed.
\<close>

definition abandon :: "prepared_registration \<Rightarrow> runner_cells \<Rightarrow> runner_cells" where
  "abandon p st = store_bool (pr_preparation p) False st"

definition commit_registration ::
  "prepared_registration \<Rightarrow> runner_cells
     \<Rightarrow> (runner_domain_error + validated_registration) \<times> runner_cells" where
  "commit_registration p st =
     (if \<not> cells_bool st ! vr_enrollment_active (pr_registration p)
      then (Err EnrollmentRevoked, abandon p st)
      else case exchange_u64 (vr_current_revision (pr_registration p)) (pr_expected_revision p)
             (vr_revision (pr_registration p)) st of
        (False, st1) \<Rightarrow> (Err RegistrationChanged, abandon p st1)
      | (True, st1) \<Rightarrow> (Ok (pr_registration p), abandon p st1))"

definition register ::
  "runner_enrollment \<Rightarrow> runner_advertisement \<Rightarrow> runner_catalog \<Rightarrow> runner_cells
     \<Rightarrow> (runner_domain_error + validated_registration) \<times> runner_cells" where
  "register e advertisement catalog st =
     (case prepare_registration e advertisement catalog st of
        (Err failure, st1) \<Rightarrow> (Err failure, st1)
      | (Ok p, st1) \<Rightarrow> commit_registration p st1)"

definition new_pending ::
  "runner_enrollment_id \<Rightarrow> runner_id \<Rightarrow> runner_authentication_id \<Rightarrow> runner_capability_class list
     \<Rightarrow> runner_advertisement \<Rightarrow> runner_catalog \<Rightarrow> runner_cells
     \<Rightarrow> (runner_domain_error + runner_enrollment \<times> validated_registration) \<times> runner_cells" where
  "new_pending enrollment runner authentication allowed_classes advertisement catalog st =
     (let (e, st1) = enrollment_new enrollment runner authentication allowed_classes st in
      case register e advertisement catalog st1 of
        (Err failure, st2) \<Rightarrow> (Err failure, st2)
      | (Ok registration, st2) \<Rightarrow>
          (Ok (e\<lparr>en_state := Enrollment_Pending\<rparr>, registration),
           store_bool (en_registration_active e) False st2))"

definition is_current_registration :: "validated_registration \<Rightarrow> runner_cells \<Rightarrow> bool" where
  "is_current_registration r st \<longleftrightarrow>
     cells_bool st ! vr_enrollment_active r \<and> cells_u64 st ! vr_current_revision r = vr_revision r"

definition authorizes ::
  "runner_enrollment \<Rightarrow> validated_registration \<Rightarrow> runner_cells \<Rightarrow> runner_domain_error + unit" where
  "authorizes e r st =
     (if en_state e \<noteq> Enrollment_Active then Err EnrollmentRevoked
      else if en_enrollment e \<noteq> vr_enrollment r \<or> en_runner e \<noteq> vr_runner r \<or>
              en_authentication e \<noteq> vr_authentication r \<or>
              en_registration_revision e \<noteq> vr_current_revision r \<or>
              en_registration_active e \<noteq> vr_enrollment_active r
      then Err Runner_CorrelationMismatch
      else if \<not> is_current_registration r st then Err RegistrationChanged
      else Ok ())"

fun satisfies :: "validated_registration \<Rightarrow> runner_selector \<Rightarrow> bool" where
  "satisfies r (Selector_Identity runner) = (vr_runner r = runner)"
| "satisfies r (Selector_CapabilityClass class) = (class \<in> set (vr_classes r))"

section \<open>Stored facts\<close>

record enrollment_input =
  ei_enrollment :: runner_enrollment_id
  ei_recorded_enrollment :: runner_enrollment_id
  ei_runner :: runner_id
  ei_recorded_runner :: runner_id
  ei_authentication :: runner_authentication_id
  ei_recorded_authentication :: runner_authentication_id
  ei_allowed_classes :: "runner_capability_class list"
  ei_recorded_allowed_classes :: "runner_capability_class list"
  ei_registration_revision :: "runner_generation option"
  ei_recorded_registration_revision :: "runner_generation option"
  ei_state :: runner_enrollment_state
  ei_recorded_state :: runner_enrollment_state

definition reconstitute_enrollment ::
  "enrollment_input \<Rightarrow> runner_cells \<Rightarrow> (runner_domain_error + runner_enrollment) \<times> runner_cells" where
  "reconstitute_enrollment i st =
     (if ei_enrollment i \<noteq> ei_recorded_enrollment i \<or> ei_runner i \<noteq> ei_recorded_runner i \<or>
         ei_authentication i \<noteq> ei_recorded_authentication i \<or>
         ei_allowed_classes i \<noteq> ei_recorded_allowed_classes i \<or>
         ei_registration_revision i \<noteq> ei_recorded_registration_revision i \<or>
         ei_state i \<noteq> ei_recorded_state i
      then (Err CorruptStoredFacts, st)
      else let registration_revision =
                 (case ei_registration_revision i of None \<Rightarrow> 0 | Some revision \<Rightarrow> revision);
               (revision, st1) = new_u64 registration_revision st;
               (active, st2) = new_bool (ei_state i = Enrollment_Active) st1;
               (preparation, st3) = new_bool False st2
           in (Ok \<lparr>en_enrollment = ei_enrollment i, en_runner = ei_runner i,
                   en_authentication = ei_authentication i,
                   en_allowed_classes = ei_allowed_classes i, en_state = ei_state i,
                   en_registration_revision = revision, en_registration_active = active,
                   en_registration_preparation = preparation\<rparr>, st3))"

record registration_input =
  gi_enrollment :: runner_enrollment_id
  gi_revision :: runner_generation
  gi_runner :: runner_id
  gi_authentication :: runner_authentication_id
  gi_classes :: "runner_capability_class list"
  gi_tools :: "runner_tool_declaration list"
  gi_profiles :: "credential_profile_policy list"
  gi_workspaces :: "workspace_capability list"
  gi_sandboxes :: "runner_sandbox_profile list"
  gi_repositories :: "runner_repository_entry list"
  gi_default_working_directory :: "runner_working_directory option"

definition reconstitute_registration ::
  "runner_enrollment \<Rightarrow> runner_catalog \<Rightarrow> registration_input \<Rightarrow> runner_cells
     \<Rightarrow> (runner_domain_error + validated_registration) \<times> runner_cells" where
  "reconstitute_registration e catalog i st =
     (if en_enrollment e \<noteq> gi_enrollment i \<or> en_runner e \<noteq> gi_runner i \<or>
         en_authentication e \<noteq> gi_authentication i
      then (Err CorruptStoredFacts, st)
      else let
        advertisement = with_default_working_directory (gi_default_working_directory i)
          (advertisement_new (gi_classes i) (map td_name (gi_tools i)) (map cp_name (gi_profiles i))
            (gi_workspaces i) (gi_sandboxes i) (gi_repositories i));
        stored_tools = bt_collect (map (\<lambda>tool. (td_name tool, tool)) (gi_tools i));
        stored_profiles = bt_collect (map (\<lambda>profile. (cp_name profile, profile)) (gi_profiles i));
        stored_repositories = bt_collect (map (\<lambda>entry. (re_key entry, entry)) (gi_repositories i));
        (revision, st1) = new_u64 0 st;
        (active, st2) = new_bool True st1;
        (preparation, st3) = new_bool False st2;
        historical_authority = e\<lparr>en_state := Enrollment_Active, en_registration_revision := revision,
          en_registration_active := active, en_registration_preparation := preparation\<rparr>
      in case prepare_registration historical_authority advertisement catalog st3 of
        (Err _, st4) \<Rightarrow> (Err CorruptStoredFacts, st4)
      | (Ok p, st4) \<Rightarrow>
          (let registration = pr_registration p; st5 = abandon p st4 in
           if length stored_tools \<noteq> length (gi_tools i) \<or>
              length stored_profiles \<noteq> length (gi_profiles i) \<or>
              vr_classes registration \<noteq> gi_classes i \<or> vr_tools registration \<noteq> stored_tools \<or>
              vr_profiles registration \<noteq> stored_profiles \<or>
              vr_workspaces registration \<noteq> gi_workspaces i \<or>
              vr_sandboxes registration \<noteq> gi_sandboxes i \<or>
              length stored_repositories \<noteq> length (gi_repositories i) \<or>
              vr_repositories registration \<noteq> stored_repositories
           then (Err CorruptStoredFacts, st5)
           else (Ok (registration\<lparr>vr_revision := gi_revision i,
                       vr_current_revision := en_registration_revision e,
                       vr_enrollment_active := en_registration_active e\<rparr>), st5)))"

section \<open>The registration fence\<close>

text \<open>
  One enrollment authority at work: its cells, its prepared registrations that are neither
  committed nor dropped, and the registrations committed so far, oldest first. A step is one call of
  an operation; its loads and exchanges are not interleaved with those of another call.
\<close>

record registration_world =
  rw_cells :: runner_cells
  rw_enrollment :: runner_enrollment
  rw_outstanding :: "prepared_registration list"
  rw_committed :: "validated_registration list"

inductive registration_step :: "registration_world \<Rightarrow> registration_world \<Rightarrow> bool" where
  step_prepare:
    "prepare_registration (rw_enrollment w) advertisement catalog (rw_cells w) = (Ok p, st) \<Longrightarrow>
     registration_step w (w\<lparr>rw_cells := st, rw_outstanding := p # rw_outstanding w\<rparr>)"
| step_prepare_rejected:
    "prepare_registration (rw_enrollment w) advertisement catalog (rw_cells w) = (Err f, st) \<Longrightarrow>
     registration_step w (w\<lparr>rw_cells := st\<rparr>)"
| step_commit:
    "p \<in> set (rw_outstanding w) \<Longrightarrow> commit_registration p (rw_cells w) = (Ok r, st) \<Longrightarrow>
     registration_step w (w\<lparr>rw_cells := st, rw_outstanding := remove1 p (rw_outstanding w),
       rw_committed := rw_committed w @ [r]\<rparr>)"
| step_commit_rejected:
    "p \<in> set (rw_outstanding w) \<Longrightarrow> commit_registration p (rw_cells w) = (Err f, st) \<Longrightarrow>
     registration_step w (w\<lparr>rw_cells := st, rw_outstanding := remove1 p (rw_outstanding w)\<rparr>)"
| step_abandon:
    "p \<in> set (rw_outstanding w) \<Longrightarrow>
     registration_step w (w\<lparr>rw_cells := abandon p (rw_cells w),
       rw_outstanding := remove1 p (rw_outstanding w)\<rparr>)"
| step_revoke:
    "revoke_in_place (rw_enrollment w) (rw_cells w) = (Ok e, st) \<Longrightarrow>
     registration_step w (w\<lparr>rw_cells := st, rw_enrollment := e\<rparr>)"
| step_promote:
    "promote_pending_in_place (rw_enrollment w) (rw_cells w) = (Ok e, st) \<Longrightarrow>
     registration_step w (w\<lparr>rw_cells := st, rw_enrollment := e\<rparr>)"

definition bound_to :: "runner_enrollment \<Rightarrow> validated_registration \<Rightarrow> bool" where
  "bound_to e r \<longleftrightarrow>
     vr_enrollment r = en_enrollment e \<and> vr_runner r = en_runner e \<and>
     vr_authentication r = en_authentication e \<and>
     vr_current_revision r = en_registration_revision e \<and>
     vr_enrollment_active r = en_registration_active e"

definition cells_ok :: "runner_enrollment \<Rightarrow> runner_cells \<Rightarrow> bool" where
  "cells_ok e st \<longleftrightarrow>
     en_registration_revision e < length (cells_u64 st) \<and>
     en_registration_active e < length (cells_bool st) \<and>
     en_registration_preparation e < length (cells_bool st) \<and>
     en_registration_active e \<noteq> en_registration_preparation e"

definition outstanding_ok :: "runner_enrollment \<Rightarrow> u64 \<Rightarrow> prepared_registration \<Rightarrow> bool" where
  "outstanding_ok e revision p \<longleftrightarrow>
     pr_preparation p = en_registration_preparation e \<and> bound_to e (pr_registration p) \<and>
     pr_expected_revision p = revision \<and>
     checked_succ revision = Some (vr_revision (pr_registration p))"

definition fence_ok :: "nat \<Rightarrow> registration_world \<Rightarrow> bool" where
  "fence_ok base w \<longleftrightarrow>
     (let e = rw_enrollment w; st = rw_cells w; revision = cells_u64 st ! en_registration_revision e in
      cells_ok e st \<and>
      cells_bool st ! en_registration_active e = (en_state e = Enrollment_Active) \<and>
      cells_bool st ! en_registration_preparation e = (rw_outstanding w \<noteq> []) \<and>
      length (rw_outstanding w) \<le> 1 \<and>
      (\<forall>p \<in> set (rw_outstanding w). outstanding_ok e revision p) \<and>
      (\<forall>r \<in> set (rw_committed w). bound_to e r) \<and>
      map (\<lambda>r. unat (vr_revision r)) (rw_committed w) =
        [Suc base..<Suc (base + length (rw_committed w))] \<and>
      unat revision = base + length (rw_committed w))"

lemmas cell_defs = exchange_bool_def exchange_u64_def store_bool_def abandon_def

lemma prepare_OkE:
  assumes "prepare_registration e advertisement catalog st = (Ok p, st')"
  shows "en_state e = Enrollment_Active" and "\<not> cells_bool st ! en_registration_preparation e"
    and "st' = store_bool (en_registration_preparation e) True st"
    and "outstanding_ok e (cells_u64 st ! en_registration_revision e) p"
  using assms checked_succ_neq_0
  by (auto simp: prepare_registration_def cell_defs outstanding_ok_def bound_to_def Let_def
      generation_try_from_u64_def
      split: if_splits option.splits sum.splits bind_splits)

lemma prepare_ErrE:
  assumes "prepare_registration e advertisement catalog st = (Err f, st')" and "cells_ok e st"
  shows "st' = st"
proof -
  have "(cells_bool st)[a := False] = cells_bool st" if "\<not> cells_bool st ! a" for a
    using that by (metis (full_types) list_update_id)
  with assms show ?thesis
    by (auto simp: prepare_registration_def cell_defs Let_def
        split: if_splits option.splits sum.splits)
qed

lemma fence_state:
  assumes "fence_ok base w"
  shows "fence_ok base (w\<lparr>rw_cells := store_bool (en_registration_active (rw_enrollment w))
      (state = Enrollment_Active) (rw_cells w), rw_enrollment := (rw_enrollment w)\<lparr>en_state := state\<rparr>\<rparr>)"
  using assms
  by (auto simp: fence_ok_def Let_def cells_ok_def store_bool_def outstanding_ok_def bound_to_def)

lemma fence_keep:
  assumes "fence_ok base w" and "registration_step w w'"
  shows "fence_ok base w'"
  using assms(2,1)
proof (induction rule: registration_step.induct)
  case (step_prepare w advertisement catalog p st)
  from prepare_OkE [OF step_prepare(1)] have p: "en_state (rw_enrollment w) = Enrollment_Active"
      "\<not> cells_bool (rw_cells w) ! en_registration_preparation (rw_enrollment w)"
      "st = store_bool (en_registration_preparation (rw_enrollment w)) True (rw_cells w)"
      "outstanding_ok (rw_enrollment w)
         (cells_u64 (rw_cells w) ! en_registration_revision (rw_enrollment w)) p"
    by auto
  with step_prepare(2) show ?case
    by (auto simp: fence_ok_def Let_def cells_ok_def store_bool_def)
next
  case (step_prepare_rejected w advertisement catalog f st)
  then have "st = rw_cells w" by (auto simp: fence_ok_def Let_def intro: prepare_ErrE)
  with step_prepare_rejected(2) show ?case by simp
next
  case (step_commit p w r st)
  let ?e = "rw_enrollment w" and ?c = "rw_cells w"
  from step_commit(1,3) have out: "rw_outstanding w = [p]"
    by (cases "rw_outstanding w") (auto simp: fence_ok_def Let_def)
  from step_commit(3) out have p: "outstanding_ok ?e (cells_u64 ?c ! en_registration_revision ?e) p"
    by (simp add: fence_ok_def Let_def)
  have r: "r = pr_registration p"
    and st: "st = ?c\<lparr>cells_u64 := (cells_u64 ?c)[en_registration_revision ?e := vr_revision r],
        cells_bool := (cells_bool ?c)[en_registration_preparation ?e := False]\<rparr>"
    using step_commit(2) p
    by (auto simp: commit_registration_def cell_defs outstanding_ok_def bound_to_def split: if_splits)
  have "unat (vr_revision r) = Suc (unat (cells_u64 ?c ! en_registration_revision ?e))"
    using p unat_checked_succ by (auto simp: outstanding_ok_def r)
  with step_commit(3) out p show ?case
    by (simp add: fence_ok_def Let_def cells_ok_def st r [symmetric] outstanding_ok_def)
next
  case (step_commit_rejected p w f st)
  from step_commit_rejected(1,3) have out: "rw_outstanding w = [p]"
    by (cases "rw_outstanding w") (auto simp: fence_ok_def Let_def)
  have "pr_preparation p = en_registration_preparation (rw_enrollment w)"
    using step_commit_rejected(3) out by (simp add: fence_ok_def Let_def outstanding_ok_def)
  then have "st = store_bool (en_registration_preparation (rw_enrollment w)) False (rw_cells w)"
    using step_commit_rejected(2) by (auto simp: commit_registration_def cell_defs split: if_splits)
  with step_commit_rejected(3) out show ?case
    by (simp add: fence_ok_def Let_def cells_ok_def store_bool_def)
next
  case (step_abandon p w)
  then have out: "rw_outstanding w = [p]"
    by (cases "rw_outstanding w") (auto simp: fence_ok_def Let_def)
  then have "pr_preparation p = en_registration_preparation (rw_enrollment w)"
    using step_abandon(2) by (simp add: fence_ok_def Let_def outstanding_ok_def)
  with step_abandon(2) out show ?case
    by (simp add: fence_ok_def Let_def cells_ok_def store_bool_def abandon_def)
next
  case (step_revoke w e st)
  then show ?case
    using fence_state [of base w Enrollment_Revoked] by (auto simp: revoke_in_place_def split: if_splits)
next
  case (step_promote w e st)
  then show ?case
    using fence_state [of base w Enrollment_Active] by (auto simp: promote_pending_in_place_def split: if_splits)
qed

lemma fence_reachable: "registration_step\<^sup>*\<^sup>* w w' \<Longrightarrow> fence_ok base w \<Longrightarrow> fence_ok base w'"
  by (induction rule: rtranclp_induct) (auto intro: fence_keep)

definition new_world :: "runner_enrollment \<times> runner_cells \<Rightarrow> registration_world" where
  "new_world c = \<lparr>rw_cells = snd c, rw_enrollment = fst c, rw_outstanding = [], rw_committed = []\<rparr>"

text \<open>
  How an enrollment authority comes to be, with the revision issued before: new and active without a
  registration, pending with the one registration it was validated with, or restored from stored
  facts, without a registration or with the one of the last issued revision.
\<close>

inductive enrolled :: "nat \<Rightarrow> registration_world \<Rightarrow> bool" where
  enrolled_new:
    "enrolled 0 (new_world (enrollment_new enrollment runner authentication classes st))"
| enrolled_pending:
    "new_pending enrollment runner authentication classes advertisement catalog st = (Ok (e, r), st') \<Longrightarrow>
     enrolled 0 (new_world (e, st')\<lparr>rw_committed := [r]\<rparr>)"
| enrolled_restored:
    "reconstitute_enrollment i st = (Ok e, st') \<Longrightarrow>
     enrolled (case ei_registration_revision i of None \<Rightarrow> 0 | Some revision \<Rightarrow> unat revision)
       (new_world (e, st'))"
| enrolled_restored_registered:
    "reconstitute_enrollment i st = (Ok e, st') \<Longrightarrow> ei_registration_revision i = Some (gi_revision g) \<Longrightarrow>
     unat (gi_revision g) = Suc base \<Longrightarrow> reconstitute_registration e catalog g st' = (Ok r, st'') \<Longrightarrow>
     enrolled base (new_world (e, st'')\<lparr>rw_committed := [r]\<rparr>)"

lemma fence_new: "fence_ok 0 (new_world (enrollment_new enrollment runner authentication classes st))"
  by (simp add: fence_ok_def new_world_def enrollment_new_def new_u64_def new_bool_def cells_ok_def
      nth_append Let_def)

lemma fence_pending:
  assumes "new_pending enrollment runner authentication classes advertisement catalog st = (Ok (e, r), st')"
  shows "fence_ok 0 (new_world (e, st')\<lparr>rw_committed := [r]\<rparr>)"
proof -
  let ?new = "enrollment_new enrollment runner authentication classes st"
  obtain p st1 st2 where p: "prepare_registration (fst ?new) advertisement catalog (snd ?new) = (Ok p, st1)"
    and r: "commit_registration p st1 = (Ok r, st2)"
    and e: "e = (fst ?new)\<lparr>en_state := Enrollment_Pending\<rparr>"
    and st': "st' = store_bool (en_registration_active (fst ?new)) False st2"
    using assms by (auto simp: new_pending_def register_def split: prod.splits sum.splits)
  let ?w = "new_world ?new\<lparr>rw_cells := st2, rw_committed := [r]\<rparr>"
  have "registration_step (new_world ?new) (new_world ?new\<lparr>rw_cells := st1, rw_outstanding := [p]\<rparr>)"
    using step_prepare [of "new_world ?new"] p by (simp add: new_world_def)
  moreover have "registration_step (new_world ?new\<lparr>rw_cells := st1, rw_outstanding := [p]\<rparr>) ?w"
    using step_commit [of p "new_world ?new\<lparr>rw_cells := st1, rw_outstanding := [p]\<rparr>"] r
    by (simp add: new_world_def)
  ultimately have "fence_ok 0 ?w" using fence_new fence_keep by blast
  from fence_state [OF this, of Enrollment_Pending] show ?thesis by (simp add: new_world_def e st')
qed

lemma fence_restored:
  assumes "reconstitute_enrollment i st = (Ok e, st')"
  shows "fence_ok (case ei_registration_revision i of None \<Rightarrow> 0 | Some revision \<Rightarrow> unat revision)
      (new_world (e, st'))"
  using assms
  by (auto simp: fence_ok_def new_world_def reconstitute_enrollment_def new_u64_def new_bool_def
      cells_ok_def nth_append Let_def split: if_splits option.splits)

lemma restored_registration:
  assumes "reconstitute_registration e catalog g st = (Ok r, st')"
  shows "bound_to e r" and "vr_revision r = gi_revision g"
    and "\<exists>us bs. st' = st\<lparr>cells_u64 := cells_u64 st @ us, cells_bool := cells_bool st @ bs\<rparr>"
proof -
  let ?n = "length (cells_bool st)"
  let ?h = "e\<lparr>en_state := Enrollment_Active, en_registration_revision := length (cells_u64 st),
      en_registration_active := ?n, en_registration_preparation := Suc ?n\<rparr>"
  let ?st = "st\<lparr>cells_u64 := cells_u64 st @ [0], cells_bool := cells_bool st @ [True, False]\<rparr>"
  obtain a p st1 where p: "prepare_registration ?h a catalog ?st = (Ok p, st1)"
    and same: "en_enrollment e = gi_enrollment g" "en_runner e = gi_runner g"
      "en_authentication e = gi_authentication g"
    and r: "r = (pr_registration p)\<lparr>vr_revision := gi_revision g,
        vr_current_revision := en_registration_revision e, vr_enrollment_active := en_registration_active e\<rparr>"
    and st': "st' = abandon p st1"
    using assms
    by (auto simp: reconstitute_registration_def new_u64_def new_bool_def Let_def
        split: if_splits prod.splits sum.splits)
  have out: "outstanding_ok ?h (cells_u64 ?st ! en_registration_revision ?h) p"
    and st1: "st1 = store_bool (Suc ?n) True ?st"
    using prepare_OkE [OF p] by simp_all
  show "bound_to e r" "vr_revision r = gi_revision g"
    using out by (simp_all add: r outstanding_ok_def bound_to_def)
  show "\<exists>us bs. st' = st\<lparr>cells_u64 := cells_u64 st @ us, cells_bool := cells_bool st @ bs\<rparr>"
    using out by (auto simp: st' st1 abandon_def store_bool_def outstanding_ok_def list_update_append)
qed

lemma fence_enrolled: "enrolled base w \<Longrightarrow> fence_ok base w"
proof (induction rule: enrolled.induct)
  case (enrolled_restored_registered i st e st' g base catalog r st'')
  obtain us bs where "st'' = st'\<lparr>cells_u64 := cells_u64 st' @ us, cells_bool := cells_bool st' @ bs\<rparr>"
    using restored_registration(3) [OF enrolled_restored_registered(4)] by blast
  with fence_restored [OF enrolled_restored_registered(1)] enrolled_restored_registered(2,3)
    restored_registration(1,2) [OF enrolled_restored_registered(4)]
  show ?case by (auto simp: fence_ok_def new_world_def cells_ok_def Let_def nth_append)
qed (rule fence_new, erule fence_pending, erule fence_restored)

lemma current_iff_last:
  assumes ok: "fence_ok base w" and k: "k < length (rw_committed w)"
  shows "is_current_registration (rw_committed w ! k) (rw_cells w) \<longleftrightarrow>
    en_state (rw_enrollment w) = Enrollment_Active \<and> Suc k = length (rw_committed w)"
proof -
  let ?r = "rw_committed w ! k"
  have bound: "bound_to (rw_enrollment w) ?r" using ok k by (auto simp: fence_ok_def Let_def)
  have "map (\<lambda>r. unat (vr_revision r)) (rw_committed w) ! k =
      [Suc base..<Suc (base + length (rw_committed w))] ! k"
    using ok by (simp add: fence_ok_def Let_def)
  then have "unat (vr_revision ?r) = Suc (base + k)" using k by (simp del: upt_Suc)
  then have "cells_u64 (rw_cells w) ! en_registration_revision (rw_enrollment w) = vr_revision ?r \<longleftrightarrow>
      Suc k = length (rw_committed w)"
    using ok by (auto simp: fence_ok_def Let_def word_unat_eq_iff)
  then show ?thesis
    using ok bound by (auto simp: is_current_registration_def bound_to_def fence_ok_def Let_def)
qed

lemma authorizes_iff_last:
  assumes "fence_ok base w" and "k < length (rw_committed w)"
  shows "authorizes (rw_enrollment w) (rw_committed w ! k) (rw_cells w) = Ok () \<longleftrightarrow>
    en_state (rw_enrollment w) = Enrollment_Active \<and> Suc k = length (rw_committed w)"
proof -
  have "bound_to (rw_enrollment w) (rw_committed w ! k)"
    using assms by (auto simp: fence_ok_def Let_def)
  then show ?thesis
    using current_iff_last [OF assms] by (auto simp: authorizes_def bound_to_def)
qed

lemma promotion_authorizes:
  assumes "fence_ok base w" and "en_state (rw_enrollment w) = Enrollment_Pending"
  shows "\<exists>e st. promote_pending_in_place (rw_enrollment w) (rw_cells w) = (Ok e, st) \<and>
    en_state e = Enrollment_Active \<and>
    (rw_committed w \<noteq> [] \<longrightarrow> authorizes e (last (rw_committed w)) st = Ok ())"
proof -
  obtain e st where p: "promote_pending_in_place (rw_enrollment w) (rw_cells w) = (Ok e, st)"
    "en_state e = Enrollment_Active"
    using assms(2) by (simp add: promote_pending_in_place_def)
  have "fence_ok base (w\<lparr>rw_cells := st, rw_enrollment := e\<rparr>)"
    by (rule fence_keep [OF assms(1) step_promote [OF p(1)]])
  then have "authorizes e (last (rw_committed w)) st = Ok ()" if "rw_committed w \<noteq> []"
    using that p(2) authorizes_iff_last [of base "w\<lparr>rw_cells := st, rw_enrollment := e\<rparr>" "length (rw_committed w) - 1"]
    by (simp add: last_conv_nth)
  with p show ?thesis by blast
qed

text \<open>
  C35. Registration is fenced. However the enrollment came to be, new, pending or restored, and
  whatever is prepared, committed, dropped, revoked or promoted, in whatever order, at most one
  registration is in preparation; the committed registrations carry consecutive revisions after the
  one issued before, without gap or repetition, so their order is that of the commits; a registration
  authorises dispatch exactly when the enrollment is active and it is the last one committed; and a
  pending enrollment, which authorises nothing, can be promoted, which makes its last registration
  authorise dispatch.
\<close>

theorem registration_fence:
  assumes "enrolled base start" and "registration_step\<^sup>*\<^sup>* start w"
  shows "length (rw_outstanding w) \<le> 1 \<and>
    map (\<lambda>r. unat (vr_revision r)) (rw_committed w) = [Suc base..<Suc (base + length (rw_committed w))] \<and>
    (\<forall>k < length (rw_committed w).
      authorizes (rw_enrollment w) (rw_committed w ! k) (rw_cells w) = Ok () \<longleftrightarrow>
        en_state (rw_enrollment w) = Enrollment_Active \<and> Suc k = length (rw_committed w)) \<and>
    (en_state (rw_enrollment w) = Enrollment_Pending \<longrightarrow>
      (\<exists>e st. promote_pending_in_place (rw_enrollment w) (rw_cells w) = (Ok e, st) \<and>
        en_state e = Enrollment_Active \<and>
        (rw_committed w \<noteq> [] \<longrightarrow> authorizes e (last (rw_committed w)) st = Ok ())))"
proof -
  have ok: "fence_ok base w" by (rule fence_reachable [OF assms(2) fence_enrolled [OF assms(1)]])
  then have "length (rw_outstanding w) \<le> 1"
    "map (\<lambda>r. unat (vr_revision r)) (rw_committed w) = [Suc base..<Suc (base + length (rw_committed w))]"
    by (simp_all only: fence_ok_def Let_def)
  with authorizes_iff_last [OF ok] promotion_authorizes [OF ok] show ?thesis by blast
qed

text \<open>
  C36. A prepared registration can always be committed: however the enrollment came to be, as long as
  it was not revoked in between, the commit of the outstanding preparation succeeds, whatever else
  was tried meanwhile, returns the very registration that was validated, makes it the current one,
  and frees the fence for the next preparation.
\<close>

theorem prepared_commit_succeeds:
  assumes "enrolled base start" and "registration_step\<^sup>*\<^sup>* start w"
    and "p \<in> set (rw_outstanding w)" and "en_state (rw_enrollment w) = Enrollment_Active"
  shows "\<exists>st'. commit_registration p (rw_cells w) = (Ok (pr_registration p), st') \<and>
    authorizes (rw_enrollment w) (pr_registration p) st' = Ok () \<and>
    \<not> cells_bool st' ! en_registration_preparation (rw_enrollment w)"
proof -
  have ok: "fence_ok base w" by (rule fence_reachable [OF assms(2) fence_enrolled [OF assms(1)]])
  then have p: "outstanding_ok (rw_enrollment w)
      (cells_u64 (rw_cells w) ! en_registration_revision (rw_enrollment w)) p"
    using assms(3) by (simp add: fence_ok_def Let_def)
  have "cells_ok (rw_enrollment w) (rw_cells w)"
    "cells_bool (rw_cells w) ! en_registration_active (rw_enrollment w)"
    using ok assms(4) by (simp_all add: fence_ok_def Let_def)
  with p assms(4) show ?thesis
    by (auto simp: commit_registration_def cell_defs outstanding_ok_def bound_to_def authorizes_def
        is_current_registration_def cells_ok_def)
qed

section \<open>Stored registrations\<close>

definition stored_registration :: "validated_registration \<Rightarrow> registration_input" where
  "stored_registration r =
     \<lparr>gi_enrollment = vr_enrollment r, gi_revision = vr_revision r, gi_runner = vr_runner r,
      gi_authentication = vr_authentication r, gi_classes = vr_classes r,
      gi_tools = map snd (vr_tools r), gi_profiles = map snd (vr_profiles r),
      gi_workspaces = vr_workspaces r, gi_sandboxes = vr_sandboxes r,
      gi_repositories = map snd (vr_repositories r),
      gi_default_working_directory = vr_default_working_directory r\<rparr>"

definition advertisement_ok :: "runner_advertisement \<Rightarrow> bool" where
  "advertisement_ok a \<longleftrightarrow>
     bs_ok (av_classes a) \<and> bs_ok (av_tools a) \<and> bs_ok (av_profiles a) \<and> bs_ok (av_workspaces a) \<and>
     bs_ok (av_sandboxes a) \<and> bt_ok (av_repositories a) \<and>
     (\<forall>(k, entry) \<in> set (av_repositories a). re_key entry = k)"

lemma bt_collect_keyed: "(k, v) \<in> set (bt_collect (map (\<lambda>x. (f x, x)) xs)) \<Longrightarrow> f v = k"
proof -
  have "\<forall>(k, v) \<in> set (fold (\<lambda>(k, v). bt_insert k v) (map (\<lambda>x. (f x, x)) xs) m). f v = k"
    if "\<forall>(k, v) \<in> set m. f v = k" for m
    using that
  proof (induction xs arbitrary: m)
    case (Cons x xs)
    have "\<forall>(k, v) \<in> set (bt_insert (f x) x m). f v = k"
      using Cons.prems set_bt_insert_subset [of "f x" x m] by blast
    from Cons.IH [OF this] show ?case by simp
  qed simp
  from this [of "[]"] show "(k, v) \<in> set (bt_collect (map (\<lambda>x. (f x, x)) xs)) \<Longrightarrow> f v = k"
    unfolding bt_collect_def by auto
qed

lemma advertisement_new_ok:
  "advertisement_ok (advertisement_new classes tools profiles workspaces sandboxes repositories)"
  "advertisement_ok (with_default_working_directory directory
     (advertisement_new classes tools profiles workspaces sandboxes repositories))"
  by (auto simp: advertisement_ok_def advertisement_new_def with_default_working_directory_def
      bs_ok_of_list bt_ok_collect dest: bt_collect_keyed)

lemma collect_declared_Ok:
  "collect_declared missing table acc names = Ok m \<Longrightarrow> bs_ok names \<Longrightarrow>
   \<forall>k \<in> fst ` set acc. \<forall>n \<in> set names. k < n \<Longrightarrow>
   m = acc @ map (\<lambda>n. (n, the (bt_get table n))) names \<and> (\<forall>n \<in> set names. bt_get table n \<noteq> None)"
proof (induction names arbitrary: acc)
  case (Cons n names)
  then obtain v where v: "bt_get table n = Some v"
    and rest: "collect_declared missing table (bt_insert n v acc) names = Ok m"
    by (auto split: option.splits)
  have ins: "bt_insert n v acc = acc @ [(n, v)]"
    by (rule bt_insert_append) (use Cons.prems in auto)
  have "\<forall>k \<in> fst ` set (acc @ [(n, v)]). \<forall>n' \<in> set names. k < n'" using Cons.prems(2,3) by auto
  with Cons.IH [of "acc @ [(n, v)]"] rest v Cons.prems(2) show ?case by (simp add: ins)
qed simp

lemma collect_declared_again:
  "\<forall>n \<in> set names. bt_get table n \<noteq> None \<Longrightarrow> bs_ok names \<Longrightarrow>
   \<forall>k \<in> fst ` set acc. \<forall>n \<in> set names. k < n \<Longrightarrow>
   collect_declared missing table acc names = Ok (acc @ map (\<lambda>n. (n, the (bt_get table n))) names)"
proof (induction names arbitrary: acc)
  case (Cons n names)
  then obtain v where v: "bt_get table n = Some v" by auto
  have ins: "bt_insert n v acc = acc @ [(n, v)]"
    by (rule bt_insert_append) (use Cons.prems in auto)
  have "\<forall>k \<in> fst ` set (acc @ [(n, v)]). \<forall>n' \<in> set names. k < n'" using Cons.prems(2,3) by auto
  with Cons v show ?case by (simp add: ins)
qed simp

lemma prepared_facts:
  assumes "prepare_registration e a catalog st = (Ok p, st')" and "advertisement_ok a"
  defines "r \<equiv> pr_registration p"
  shows "check_advertisement e a catalog = None" and "length (av_repositories a) \<le> max_repositories"
    and "vr_tools r = map (\<lambda>n. (n, the (bt_get (rc_tools catalog) n))) (av_tools a)"
    and "vr_profiles r = map (\<lambda>n. (n, the (bt_get (rc_profiles catalog) n))) (av_profiles a)"
    and "\<forall>n \<in> set (av_tools a). bt_get (rc_tools catalog) n \<noteq> None"
    and "\<forall>n \<in> set (av_profiles a). bt_get (rc_profiles catalog) n \<noteq> None"
    and "vr_classes r = av_classes a" "vr_workspaces r = av_workspaces a" "vr_sandboxes r = av_sandboxes a"
    "vr_repositories r = av_repositories a"
    "vr_default_working_directory r = av_default_working_directory a"
    "vr_catalog_tools r = map fst (rc_tools catalog)"
    "vr_enrollment r = en_enrollment e" "vr_runner r = en_runner e"
    "vr_authentication r = en_authentication e"
proof -
  from assms(1) obtain tools profiles where
    t: "collect_declared ToolUndeclared (rc_tools catalog) [] (av_tools a) = Ok tools"
    and q: "collect_declared CredentialProfileUndeclared (rc_profiles catalog) [] (av_profiles a) =
      Ok profiles"
    and r: "vr_tools r = tools" "vr_profiles r = profiles"
    by (auto simp: prepare_registration_def exchange_bool_def Let_def r_def
        split: if_splits option.splits sum.splits)
  from collect_declared_Ok [OF t] collect_declared_Ok [OF q] assms(2) r
  show "vr_tools r = map (\<lambda>n. (n, the (bt_get (rc_tools catalog) n))) (av_tools a)"
    and "vr_profiles r = map (\<lambda>n. (n, the (bt_get (rc_profiles catalog) n))) (av_profiles a)"
    and "\<forall>n \<in> set (av_tools a). bt_get (rc_tools catalog) n \<noteq> None"
    and "\<forall>n \<in> set (av_profiles a). bt_get (rc_profiles catalog) n \<noteq> None"
    by (auto simp: advertisement_ok_def)
qed (use assms(1) in \<open>auto simp: prepare_registration_def exchange_bool_def Let_def r_def
        split: if_splits option.splits sum.splits\<close>)

lemma prepare_accepts:
  assumes "advertisement_ok a" and "check_advertisement e a catalog = None"
    and "length (av_repositories a) \<le> max_repositories"
    and "\<forall>n \<in> set (av_tools a). bt_get (rc_tools catalog) n \<noteq> None"
    and "\<forall>n \<in> set (av_profiles a). bt_get (rc_profiles catalog) n \<noteq> None"
    and "en_state e = Enrollment_Active" and "\<not> cells_bool st ! en_registration_preparation e"
    and "cells_u64 st ! en_registration_revision e = 0"
  shows "\<exists>p st'. prepare_registration e a catalog st = (Ok p, st')"
  using assms collect_declared_again [of "av_tools a" "rc_tools catalog" "[]" ToolUndeclared]
    collect_declared_again [of "av_profiles a" "rc_profiles catalog" "[]" CredentialProfileUndeclared]
  by (simp add: prepare_registration_def exchange_bool_def store_bool_def Let_def advertisement_ok_def
      checked_succ_def generation_try_from_u64_def)

lemma declared_keys:
  assumes "bt_ok table" and "\<forall>(k, v) \<in> set table. f v = k" and "bs_ok names"
    and "\<forall>n \<in> set names. bt_get table n \<noteq> None"
  defines "m \<equiv> map (\<lambda>n. (n, the (bt_get table n))) names"
  shows "map f (map snd m) = names" and "bt_collect (map (\<lambda>x. (f x, x)) (map snd m)) = m"
proof -
  have key: "f (the (bt_get table n)) = n" if "n \<in> set names" for n
    using that assms(2,4) bt_entry_iff [OF assms(1)] by fastforce
  then show "map f (map snd m) = names" unfolding m_def by (simp add: map_idI)
  have "map (\<lambda>x. (f x, x)) (map snd m) = m" unfolding m_def using key by simp
  moreover have "bt_ok m" unfolding m_def bt_ok_def using assms(3) by (simp add: comp_def)
  ultimately show "bt_collect (map (\<lambda>x. (f x, x)) (map snd m)) = m" by (simp only: bt_collect_sorted)
qed

lemma check_cong:
  assumes "en_allowed_classes e = en_allowed_classes e'" and "en_runner e = en_runner e'"
  shows "check_advertisement e a catalog = check_advertisement e' a catalog"
proof -
  have "locus_not_allowed e a catalog = locus_not_allowed e' a catalog"
    by (intro ext) (simp only: locus_not_allowed_def assms)
  then show ?thesis by (simp only: check_advertisement_def assms)
qed

text \<open>
  C37. A validated registration survives storage: when a checked catalog admits an advertisement,
  the facts stored of the registration are accepted again under the same catalog by any enrollment
  value with the same identities and allowed classes, also one that was revoked or is at another
  revision, and the registration restored equals the stored one, now reading that enrollment's
  cells.
\<close>

theorem registration_storage_round_trip:
  assumes catalog: "catalog_try_new classes tools profiles workspaces sandboxes = Ok catalog"
    and advertisement: "a = with_default_working_directory directory
      (advertisement_new av_cl av_tl av_pr av_ws av_sb av_re)"
    and prepared: "prepare_registration e a catalog st = (Ok p, st')"
    and same: "en_enrollment e' = en_enrollment e" "en_runner e' = en_runner e"
      "en_authentication e' = en_authentication e" "en_allowed_classes e' = en_allowed_classes e"
  shows "\<exists>r' st3. reconstitute_registration e' catalog (stored_registration (pr_registration p)) st2 =
      (Ok r', st3) \<and> registration_eq r' (pr_registration p) \<and>
    vr_current_revision r' = en_registration_revision e' \<and>
    vr_enrollment_active r' = en_registration_active e'"
proof -
  let ?r = "pr_registration p"
  have a_ok: "advertisement_ok a" unfolding advertisement by (rule advertisement_new_ok)
  have c_ok: "catalog_ok catalog" by (rule catalog_try_new_ok [OF catalog])
  note facts = prepared_facts [OF prepared a_ok]
  have tl: "map td_name (map snd (vr_tools ?r)) = av_tools a"
      "bt_collect (map (\<lambda>x. (td_name x, x)) (map snd (vr_tools ?r))) = vr_tools ?r"
    unfolding facts(3)
    by (rule declared_keys; use c_ok a_ok facts(5) in \<open>auto simp: catalog_ok_def advertisement_ok_def\<close>)+
  have pf: "map cp_name (map snd (vr_profiles ?r)) = av_profiles a"
      "bt_collect (map (\<lambda>x. (cp_name x, x)) (map snd (vr_profiles ?r))) = vr_profiles ?r"
    unfolding facts(4)
    by (rule declared_keys; use c_ok a_ok facts(6) in \<open>auto simp: catalog_ok_def advertisement_ok_def\<close>)+
  have rp: "bt_collect (map (\<lambda>x. (re_key x, x)) (map snd (vr_repositories ?r))) = vr_repositories ?r"
    unfolding facts(10)
    by (subst keyed_sorted) (use a_ok in \<open>auto simp: advertisement_ok_def bt_collect_sorted\<close>)
  have again: "with_default_working_directory (vr_default_working_directory ?r)
      (advertisement_new (vr_classes ?r) (map td_name (map snd (vr_tools ?r)))
        (map cp_name (map snd (vr_profiles ?r))) (vr_workspaces ?r) (vr_sandboxes ?r)
        (map snd (vr_repositories ?r))) = a"
    unfolding with_default_working_directory_def advertisement_new_def tl(1) pf(1) rp
    using a_ok
    by (simp add: facts bs_of_list_sorted advertisement_ok_def)
  define h where "h = e'\<lparr>en_state := Enrollment_Active,
      en_registration_revision := length (cells_u64 st2),
      en_registration_active := length (cells_bool st2),
      en_registration_preparation := Suc (length (cells_bool st2))\<rparr>"
  define cells where "cells = st2\<lparr>cells_u64 := cells_u64 st2 @ [0],
      cells_bool := cells_bool st2 @ [True, False]\<rparr>"
  have "check_advertisement h a catalog = None"
    using facts(1) by (subst check_cong [of h e]) (simp_all add: h_def same)
  then obtain p2 st4 where p2: "prepare_registration h a catalog cells = (Ok p2, st4)"
    using prepare_accepts [OF a_ok, of h catalog cells] facts(2,5,6)
    by (auto simp: h_def cells_def nth_append)
  note facts2 = prepared_facts [OF p2 a_ok]
  have eqs: "length (map snd (vr_tools ?r)) = length (vr_tools ?r)"
    "length (map snd (vr_profiles ?r)) = length (vr_profiles ?r)"
    "length (map snd (vr_repositories ?r)) = length (vr_repositories ?r)"
    "vr_tools (pr_registration p2) = vr_tools ?r" "vr_profiles (pr_registration p2) = vr_profiles ?r"
    "vr_classes (pr_registration p2) = vr_classes ?r"
    "vr_workspaces (pr_registration p2) = vr_workspaces ?r"
    "vr_sandboxes (pr_registration p2) = vr_sandboxes ?r"
    "vr_repositories (pr_registration p2) = vr_repositories ?r"
    by (simp_all add: facts facts2)
  have "reconstitute_registration e' catalog (stored_registration ?r) st2 =
      (Ok (pr_registration p2\<lparr>vr_revision := vr_revision ?r,
        vr_current_revision := en_registration_revision e',
        vr_enrollment_active := en_registration_active e'\<rparr>), abandon p2 st4)"
    unfolding reconstitute_registration_def stored_registration_def registration_input.simps again
      tl(2) pf(2) rp
    using p2 same
    by (simp add: facts(13-15) new_u64_def new_bool_def eqs flip: h_def cells_def)
  then show ?thesis
    using same by (simp add: registration_eq_def facts facts2 h_def)
qed

section \<open>Samples\<close>

definition sample_class :: runner_capability_class where
  "sample_class = TextName [0x63]"

definition sample_declaration :: runner_tool_declaration where
  "sample_declaration = \<lparr>td_name = ToolName [0x61],
     td_model = \<lparr>md_description = [0x64],
       md_input_schema = \<lparr>args_kind = Args_Json, args_value = [0x7B, 0x7D]\<rparr>\<rparr>,
     td_permission = Permission_Confirm, td_effect = Effect_Pure,
     td_loci = RunnerOnly (Selector_CapabilityClass sample_class)\<rparr>"

definition sample_catalog :: runner_catalog where
  "sample_catalog = \<lparr>rc_classes = [sample_class], rc_tools = [(ToolName [0x61], sample_declaration)],
     rc_profiles = [], rc_workspaces = [], rc_sandboxes = [Sandbox_Ambient]\<rparr>"

definition sample_advertisement :: runner_advertisement where
  "sample_advertisement = with_default_working_directory None
     (advertisement_new [sample_class] [ToolName [0x61]] [] [] [Sandbox_Ambient] [])"

definition sample_enrollment :: "runner_enrollment \<times> runner_cells" where
  "sample_enrollment = enrollment_new (Ident 1) (Ident 2) (Ident 3) [sample_class]
     \<lparr>cells_u64 = [], cells_bool = []\<rparr>"

definition sample_prepared :: prepared_registration where
  "sample_prepared = \<lparr>pr_expected_revision = 0, pr_preparation = 1,
     pr_registration = \<lparr>vr_enrollment = Ident 1, vr_runner = Ident 2, vr_authentication = Ident 3,
       vr_catalog_tools = [ToolName [0x61]], vr_classes = [sample_class],
       vr_tools = [(ToolName [0x61], sample_declaration)], vr_profiles = [], vr_workspaces = [],
       vr_sandboxes = [Sandbox_Ambient], vr_default_working_directory = None, vr_repositories = [],
       vr_revision = 1, vr_current_revision = 0, vr_enrollment_active = 0\<rparr>\<rparr>"

lemmas sample_runner_defs = sample_enrollment_def sample_advertisement_def sample_catalog_def
  sample_declaration_def sample_class_def sample_prepared_def enrollment_new_def new_u64_def new_bool_def
  advertisement_new_def with_default_working_directory_def bs_of_list_def bt_collect_def

lemma sample_catalog_checked:
  "catalog_try_new [sample_class] [sample_declaration] [] [] [Sandbox_Ambient] = Ok sample_catalog"
  by (simp add: catalog_try_new_def sample_catalog_def sample_declaration_def bt_contains_def)

lemma sample_prepares:
  "prepare_registration (fst sample_enrollment) sample_advertisement sample_catalog
     (snd sample_enrollment) =
   (Ok sample_prepared, \<lparr>cells_u64 = [0], cells_bool = [True, True]\<rparr>)"
  by (simp add: sample_runner_defs prepare_registration_def check_advertisement_def
      locus_not_allowed_def bt_contains_def exchange_bool_def store_bool_def max_repositories_def
      checked_succ_def generation_try_from_u64_def Let_def)

lemma sample_step:
  "registration_step (new_world sample_enrollment)
     (new_world sample_enrollment\<lparr>rw_cells := \<lparr>cells_u64 = [0], cells_bool = [True, True]\<rparr>,
        rw_outstanding := [sample_prepared]\<rparr>)"
  using step_prepare [of "new_world sample_enrollment" sample_advertisement sample_catalog] sample_prepares
  by (simp add: new_world_def)

lemma sample_pending:
  "new_pending (Ident 1) (Ident 2) (Ident 3) [sample_class] sample_advertisement sample_catalog
     \<lparr>cells_u64 = [], cells_bool = []\<rparr> =
   (Ok ((fst sample_enrollment)\<lparr>en_state := Enrollment_Pending\<rparr>, pr_registration sample_prepared),
    \<lparr>cells_u64 = [1], cells_bool = [False, False]\<rparr>)"
proof -
  have "register (fst sample_enrollment) sample_advertisement sample_catalog (snd sample_enrollment) =
      (Ok (pr_registration sample_prepared), \<lparr>cells_u64 = [1], cells_bool = [True, False]\<rparr>)"
    by (simp add: register_def sample_prepares commit_registration_def sample_prepared_def exchange_u64_def
        abandon_def store_bool_def)
  then show ?thesis
    unfolding new_pending_def sample_enrollment_def [symmetric]
    by (simp add: split_beta store_bool_def sample_enrollment_def enrollment_new_def new_u64_def new_bool_def)
qed

theorem registration_fence_witness:
  "\<exists>e r st e' st'. new_pending (Ident 1) (Ident 2) (Ident 3) [sample_class] sample_advertisement sample_catalog
       \<lparr>cells_u64 = [], cells_bool = []\<rparr> = (Ok (e, r), st) \<and> authorizes e r st \<noteq> Ok () \<and>
     promote_pending_in_place e st = (Ok e', st') \<and> authorizes e' r st' = Ok ()"
  using sample_pending registration_fence [OF enrolled_pending [OF sample_pending] rtranclp.rtrancl_refl]
  by (auto simp: new_world_def)

theorem prepared_commit_succeeds_witness:
  "\<exists>st'. commit_registration sample_prepared \<lparr>cells_u64 = [0], cells_bool = [True, True]\<rparr> =
     (Ok (pr_registration sample_prepared), st')"
  using prepared_commit_succeeds [OF enrolled_new r_into_rtranclp [of registration_step,
      OF sample_step [unfolded sample_enrollment_def]], of sample_prepared]
  by (auto simp: new_world_def enrollment_new_def new_u64_def new_bool_def)

theorem registration_storage_round_trip_witness:
  "\<exists>r' st3. reconstitute_registration ((fst sample_enrollment)\<lparr>en_state := Enrollment_Revoked\<rparr>)
      sample_catalog (stored_registration (pr_registration sample_prepared))
      \<lparr>cells_u64 = [5], cells_bool = [False, False]\<rparr> = (Ok r', st3) \<and>
    registration_eq r' (pr_registration sample_prepared)"
  using registration_storage_round_trip [OF sample_catalog_checked sample_advertisement_def sample_prepares,
      of "(fst sample_enrollment)\<lparr>en_state := Enrollment_Revoked\<rparr>"
        "\<lparr>cells_u64 = [5], cells_bool = [False, False]\<rparr>"]
  by auto

end
