(* ===== verification/Runner_Lease.thy ===== *)
theory Runner_Lease
  imports Tool_Batch_Moves Runner_Enrollment
begin

text \<open>
  Fenced runner leases, \<^verbatim>\<open>src/crates/domain/src/runner/lease.rs\<close>: the offer, the claim and its
  result under one exact correlation, the classification of a lost lease, and the single-use
  authority with which a lost lease is retried through the tool batch that owns its attempt.
\<close>

section \<open>Leases\<close>

record runner_lease_correlation =
  lc_lease :: runner_lease_id
  lc_runner :: runner_id
  lc_registration_revision :: runner_generation
  lc_placement_revision :: runner_generation
  lc_working_directory :: runner_working_directory
  lc_sandbox :: runner_sandbox_profile
  lc_tool :: tool_name
  lc_dispatch :: dispatch_correlation
  lc_generation :: runner_generation

record credential_dispatch_authorization =
  cd_session :: session_id
  cd_runner :: runner_id
  cd_grant_revision :: runner_generation
  cd_profile :: credential_profile_name
  cd_tool :: tool_name
  cd_approval :: credential_tool_approval

text \<open>The evidence a retry adds to a runner authorisation.\<close>

datatype runner_retry_attempt_evidence =
    Retry_Unclaimed dispatch_correlation
  | Retry_Claimed runner_lease_correlation dispatch_correlation

datatype runner_lease_state =
    Lease_Offered
  | Lease_Claimed
  | Lease_Completed
  | Lease_Refused
  | Lease_LostUnclaimed
  | Lease_LostExecutionPossible
  | Lease_LostClaimed

datatype no_execution_proof = NoExecutionProof (proof_correlation: runner_lease_correlation)

record validated_lease_offer =
  rl_lease :: runner_lease_id
  rl_dispatch :: dispatch_correlation
  rl_runner :: runner_id
  rl_registration_revision :: runner_generation
  rl_placement_revision :: runner_generation
  rl_working_directory :: runner_working_directory
  rl_sandbox :: runner_sandbox_profile
  rl_tool :: tool_name
  rl_arguments :: normalized_tool_arguments
  rl_effect :: runner_tool_effect_class
  rl_credential_authorization :: "credential_dispatch_authorization option"
  rl_generation :: runner_generation

text \<open>A lease has the fields of its validated offer and a state.\<close>

record runner_lease = validated_lease_offer +
  rl_state :: runner_lease_state

definition offer_validated :: "validated_lease_offer \<Rightarrow> runner_lease" where
  "offer_validated offer = validated_lease_offer.extend offer \<lparr>rl_state = Lease_Offered\<rparr>"

definition lease_correlation :: "runner_lease \<Rightarrow> runner_lease_correlation" where
  "lease_correlation l =
     \<lparr>lc_lease = rl_lease l, lc_runner = rl_runner l,
      lc_registration_revision = rl_registration_revision l,
      lc_placement_revision = rl_placement_revision l,
      lc_working_directory = rl_working_directory l, lc_sandbox = rl_sandbox l,
      lc_tool = rl_tool l, lc_dispatch = rl_dispatch l, lc_generation = rl_generation l\<rparr>"

definition lease_claim ::
  "runner_lease \<Rightarrow> runner_lease_correlation \<Rightarrow> runner_domain_error + runner_lease" where
  "lease_claim l correlation =
     (if rl_state l \<noteq> Lease_Offered then Err Runner_InvalidState
      else if lease_correlation l \<noteq> correlation then Err Runner_CorrelationMismatch
      else Ok (l\<lparr>rl_state := Lease_Claimed\<rparr>))"

definition lease_refuse ::
  "runner_lease \<Rightarrow> runner_lease_correlation \<Rightarrow> runner_domain_error + runner_lease" where
  "lease_refuse l correlation =
     (if rl_state l \<notin> {Lease_Offered, Lease_LostUnclaimed} then Err Runner_InvalidState
      else if lease_correlation l \<noteq> correlation then Err Runner_CorrelationMismatch
      else Ok (l\<lparr>rl_state := Lease_Refused\<rparr>))"

definition lease_complete ::
  "runner_lease \<Rightarrow> runner_lease_correlation \<Rightarrow> runner_domain_error + runner_lease" where
  "lease_complete l correlation =
     (if rl_state l \<noteq> Lease_Claimed then Err Runner_InvalidState
      else if lease_correlation l \<noteq> correlation then Err Runner_CorrelationMismatch
      else Ok (l\<lparr>rl_state := Lease_Completed\<rparr>))"

section \<open>Loss\<close>

datatype retry_preparation = Retry_Available | Retry_Prepared

record lease_retry_source =
  rs_correlation :: runner_lease_correlation
  rs_effect :: runner_tool_effect_class
  rs_credential_authorization :: "credential_dispatch_authorization option"
  rs_state :: runner_lease_state

definition source_from_lease :: "runner_lease \<Rightarrow> lease_retry_source" where
  "source_from_lease l =
     \<lparr>rs_correlation = lease_correlation l, rs_effect = rl_effect l,
      rs_credential_authorization = rl_credential_authorization l, rs_state = rl_state l\<rparr>"

definition source_matches :: "lease_retry_source \<Rightarrow> runner_lease \<Rightarrow> bool" where
  "source_matches source l \<longleftrightarrow>
     rs_correlation source = lease_correlation l \<and> rs_effect source = rl_effect l \<and>
     rs_credential_authorization source = rl_credential_authorization l \<and> rs_state source = rl_state l"

text \<open>The guard is an atomic flag owned by the authority: preparing a retry returns the authority
  with the flag as it is afterwards.\<close>

record lease_retry_authority =
  ry_source :: lease_retry_source
  ry_generation :: runner_generation
  ry_claimed_attempt :: "tool_attempt_id option"
  ry_prepared :: bool

datatype lease_loss =
    RetryPermitted (loss_lost: runner_lease) (loss_retry: lease_retry_authority)
      (loss_no_execution: "no_execution_proof option")
  | CrashClassificationRequired (loss_lost: runner_lease)

definition crash_attempt :: "lease_loss \<Rightarrow> tool_attempt_id option" where
  "crash_attempt loss =
     (case loss of
        RetryPermitted _ _ _ \<Rightarrow> None
      | CrashClassificationRequired lost \<Rightarrow> Some (dc_attempt (rl_dispatch lost)))"

definition into_loss_consequence ::
  "runner_lease \<Rightarrow> no_execution_proof option \<Rightarrow> retry_preparation \<Rightarrow> runner_domain_error + lease_loss"
where
  "into_loss_consequence l no_execution preparation =
     (case (case (rl_state l, no_execution) of
              (Lease_LostUnclaimed, Some _) \<Rightarrow> Some False
            | (Lease_LostExecutionPossible, None) \<Rightarrow> Some True
            | (Lease_LostClaimed, None) \<Rightarrow> Some True
            | _ \<Rightarrow> None) of
        None \<Rightarrow> Err Runner_InvalidState
      | Some claimed \<Rightarrow>
          if claimed \<and> rl_effect l = Effect_SideEffecting then Ok (CrashClassificationRequired l)
          else case generation_checked_next (rl_generation l) of
            None \<Rightarrow> Err GenerationExhausted
          | Some generation \<Rightarrow>
              Ok (RetryPermitted l
                \<lparr>ry_source = source_from_lease l, ry_generation = generation,
                 ry_claimed_attempt = (if claimed then Some (dc_attempt (rl_dispatch l)) else None),
                 ry_prepared = (preparation = Retry_Prepared)\<rparr> no_execution))"

definition lease_lose :: "runner_lease \<Rightarrow> runner_domain_error + lease_loss" where
  "lease_lose l =
     (case rl_state l of
        Lease_Offered \<Rightarrow>
          into_loss_consequence (l\<lparr>rl_state := Lease_LostExecutionPossible\<rparr>) None Retry_Available
      | Lease_Claimed \<Rightarrow>
          into_loss_consequence (l\<lparr>rl_state := Lease_LostClaimed\<rparr>) None Retry_Available
      | _ \<Rightarrow> Err Runner_InvalidState)"

definition lease_lose_unclaimed ::
  "runner_lease \<Rightarrow> no_execution_proof \<Rightarrow> runner_domain_error + lease_loss" where
  "lease_lose_unclaimed l no_execution =
     (if rl_state l \<noteq> Lease_Offered then Err Runner_InvalidState
      else if proof_correlation no_execution \<noteq> lease_correlation l then Err Runner_CorrelationMismatch
      else into_loss_consequence (l\<lparr>rl_state := Lease_LostUnclaimed\<rparr>) (Some no_execution)
             Retry_Available)"

section \<open>Stored leases\<close>

text \<open>The projected fields of a stored lease, as a lease, and the independently recorded facts.\<close>

record runner_lease_input =
  li_projection :: runner_lease
  li_recorded_correlation :: runner_lease_correlation
  li_recorded_session :: session_id
  li_recorded_effect :: runner_tool_effect_class
  li_recorded_arguments :: normalized_tool_arguments
  li_recorded_credential_authorization :: "credential_dispatch_authorization option"
  li_recorded_state :: runner_lease_state
  li_retry_preparation :: retry_preparation

definition credential_matches :: "runner_lease \<Rightarrow> bool" where
  "credential_matches l \<longleftrightarrow>
     (case rl_credential_authorization l of
        None \<Rightarrow> True
      | Some authorization \<Rightarrow>
          cd_session authorization = dc_session (rl_dispatch l) \<and>
          cd_runner authorization = rl_runner l \<and> cd_tool authorization = rl_tool l)"

definition declaration_matches :: "validated_registration \<Rightarrow> runner_lease \<Rightarrow> bool" where
  "declaration_matches registration l \<longleftrightarrow>
     vr_runner registration = rl_runner l \<and> vr_revision registration = rl_registration_revision l \<and>
     (case bt_get (vr_tools registration) (rl_tool l) of
        None \<Rightarrow> False | Some declaration \<Rightarrow> td_effect declaration = rl_effect l)"

definition reconstitute_lease ::
  "runner_lease_input \<Rightarrow> validated_registration \<Rightarrow> runner_domain_error + runner_lease" where
  "reconstitute_lease i registration =
     (let l = li_projection i in
      if lease_correlation l \<noteq> li_recorded_correlation i \<or>
         dc_session (rl_dispatch l) \<noteq> li_recorded_session i \<or>
         rl_effect l \<noteq> li_recorded_effect i \<or> rl_arguments l \<noteq> li_recorded_arguments i \<or>
         rl_credential_authorization l \<noteq> li_recorded_credential_authorization i \<or>
         \<not> credential_matches l \<or> \<not> declaration_matches registration l \<or>
         rl_state l \<noteq> li_recorded_state i
      then Err CorruptStoredFacts
      else Ok l)"

definition into_reconstituted_loss ::
  "runner_lease \<Rightarrow> runner_lease_correlation option \<Rightarrow> retry_preparation \<Rightarrow> runner_domain_error + lease_loss"
where
  "into_reconstituted_loss l no_execution preparation =
     (let proof_matches = (case no_execution of
            None \<Rightarrow> False | Some correlation \<Rightarrow> correlation = lease_correlation l) in
      if (rl_state l = Lease_LostUnclaimed \<and> proof_matches \<and> no_execution \<noteq> None) \<or>
         (rl_state l \<in> {Lease_LostExecutionPossible, Lease_LostClaimed} \<and> \<not> proof_matches \<and>
          no_execution = None)
      then into_loss_consequence l (map_option NoExecutionProof no_execution) preparation
      else Err Runner_InvalidState)"

definition reconstitute_loss ::
  "runner_lease_input \<Rightarrow> validated_registration \<Rightarrow> runner_lease_correlation option
     \<Rightarrow> runner_domain_error + lease_loss" where
  "reconstitute_loss i registration no_execution =
     (case reconstitute_lease i registration of
        Err failure \<Rightarrow> Err failure
      | Ok l \<Rightarrow> into_reconstituted_loss l no_execution (li_retry_preparation i))"

section \<open>Retry\<close>

type_synonym lease_authorization = "runner_retry_attempt_evidence runner_authorization"

record unclaimed_reauthorization =
  ua_batch :: tool_batch
  ua_authorization :: lease_authorization

record claimed_attempt_replacement =
  ct_batch :: tool_batch
  ct_retired :: ended_tool_attempt
  ct_authorization :: lease_authorization
  ct_source :: runner_lease_correlation

definition prepare_unclaimed_attempt ::
  "lease_retry_authority \<Rightarrow> tool_batch \<Rightarrow> issuance_store
     \<Rightarrow> (runner_domain_error + unclaimed_reauthorization) \<times> lease_retry_authority \<times> issuance_store" where
  "prepare_unclaimed_attempt retry b st =
     (if ry_claimed_attempt retry \<noteq> None \<or> ry_prepared retry then (Err Runner_InvalidState, retry, st)
      else let retry' = retry\<lparr>ry_prepared := True\<rparr>;
               source = rs_correlation (ry_source retry) in
        case reauthorize_unclaimed_runner_attempt b (dc_attempt (lc_dispatch source)) st of
          (Err _, st') \<Rightarrow> (Err Runner_CorrelationMismatch, retry', st')
        | (Ok (b', authorization), st') \<Rightarrow>
            if tr_name (ap_request (ra_approved authorization)) \<noteq> lc_tool source \<or>
               au_correlation (ra_authorized authorization) \<noteq> lc_dispatch source
            then (Err Runner_CorrelationMismatch, retry', st')
            else (Ok \<lparr>ua_batch = b', ua_authorization = authorization
                       \<lparr>ra_retry_evidence := Some (Retry_Unclaimed (lc_dispatch source))\<rparr>\<rparr>,
                  retry', st'))"

definition replacement_mismatch :: "lease_retry_source \<Rightarrow> claimed_replacement \<Rightarrow> bool" where
  "replacement_mismatch source replacement \<longleftrightarrow>
     (let request = ap_request (cr_approved replacement); retired = cr_retired replacement;
          correlation = rs_correlation source; dispatch = lc_dispatch correlation in
      tr_id request \<noteq> dc_request dispatch \<or> tr_session request \<noteq> dc_session dispatch \<or>
      tr_turn request \<noteq> dc_turn dispatch \<or> tr_name request \<noteq> lc_tool correlation \<or>
      ea_session retired \<noteq> dc_session dispatch \<or> ea_turn retired \<noteq> dc_turn dispatch \<or>
      ea_issuing_attempt retired \<noteq> dc_issuing_attempt dispatch \<or>
      ea_request retired \<noteq> dc_request dispatch \<or> ea_attempt retired \<noteq> dc_attempt dispatch \<or>
      ea_generation retired \<noteq> dc_generation dispatch \<or>
      ea_effect_class retired \<noteq> tool_effect_class_of (rs_effect source))"

definition prepare_claimed_attempt ::
  "lease_retry_authority \<Rightarrow> tool_batch \<Rightarrow> tool_attempt_id \<Rightarrow> issuance_store
     \<Rightarrow> (runner_domain_error + claimed_attempt_replacement) \<times> lease_retry_authority \<times> issuance_store"
where
  "prepare_claimed_attempt retry b attempt st =
     (case ry_claimed_attempt retry of
        None \<Rightarrow> (Err Runner_InvalidState, retry, st)
      | Some claimed \<Rightarrow>
          if attempt = claimed then (Err Runner_AttemptIdentityReuse, retry, st)
          else if ry_prepared retry then (Err Runner_InvalidState, retry, st)
          else let retry' = retry\<lparr>ry_prepared := True\<rparr> in
            case replace_claimed_attempt b claimed attempt st of
              (Err failure, st') \<Rightarrow>
                (Err (if failure = AttemptIdentityReuse then Runner_AttemptIdentityReuse
                      else Runner_CorrelationMismatch), retry', st')
            | (Ok replacement, st') \<Rightarrow>
                if replacement_mismatch (ry_source retry) replacement
                then (Err Runner_CorrelationMismatch, retry', st')
                else case runner_authorization_try_new (cr_approved replacement)
                            (cr_authorized replacement) st' of
                  (Err failure, st'') \<Rightarrow> (Err failure, retry', st'')
                | (Ok authorization, st'') \<Rightarrow>
                    (Ok \<lparr>ct_batch = cr_batch replacement, ct_retired = cr_retired replacement,
                         ct_authorization = authorization
                           \<lparr>ra_retry_evidence := Some (Retry_Claimed (rs_correlation (ry_source retry))
                              (au_correlation (ra_authorized authorization)))\<rparr>,
                         ct_source = rs_correlation (ry_source retry)\<rparr>, retry', st''))"

section \<open>The lifecycle ends\<close>

inductive lease_step :: "runner_lease \<Rightarrow> runner_lease \<Rightarrow> bool" where
  step_claim: "lease_claim l correlation = Ok l' \<Longrightarrow> lease_step l l'"
| step_refuse: "lease_refuse l correlation = Ok l' \<Longrightarrow> lease_step l l'"
| step_complete: "lease_complete l correlation = Ok l' \<Longrightarrow> lease_step l l'"
| step_lose: "lease_lose l = Ok loss \<Longrightarrow> lease_step l (loss_lost loss)"
| step_lose_unclaimed: "lease_lose_unclaimed l no_execution = Ok loss \<Longrightarrow> lease_step l (loss_lost loss)"

fun lease_rank :: "runner_lease_state \<Rightarrow> nat" where
  "lease_rank Lease_Offered = 2"
| "lease_rank Lease_Claimed = 1"
| "lease_rank Lease_LostUnclaimed = 1"
| "lease_rank _ = 0"

lemma loss_keeps_lease: "into_loss_consequence l no_execution preparation = Ok loss \<Longrightarrow> loss_lost loss = l"
  by (auto simp: into_loss_consequence_def split: option.splits if_splits)

lemma correlation_state: "lease_correlation (l\<lparr>rl_state := s\<rparr>) = lease_correlation l"
  by (simp add: lease_correlation_def)

lemma lease_step_rank:
  "lease_step l l' \<Longrightarrow> lease_rank (rl_state l') < lease_rank (rl_state l) \<and>
     (\<exists>s. l' = l\<lparr>rl_state := s\<rparr>)"
  by (induction rule: lease_step.induct)
    (auto simp: lease_claim_def lease_refuse_def lease_complete_def lease_lose_def lease_lose_unclaimed_def
      dest!: loss_keeps_lease split: if_splits runner_lease_state.splits)

lemma lease_step_exists:
  "(\<exists>l'. lease_step l l') \<longleftrightarrow> lease_rank (rl_state l) > 0"
proof
  assume "lease_rank (rl_state l) > 0"
  then consider "rl_state l = Lease_Offered" | "rl_state l = Lease_Claimed" | "rl_state l = Lease_LostUnclaimed"
    by (cases "rl_state l") auto
  then show "\<exists>l'. lease_step l l'"
  proof cases
    case 1
    then show ?thesis
      using step_claim [of l "lease_correlation l"] by (simp add: lease_claim_def) blast
  next
    case 2
    then show ?thesis
      using step_complete [of l "lease_correlation l"] by (simp add: lease_complete_def) blast
  next
    case 3
    then show ?thesis
      using step_refuse [of l "lease_correlation l"] by (simp add: lease_refuse_def) blast
  qed
qed (use lease_step_rank in fastforce)

text \<open>
  C40. Every lease comes to an end. No sequence of claims, refusals, completions and losses of a
  lease is infinite: it has at most two steps, whatever correlations and proofs are presented, and
  no step changes anything but the state. It can be continued exactly while the lease is offered,
  claimed, or lost with a proof that it never ran; a completed, refused or possibly executed lost
  lease accepts nothing more, so a result is accepted at most once.
\<close>

theorem lease_lifecycle_ends:
  assumes "(lease_step ^^ n) l l'"
  shows "wfp (\<lambda>later earlier. lease_step earlier later) \<and> n \<le> 2 \<and> (\<exists>s. l' = l\<lparr>rl_state := s\<rparr>) \<and>
    lease_correlation l' = lease_correlation l \<and>
    ((\<exists>l''. lease_step l' l'') \<longleftrightarrow>
      rl_state l' \<in> {Lease_Offered, Lease_Claimed, Lease_LostUnclaimed})"
proof -
  have "wfp (\<lambda>later earlier. lease_step earlier later)"
  proof (rule wfp_if_convertible_to_nat)
    show "lease_rank (rl_state later) < lease_rank (rl_state earlier)" if "lease_step earlier later"
      for earlier later
      using lease_step_rank [OF that] by simp
  qed
  moreover have "lease_rank (rl_state l') + n \<le> lease_rank (rl_state l) \<and> (\<exists>s. l' = l\<lparr>rl_state := s\<rparr>)"
    using assms
  proof (induction n arbitrary: l')
    case 0
    then show ?case by (auto intro: exI [of _ "rl_state l"])
  next
    case (Suc n)
    then obtain m where m: "(lease_step ^^ n) l m" "lease_step m l'" by auto
    from Suc.IH [OF m(1)] lease_step_rank [OF m(2)] show ?case by auto
  qed
  moreover have "lease_rank s \<le> 2" for s by (cases s) auto
  moreover have "lease_rank s > 0 \<longleftrightarrow> s \<in> {Lease_Offered, Lease_Claimed, Lease_LostUnclaimed}" for s
    by (cases s) auto
  ultimately show ?thesis
    by (auto simp: lease_step_exists correlation_state) (meson add_leD2 le_trans)
qed

section \<open>Losing a lease\<close>

text \<open>A loss with or without a proof that the lease was never executed.\<close>

definition lease_lost :: "runner_lease \<Rightarrow> no_execution_proof option \<Rightarrow> runner_domain_error + lease_loss" where
  "lease_lost l evidence =
     (case evidence of None \<Rightarrow> lease_lose l | Some no_execution \<Rightarrow> lease_lose_unclaimed l no_execution)"

definition stored_lease :: "runner_lease \<Rightarrow> retry_preparation \<Rightarrow> runner_lease_input" where
  "stored_lease l preparation =
     \<lparr>li_projection = l, li_recorded_correlation = lease_correlation l,
      li_recorded_session = dc_session (rl_dispatch l), li_recorded_effect = rl_effect l,
      li_recorded_arguments = rl_arguments l,
      li_recorded_credential_authorization = rl_credential_authorization l,
      li_recorded_state = rl_state l, li_retry_preparation = preparation\<rparr>"

lemma generation_checked_next_eq:
  "generation_checked_next g = (if g = - 1 then None else Some (g + 1))"
  using checked_succ_neq_0 [of g "g + 1"]
  by (simp add: generation_checked_next_def checked_succ_def generation_try_from_u64_def)

lemma generation_less: "g \<noteq> - 1 \<Longrightarrow> g < g + (1 :: u64)"
  using unat_checked_succ [of g "g + 1"] by (simp add: checked_succ_def word_less_nat_alt)

lemma loss_restored:
  assumes "lease_lost l evidence = Ok loss" and "credential_matches l" and "declaration_matches registration l"
  shows "reconstitute_loss (stored_lease (loss_lost loss) Retry_Available) registration
    (map_option proof_correlation evidence) = Ok loss"
proof -
  obtain s where s: "into_loss_consequence (l\<lparr>rl_state := s\<rparr>) evidence Retry_Available = Ok loss"
    and ev: "(s = Lease_LostUnclaimed \<and> evidence \<noteq> None \<and> proof_correlation (the evidence) = lease_correlation l) \<or>
      (s \<in> {Lease_LostExecutionPossible, Lease_LostClaimed} \<and> evidence = None)"
    using assms(1)
    by (auto simp: lease_lost_def lease_lose_def lease_lose_unclaimed_def
        split: option.splits runner_lease_state.splits if_splits)
  have lost: "loss_lost loss = l\<lparr>rl_state := s\<rparr>" by (rule loss_keeps_lease [OF s])
  have "credential_matches (l\<lparr>rl_state := s\<rparr>)" "declaration_matches registration (l\<lparr>rl_state := s\<rparr>)"
    using assms(2,3) by (simp_all add: credential_matches_def declaration_matches_def split: option.splits)
  then have "reconstitute_lease (stored_lease (loss_lost loss) Retry_Available) registration =
      Ok (l\<lparr>rl_state := s\<rparr>)"
    by (simp add: reconstitute_lease_def stored_lease_def lost)
  moreover have same: "map_option NoExecutionProof (map_option proof_correlation evidence) = evidence"
    by (cases evidence) simp_all
  moreover have "into_reconstituted_loss (l\<lparr>rl_state := s\<rparr>) (map_option proof_correlation evidence)
      Retry_Available = Ok loss"
    using ev s same by (cases evidence) (auto simp: into_reconstituted_loss_def correlation_state)
  ultimately show ?thesis by (simp add: reconstitute_loss_def stored_lease_def)
qed

text \<open>
  C9. A lost lease is retried only when that is safe, and the classification is a fact of storage.
  Losing an offered or claimed lease without proof of non-execution requires crash classification
  of its attempt exactly when the tool has side effects; every other loss permits a retry, under the
  next generation, which is larger, and with a fresh attempt unless the proof shows that the old one
  never ran. The only failure is the exhausted generation. A loss restored from the facts stored of
  the lost lease is the loss that was classified.
\<close>

theorem lease_loss_classified:
  assumes "rl_state l = Lease_Offered \<and> evidence = Some (NoExecutionProof (lease_correlation l)) \<or>
      rl_state l \<in> {Lease_Offered, Lease_Claimed} \<and> evidence = None"
    and "credential_matches l" and "declaration_matches registration l"
  shows "(if evidence = None \<and> rl_effect l = Effect_SideEffecting
      then \<exists>lost. lease_lost l evidence = Ok (CrashClassificationRequired lost) \<and>
        crash_attempt (CrashClassificationRequired lost) = Some (dc_attempt (rl_dispatch l))
      else if rl_generation l = - 1 then lease_lost l evidence = Err GenerationExhausted
      else \<exists>lost retry. lease_lost l evidence = Ok (RetryPermitted lost retry evidence) \<and>
        source_matches (ry_source retry) lost \<and> lease_correlation lost = lease_correlation l \<and>
        rl_generation l < ry_generation retry \<and> ry_generation retry = rl_generation l + 1 \<and>
        ry_claimed_attempt retry =
          (if evidence = None then Some (dc_attempt (rl_dispatch l)) else None) \<and>
        \<not> ry_prepared retry) \<and>
    (\<forall>loss. lease_lost l evidence = Ok loss \<longrightarrow>
      reconstitute_loss (stored_lease (loss_lost loss) Retry_Available) registration
        (map_option proof_correlation evidence) = Ok loss)"
proof (intro conjI allI impI)
  show "if evidence = None \<and> rl_effect l = Effect_SideEffecting
      then \<exists>lost. lease_lost l evidence = Ok (CrashClassificationRequired lost) \<and>
        crash_attempt (CrashClassificationRequired lost) = Some (dc_attempt (rl_dispatch l))
      else if rl_generation l = - 1 then lease_lost l evidence = Err GenerationExhausted
      else \<exists>lost retry. lease_lost l evidence = Ok (RetryPermitted lost retry evidence) \<and>
        source_matches (ry_source retry) lost \<and> lease_correlation lost = lease_correlation l \<and>
        rl_generation l < ry_generation retry \<and> ry_generation retry = rl_generation l + 1 \<and>
        ry_claimed_attempt retry =
          (if evidence = None then Some (dc_attempt (rl_dispatch l)) else None) \<and>
        \<not> ry_prepared retry"
    using assms(1)
    by (auto simp: lease_lost_def lease_lose_def lease_lose_unclaimed_def into_loss_consequence_def
        crash_attempt_def generation_checked_next_eq generation_less source_matches_def source_from_lease_def
        correlation_state)
  show "reconstitute_loss (stored_lease (loss_lost loss) Retry_Available) registration
      (map_option proof_correlation evidence) = Ok loss" if "lease_lost l evidence = Ok loss" for loss
    by (rule loss_restored [OF that assms(2,3)])
qed

section \<open>Retrying\<close>

lemma prepared_once:
  assumes "ry_prepared retry"
  shows "\<exists>failure. prepare_unclaimed_attempt retry b st = (Err failure, retry, st)"
    and "\<exists>failure. prepare_claimed_attempt retry b attempt st = (Err failure, retry, st)"
  using assms
  by (auto simp: prepare_unclaimed_attempt_def prepare_claimed_attempt_def split: option.splits)

lemma sound_restored:
  "sound_batch (st, b) \<Longrightarrow> \<exists>preds b' tail. reconstitute_batch (stored_batch st preds b) st = (Ok b', st @ tail) \<and>
     batch_eq (st @ tail) b b'"
  using well_formed_restored by (fastforce simp: sound_batch_def)

lemma unclaimed_OkE:
  assumes "prepare_unclaimed_attempt retry b st = (Ok u, retry', st')"
  obtains authorization where
    "reauthorize_unclaimed_runner_attempt b (dc_attempt (lc_dispatch (rs_correlation (ry_source retry)))) st =
      (Ok (ua_batch u, authorization :: lease_authorization), st')"
    "ry_claimed_attempt retry = None" "retry' = retry\<lparr>ry_prepared := True\<rparr>"
    "au_correlation (ra_authorized (ua_authorization u)) = lc_dispatch (rs_correlation (ry_source retry))"
  using assms
  by (auto simp: prepare_unclaimed_attempt_def Let_def split: if_splits prod.splits sum.splits)

lemma claimed_OkE:
  assumes "prepare_claimed_attempt retry b attempt st = (Ok c, retry', st')"
  obtains claimed replacement st1 authorization where
    "ry_claimed_attempt retry = Some claimed" "attempt \<noteq> claimed" "retry' = retry\<lparr>ry_prepared := True\<rparr>"
    "replace_claimed_attempt b claimed attempt st = (Ok replacement, st1)"
    "\<not> replacement_mismatch (ry_source retry) replacement"
    "runner_authorization_try_new (cr_approved replacement) (cr_authorized replacement) st1 =
      (Ok (authorization :: lease_authorization), st')"
    "ct_batch c = cr_batch replacement" "ct_retired c = cr_retired replacement"
    "ra_authorized (ct_authorization c) = cr_authorized replacement"
    "ra_approved (ct_authorization c) = cr_approved replacement"
  using assms
  by (auto simp: prepare_claimed_attempt_def runner_authorization_try_new_def Let_def
      split: option.splits if_splits prod.splits sum.splits bool.splits)

lemma retired_attempt: "ea_attempt (crash_ended (classify_crash_loss current)) = ca_attempt current"
  by (auto simp: classify_crash_loss_def end_attempt_def
      split: tool_effect_class.splits current_tool_attempt_state.splits)

lemma unclaimed_prepared:
  assumes "batch_ok st preds b" and "prepare_unclaimed_attempt retry b st = (Ok u, retry', st')"
  shows "ry_prepared retry'"
    and "au_correlation (ra_authorized (ua_authorization u)) = lc_dispatch (rs_correlation (ry_source retry))"
    and "sound_batch (st', ua_batch u)"
proof -
  obtain authorization where
    again: "reauthorize_unclaimed_runner_attempt b (dc_attempt (lc_dispatch (rs_correlation (ry_source retry)))) st =
      (Ok (ua_batch u, authorization :: lease_authorization), st')"
    and same: "retry' = retry\<lparr>ry_prepared := True\<rparr>"
      "au_correlation (ra_authorized (ua_authorization u)) = lc_dispatch (rs_correlation (ry_source retry))"
    by (rule unclaimed_OkE [OF assms(2)])
  show "ry_prepared retry'" by (simp add: same)
  show "au_correlation (ra_authorized (ua_authorization u)) = lc_dispatch (rs_correlation (ry_source retry))"
    by (rule same(2))
  show "sound_batch (st', ua_batch u)"
    using reauthorize_keeps_ok [OF assms(1) again] by (auto simp: sound_batch_def)
qed

text \<open>The dispatch an ended attempt was issued under.\<close>

definition ended_dispatch :: "ended_tool_attempt \<Rightarrow> dispatch_correlation" where
  "ended_dispatch e = \<lparr>dc_session = ea_session e, dc_turn = ea_turn e,
     dc_issuing_attempt = ea_issuing_attempt e, dc_request = ea_request e, dc_attempt = ea_attempt e,
     dc_generation = ea_generation e\<rparr>"

lemma claimed_prepared:
  assumes ok: "batch_ok st preds b" and prep: "prepare_claimed_attempt retry b attempt st = (Ok c, retry', st')"
  shows "ry_prepared retry'" and "\<not> identity_in_use b attempt"
    and "dc_attempt (au_correlation (ra_authorized (ct_authorization c))) = attempt"
    and "Some (ea_attempt (ct_retired c)) = ry_claimed_attempt retry"
    and "ea_attempt (ct_retired c) \<in> set (tb_retired_attempts (ct_batch c))"
    and "sound_batch (st', ct_batch c)"
    and "ea_attempt (ct_retired c) \<notin> set (batch_attempt_ids (ct_batch c))"
    and "ended_dispatch (ct_retired c) = lc_dispatch (rs_correlation (ry_source retry))"
    and "tr_name (ap_request (ra_approved (ct_authorization c))) = lc_tool (rs_correlation (ry_source retry))"
    and "tr_id (ap_request (ra_approved (ct_authorization c))) =
      dc_request (lc_dispatch (rs_correlation (ry_source retry)))"
    and "ea_effect_class (ct_retired c) = tool_effect_class_of (rs_effect (ry_source retry))"
proof -
  obtain claimed rep st1 authorization where
    claimed: "ry_claimed_attempt retry = Some claimed" and retry': "retry' = retry\<lparr>ry_prepared := True\<rparr>"
    and rep: "replace_claimed_attempt b claimed attempt st = (Ok rep, st1)"
    and auth: "runner_authorization_try_new (cr_approved rep) (cr_authorized rep) st1 =
      (Ok (authorization :: lease_authorization), st')"
    and match: "\<not> replacement_mismatch (ry_source retry) rep"
    and c: "ct_batch c = cr_batch rep" "ct_retired c = cr_retired rep"
      "ra_authorized (ct_authorization c) = cr_authorized rep"
      "ra_approved (ct_authorization c) = cr_approved rep"
    by (rule claimed_OkE [OF prep])
  obtain turn_attempt q current approved and authorized :: authorized_tool_attempt where
    fresh: "\<not> identity_in_use b attempt"
    and issued: "authorize_with_runner_issuance (prepare_attempt approved attempt turn_attempt
        (ca_effect_class current)) (length st) = Ok authorized"
    and batch: "tb_retired_attempts (cr_batch rep) = bs_insert claimed (tb_retired_attempts b)"
    and current: "ca_attempt current = claimed" "cr_retired rep = crash_ended (classify_crash_loss current)"
      "cr_authorized rep = authorized"
    by (rule replace_OkE [OF rep]) simp
  show "ry_prepared retry'" "\<not> identity_in_use b attempt" by (simp_all add: retry' fresh)
  show "dc_attempt (au_correlation (ra_authorized (ct_authorization c))) = attempt"
    using issued
    by (auto simp: c current authorize_with_runner_issuance_def prepare_attempt_def attempt_correlation_def
        split: if_splits)
  show "Some (ea_attempt (ct_retired c)) = ry_claimed_attempt retry"
    by (simp add: c current claimed retired_attempt)
  show retired: "ea_attempt (ct_retired c) \<in> set (tb_retired_attempts (ct_batch c))"
    by (simp add: c current retired_attempt batch)
  have ok': "batch_ok st' preds (ct_batch c)"
    using batch_ok_store [OF replace_keeps_ok [OF ok rep]] length_try_new [OF auth] by (simp add: c)
  then show "sound_batch (st', ct_batch c)" by (auto simp: sound_batch_def)
  show "ea_attempt (ct_retired c) \<notin> set (batch_attempt_ids (ct_batch c))"
    using ok' retired by (auto simp: batch_ok_def attempts_ok_def)
  show "ended_dispatch (ct_retired c) = lc_dispatch (rs_correlation (ry_source retry))"
    "tr_name (ap_request (ra_approved (ct_authorization c))) = lc_tool (rs_correlation (ry_source retry))"
    "tr_id (ap_request (ra_approved (ct_authorization c))) =
      dc_request (lc_dispatch (rs_correlation (ry_source retry)))"
    "ea_effect_class (ct_retired c) = tool_effect_class_of (rs_effect (ry_source retry))"
    using match by (simp_all add: replacement_mismatch_def ended_dispatch_def c Let_def)
qed

text \<open>
  C10. A lost lease is retried at most once, through its own batch. For any reached batch: when a
  retry is prepared, the guard of the authority is set, the successor batch is restored equal from
  its stored facts, an unclaimed lease gets the very dispatch it had, and a claimed one gets an
  attempt of an identity never used in the batch for the same request and tool, while the claimed
  attempt, which is the one the lease dispatched, is ended, retired and no longer live. An authority whose guard is set prepares nothing again and changes nothing.
\<close>

theorem retry_prepared_once:
  assumes "reconstitute_batch i st = (Ok b, st1)" and "batch_move\<^sup>*\<^sup>* (st1, b) (st2, b2)"
  shows "(\<forall>u retry' st3. prepare_unclaimed_attempt retry b2 st2 = (Ok u, retry', st3) \<longrightarrow>
      ry_prepared retry' \<and>
      au_correlation (ra_authorized (ua_authorization u)) = lc_dispatch (rs_correlation (ry_source retry)) \<and>
      (\<exists>preds b3 tail. reconstitute_batch (stored_batch st3 preds (ua_batch u)) st3 = (Ok b3, st3 @ tail) \<and>
        batch_eq (st3 @ tail) (ua_batch u) b3)) \<and>
    (\<forall>attempt c retry' st3. prepare_claimed_attempt retry b2 attempt st2 = (Ok c, retry', st3) \<longrightarrow>
      ry_prepared retry' \<and> \<not> identity_in_use b2 attempt \<and>
      dc_attempt (au_correlation (ra_authorized (ct_authorization c))) = attempt \<and>
      Some (ea_attempt (ct_retired c)) = ry_claimed_attempt retry \<and>
      ended_dispatch (ct_retired c) = lc_dispatch (rs_correlation (ry_source retry)) \<and>
      tr_name (ap_request (ra_approved (ct_authorization c))) = lc_tool (rs_correlation (ry_source retry)) \<and>
      tr_id (ap_request (ra_approved (ct_authorization c))) =
        dc_request (lc_dispatch (rs_correlation (ry_source retry))) \<and>
      ea_effect_class (ct_retired c) = tool_effect_class_of (rs_effect (ry_source retry)) \<and>
      ea_attempt (ct_retired c) \<in> set (tb_retired_attempts (ct_batch c)) \<and>
      ea_attempt (ct_retired c) \<notin> set (batch_attempt_ids (ct_batch c)) \<and>
      (\<exists>preds b3 tail. reconstitute_batch (stored_batch st3 preds (ct_batch c)) st3 = (Ok b3, st3 @ tail) \<and>
        batch_eq (st3 @ tail) (ct_batch c) b3)) \<and>
    (ry_prepared retry \<longrightarrow> (\<forall>b st attempt. \<exists>failure failure'.
      prepare_unclaimed_attempt retry b st = (Err failure, retry, st) \<and>
      prepare_claimed_attempt retry b attempt st = (Err failure', retry, st)))"
proof -
  obtain preds where ok: "batch_ok st2 preds b2"
    using reached_sound [OF assms(2,1)] by (auto simp: sound_batch_def)
  show ?thesis
    by (intro conjI allI impI; (elim unclaimed_prepared [OF ok] claimed_prepared [OF ok])?)
      (rule sound_restored, erule unclaimed_prepared [OF ok] claimed_prepared [OF ok],
       rule sound_restored, erule unclaimed_prepared [OF ok] claimed_prepared [OF ok],
       use prepared_once in blast)
qed

section \<open>Sample leases\<close>

definition sample_lease :: "runner_lease_state \<Rightarrow> runner_lease" where
  "sample_lease s = \<lparr>rl_lease = Ident 40,
     rl_dispatch = \<lparr>dc_session = Ident 1, dc_turn = Ident 3, dc_issuing_attempt = Ident 7,
       dc_request = Ident 21, dc_attempt = Ident 31, dc_generation = 1\<rparr>,
     rl_runner = Ident 2, rl_registration_revision = 1, rl_placement_revision = 1,
     rl_working_directory = TextName [0x2F], rl_sandbox = Sandbox_Ambient, rl_tool = ToolName [0x61],
     rl_arguments = \<lparr>args_kind = Args_Json, args_value = [0x7B, 0x7D]\<rparr>, rl_effect = Effect_Pure,
     rl_credential_authorization = None, rl_generation = 1, rl_state = s\<rparr>"

definition sample_retry :: lease_retry_authority where
  "sample_retry = \<lparr>ry_source = source_from_lease (sample_lease Lease_LostClaimed), ry_generation = 2,
     ry_claimed_attempt = Some (Ident 31), ry_prepared = False\<rparr>"

theorem lease_lifecycle_ends_witness:
  "(\<nexists>l. lease_step (sample_lease Lease_LostClaimed) l)"
proof -
  have "lease_step (sample_lease Lease_Offered) (sample_lease Lease_Claimed)"
    by (rule step_claim [of _ "lease_correlation (sample_lease Lease_Offered)"])
      (simp add: lease_claim_def sample_lease_def)
  moreover have "lease_lose (sample_lease Lease_Claimed) =
      Ok (RetryPermitted (sample_lease Lease_LostClaimed) sample_retry None)"
    by (simp add: lease_lose_def into_loss_consequence_def generation_checked_next_eq sample_retry_def
        sample_lease_def source_from_lease_def lease_correlation_def)
  then have "lease_step (sample_lease Lease_Claimed) (sample_lease Lease_LostClaimed)"
    using step_lose by fastforce
  ultimately have "(lease_step ^^ 2) (sample_lease Lease_Offered) (sample_lease Lease_LostClaimed)"
    by (auto simp: numeral_2_eq_2)
  from lease_lifecycle_ends [OF this] show ?thesis by (simp add: sample_lease_def)
qed

theorem lease_loss_classified_witness:
  "\<exists>lost retry. lease_lost (sample_lease Lease_Claimed) None = Ok (RetryPermitted lost retry None) \<and>
     ry_generation retry = 2 \<and> ry_claimed_attempt retry = Some (Ident 31)"
proof -
  have "credential_matches (sample_lease Lease_Claimed)"
    "declaration_matches (pr_registration sample_prepared) (sample_lease Lease_Claimed)"
    by (simp_all add: credential_matches_def declaration_matches_def sample_lease_def sample_prepared_def
        sample_declaration_def)
  from lease_loss_classified [OF _ this, of None] show ?thesis by (auto simp: sample_lease_def)
qed

theorem retry_prepared_once_witness:
  "\<exists>c retry' st. prepare_claimed_attempt sample_retry sample_executing_batch (Ident 32)
       [runner_issuance_available] = (Ok c, retry', st) \<and> ry_prepared retry' \<and>
     Ident 31 \<in> set (tb_retired_attempts (ct_batch c))"
proof -
  have "\<exists>c retry' st. prepare_claimed_attempt sample_retry sample_executing_batch (Ident 32)
       [runner_issuance_available] = (Ok c, retry', st)"
    by (simp add: prepare_claimed_attempt_def sample_retry_def sample_defs replace_claimed_attempt_def
        identity_in_use_def find_in_flight_def try_from_resolution_def resolution_policy_auto_def new_cell_def
        Let_def prepare_attempt_def authorize_with_runner_issuance_def classify_crash_loss_def end_attempt_def
        dispatch_generation_first_def is_approved_def replacement_mismatch_def source_from_lease_def
        sample_lease_def lease_correlation_def runner_authorization_try_new_def attempt_correlation_def
        claim_runner_issuance_def compare_exchange_def)
  then obtain c retry' st where p: "prepare_claimed_attempt sample_retry sample_executing_batch (Ident 32)
       [runner_issuance_available] = (Ok c, retry', st)" by blast
  with retry_prepared_once [OF sample_executing_restored rtranclp.rtrancl_refl, of sample_retry]
  have "ry_prepared retry'" "Some (ea_attempt (ct_retired c)) = ry_claimed_attempt sample_retry"
    "ea_attempt (ct_retired c) \<in> set (tb_retired_attempts (ct_batch c))" by blast+
  with p show ?thesis by (auto simp: sample_retry_def)
qed

end
