(* ===== verification/Spec2Isabelle.thy ===== *)
theory Spec2Isabelle
  imports Std_Collections Accepted_Input Queue_Order Program_Journal Goal_Lineage Tool_Projection Runner_Lease
begin

text \<open>
  Signalbox is a self-hosted daemon for durable LLM-assisted work. A user submits inputs to a
  session; accepted inputs become turns in one total order; a turn calls a model, which may yield a
  batch of tool requests; each request is approved or denied, executed at most one at a time in the
  daemon or by a remote runner, and the results extend the transcript frontier that the next model
  call sees. All of this survives crashes: every aggregate is written to a database, restored
  through a checked constructor, and only then moved on. The rules live in the crate
  \<^verbatim>\<open>src/crates/domain\<close>, which is pure; the other crates perform the I/O around it. This
  development models the parts of that crate that decide order, authority, single use and recovery.

  \<^bold>\<open>Conventions.\<close> A Rust struct is a record, an enum a datatype, a validated newtype its
  underlying value. \<^verbatim>\<open>Result<T, E>\<close> is \<open>'e + 't\<close> with \<open>Ok\<close> for \<open>Inr\<close> and \<open>Err\<close> for \<open>Inl\<close>;
  every early return of the source is a branch. \<^verbatim>\<open>u64\<close>, \<^verbatim>\<open>u32\<close> and \<^verbatim>\<open>u8\<close> are words of that width
  and \<^verbatim>\<open>checked_add\<close> fails at the largest value; identities are 128-bit words with a phantom tag.
  \<^verbatim>\<open>BTreeMap\<close> and \<^verbatim>\<open>BTreeSet\<close> are strictly sorted lists. Strings are lists of scalar values with
  their UTF-8 lengths. Atomics shared through \<^verbatim>\<open>Arc\<close> are addresses in an explicit store that the
  operations thread, so aliasing between clones is visible; allocation identity of shared frontier
  content is a token handed out by a counter. A loop of the source is one recursive function over
  the collection it traverses, and no definition of the code needs fuel. Two loops
  do not recurse on a collection and have termination proofs:
  \<open>follow_chain\<close> of the queue order, whose visited set grows within finitely many identities, and
  \<open>frontier_entry_range\<close>, which counts up to a fixed end. The host loop around the replay cursor,
  \<open>replay_drive\<close>, is not in the code: it alternates the cursor's two operations as their documentation
  asks, and counts rounds because the program it drives is arbitrary. Each round consumes an entry,
  so one round more than there are entries is enough (\<open>replay_drive_returns\<close>).

  \<^bold>\<open>Library theories.\<close>
  \<^item> \<open>Prelude\<close>: identities, results, checked successors, and the locales \<open>guarded_machine\<close>,
    \<open>retaining_machine\<close> and \<open>closing_machine\<close>: what it means that a transition function keeps an
    invariant, that a rejection returns the old state, and that a closed state is final. They are
    interpreted on the accepted-input, goal, journal and session machines.
  \<^item> \<open>Std_Collections\<close>: ordered maps and sets with the locale \<open>ordered_map\<close>, interpreted on them.
  \<^item> \<open>Rust_Text\<close>: UTF-8 lengths, byte views, trimming.

  \<^bold>\<open>Inputs, sessions, goals and programs.\<close>
  \<^item> \<open>Accepted_Input\<close> (\<^verbatim>\<open>accepted_input.rs\<close>): an input is accounted for exactly once.
  \<^item> \<open>Queue_Order\<close> (\<^verbatim>\<open>queue_order.rs\<close>): the derivation of the total order from stored facts,
    loop by loop, accepts exactly the consistent fact sets and returns the one order they
    determine, whatever order the facts come in; later ordinary inputs only append.
  \<^item> \<open>Session_Lifecycle\<close> (\<^verbatim>\<open>session_lifecycle.rs\<close>, \<^verbatim>\<open>actor.rs\<close>): closed sessions stay closed and
    keep one outcome; what an expired deadline asks for is always an admitted transition.
  \<^item> \<open>Goal_Lineage\<close> (\<^verbatim>\<open>goal.rs\<close>): replaying stored events accepts exactly the histories that
    transitions produce; histories only grow; a goal of a closed session rejects every transition.
  \<^item> \<open>Program_Journal\<close> (\<^verbatim>\<open>program_journal.rs\<close>): a frame stream is accepted exactly when each entry
    is admissible after its predecessors; replay reproduces the recorded interleaving, reports
    the first divergence, and delivers a fault that was persisted for it.
  \<^item> \<open>Context_Frontier\<close> (\<^verbatim>\<open>context_frontier.rs\<close>): structural sharing and the validation cache
    give the answers of the plain comparison and the plain scan.

  \<^bold>\<open>The tool loop.\<close>
  \<^item> \<open>Tool_Policy\<close> (\<^verbatim>\<open>tool/\<close>: names, arguments, media, results, proposals, policy, requests) and
    \<open>Tool_Approval\<close> (\<^verbatim>\<open>tool/approval.rs\<close>, \<^verbatim>\<open>decide.rs\<close>, \<^verbatim>\<open>override_denial.rs\<close>): who may decide a
    request, with which evidence; all seven kinds of stored evidence restore the resolution that
    was made; a denial is overridden once; derived texts satisfy the bounds of the types that hold them.
  \<^item> \<open>Tool_Attempt\<close> (\<^verbatim>\<open>tool_attempt.rs\<close>): one physical attempt; evidence is applied only to the
    attempt whose fence it was bound through; attempts end as their effect class allows and are
    restored as stored.
  \<^item> \<open>Tool_Batch\<close>, \<open>Tool_Batch_Stored\<close>, \<open>Tool_Batch_Moves\<close> (\<^verbatim>\<open>tool_execution/batch.rs\<close> and
    \<^verbatim>\<open>batch/approval.rs\<close>, \<^verbatim>\<open>attempt.rs\<close>, \<^verbatim>\<open>reconstitution.rs\<close>): the batch, the complete validation of
    its stored facts with an exact invariant (\<open>batch_ok\<close>), and the relation \<open>batch_move\<close> of all
    transitions. Every reached batch is accepted again from storage; attempts exist only for
    approved requests, one live at a time; decisions finish; nothing recorded is lost. The three
    ways to decide share the locale \<open>decision_source\<close>.
  \<^item> \<open>Tool_Projection\<close> (\<^verbatim>\<open>batch/projection.rs\<close>, \<^verbatim>\<open>semantic_entry.rs\<close>, \<^verbatim>\<open>runner/recovery.rs\<close>): what a
    batch leaves in the transcript. The three loops over its requests are instances of the locale
    \<open>payload_rule\<close>. The result projection is accepted exactly when the batch is resolved and
    appends one entry per request; an executing batch always has a next attempt or is ready to be
    projected; the closing projections are characterised exactly. The last theorem also shows that
    \<^verbatim>\<open>prepare_failure_projection\<close> refuses a batch in which a request waited for a child, also when the
    child's result was delivered and a later attempt was lost in a crash.

  \<^bold>\<open>Runners.\<close>
  \<^item> \<open>Runner_Catalog\<close> (\<^verbatim>\<open>runner/names.rs\<close>, \<^verbatim>\<open>catalog.rs\<close>): checked names, tool declarations, profile
    policies, the catalog and the advertisement.
  \<^item> \<open>Runner_Enrollment\<close> (\<^verbatim>\<open>runner/enrollment.rs\<close>): two-phase registration over shared cells. From a
    new, pending or restored enrollment (\<open>enrolled\<close>) and in every order of the operations, at most one
    preparation is outstanding, committed revisions count up without gaps, only the last
    registration of an active enrollment authorises, promotion makes it authorise, and an
    outstanding preparation can be committed; registrations are restored as stored.
  \<^item> \<open>Runner_Lease\<close> (\<^verbatim>\<open>runner/lease.rs\<close>): a lease takes at most two steps; a lost lease is retried
    only when that is safe, once, under a larger generation, through the batch that owns the
    attempt, which stays storable.

  \<^bold>\<open>Interaction.\<close> \<open>Tool_Batch\<close> uses attempts, approvals and frontiers; \<open>Tool_Projection\<close> composes
  batches with frontiers; \<open>Runner_Lease\<close> composes leases with registrations and batches. Theorems
  that span components take a batch reconstituted from any stored facts and moved any number of
  times, and a frontier from any sequence of frontier operations.

  \<^bold>\<open>Parameters.\<close> The normaliser of provider JSON (serde_json) is an argument of the definitions that
  call it. Imported content, direct model selections and delegation outcomes are type parameters of
  transcript payloads.

  \<^bold>\<open>Not modelled.\<close> Persistence, the daemon, the runner and client processes, wire encodings, model
  providers, built-in tools and media decoders are I/O around the domain. Within the domain crate:
  runner placement and credential grants, the turn aggregate around model calls, the scheduling
  projection and the submission command (beyond their cores, the disposition lifecycle and the queue
  order), session creation and metadata, context compaction, delegation relations, imported
  conversations, program registration, command payloads, blobs, workspaces, review workflows, repository watches,
  evaluation and configuration data are separate aggregates that the modelled components receive
  only as validated values or not at all. Display texts and accessors have no counterpart beyond record fields. Registration
  operations interleave whole, call by call; interleavings inside a call, and the weaker visibility that
  acquire and release leave between different cells, are not modelled.
\<close>

end
